(* ===== verification/Rinari_Prelude.thy ===== *)
theory Rinari_Prelude
  imports
    Complex_Main
    "HOL-Library.Char_ord"
    "HOL-Library.List_Lexorder"
    "HOL-Library.Product_Lexorder"
begin

text \<open>
  The shared ground of the development: what the components use of Python and of its
  standard library, the generic lemmas their proofs share, and the two interfaces (locales)
  that several components implement.

  \<^item> Python's \<open>str\<close> is \<^typ>\<open>string\<close>: a \<^typ>\<open>char\<close> is one code point, so the model covers
    the code points up to U+00FF. The character classes below (\<open>is_space\<close>, \<open>is_digit_char\<close>,
    \<open>lower_char\<close>, \<open>is_line_break\<close>) are Python's on that range, superscript digits and the
    non-breaking space included.
  \<^item> A JSON or \<open>Any\<close> value is a \<open>json\<close> term; a dictionary is an association list in
    insertion order.
  \<^item> A raised exception is the left side of a sum (\<^typ>\<open>'e + 'a\<close>).
  \<^item> \<open>float\<close> values (times, prices, scores) are exact rationals: rounding is not modelled.
\<close>

section \<open>Lists\<close>

text \<open>\<open>xs[-n:]\<close>, and what \<open>del xs[:-n]\<close> leaves, for \<open>n \<ge> 1\<close>.\<close>

definition last_n :: "nat \<Rightarrow> 'a list \<Rightarrow> 'a list" where
  "last_n n xs = drop (length xs - n) xs"

text \<open>\<open>next((x for x in xs if p(x)), None)\<close>.\<close>

fun find_first :: "('a \<Rightarrow> bool) \<Rightarrow> 'a list \<Rightarrow> 'a option" where
  "find_first p [] = None"
| "find_first p (x # xs) = (if p x then Some x else find_first p xs)"

text \<open>\<open>sep.join(parts)\<close>.\<close>

fun join :: "'a list \<Rightarrow> 'a list list \<Rightarrow> 'a list" where
  "join sep [] = []"
| "join sep [x] = x"
| "join sep (x # y # ys) = x @ sep @ join sep (y # ys)"

text \<open>A dictionary in insertion order: \<open>d.get(k)\<close>, \<open>d[k] = v\<close> and \<open>d.pop(k, None)\<close>.\<close>

fun dict_get :: "('k \<times> 'v) list \<Rightarrow> 'k \<Rightarrow> 'v option" where
  "dict_get [] k = None"
| "dict_get ((k', v) # d) k = (if k = k' then Some v else dict_get d k)"

fun dict_set :: "'k \<Rightarrow> 'v \<Rightarrow> ('k \<times> 'v) list \<Rightarrow> ('k \<times> 'v) list" where
  "dict_set k v [] = [(k, v)]"
| "dict_set k v ((k', v') # d) = (if k = k' then (k', v) # d else (k', v') # dict_set k v d)"

definition dict_pop :: "'k \<Rightarrow> ('k \<times> 'v) list \<Rightarrow> ('k \<times> 'v) list" where
  "dict_pop k d = filter (\<lambda>(k', _). k' \<noteq> k) d"

section \<open>Strings\<close>

abbreviation cp :: "char \<Rightarrow> nat" where
  "cp c \<equiv> of_char c"

text \<open>\<open>str.isspace\<close> of one code point, the class \<open>strip\<close>, \<open>split\<close> and the regex \<open>\\s\<close> use.\<close>

definition is_space :: "char \<Rightarrow> bool" where
  "is_space c = (let n = cp c in 9 \<le> n \<and> n \<le> 13 \<or> 28 \<le> n \<and> n \<le> 32 \<or> n = 133 \<or> n = 160)"

text \<open>The line boundaries of \<open>str.splitlines\<close>.\<close>

definition is_line_break :: "char \<Rightarrow> bool" where
  "is_line_break c = (let n = cp c in 10 \<le> n \<and> n \<le> 13 \<or> 28 \<le> n \<and> n \<le> 30 \<or> n = 133)"

text \<open>\<open>str.isdigit\<close> of one code point: the ASCII digits and the superscripts two, three, one.\<close>

definition is_ascii_digit :: "char \<Rightarrow> bool" where
  "is_ascii_digit c = (48 \<le> cp c \<and> cp c \<le> 57)"

definition is_digit_char :: "char \<Rightarrow> bool" where
  "is_digit_char c = (is_ascii_digit c \<or> cp c = 178 \<or> cp c = 179 \<or> cp c = 185)"

definition isdigit :: "string \<Rightarrow> bool" where
  "isdigit s = (s \<noteq> [] \<and> list_all is_digit_char s)"

definition lower_char :: "char \<Rightarrow> char" where
  "lower_char c =
     (let n = cp c in
      if 65 \<le> n \<and> n \<le> 90 \<or> 192 \<le> n \<and> n \<le> 222 \<and> n \<noteq> 215 then char_of (n + 32) else c)"

definition lower :: "string \<Rightarrow> string" where
  "lower s = map lower_char s"

definition lstrip :: "(char \<Rightarrow> bool) \<Rightarrow> string \<Rightarrow> string" where
  "lstrip p s = dropWhile p s"

definition rstrip :: "(char \<Rightarrow> bool) \<Rightarrow> string \<Rightarrow> string" where
  "rstrip p s = rev (dropWhile p (rev s))"

definition strip :: "string \<Rightarrow> string" where
  "strip s = lstrip is_space (rstrip is_space s)"

text \<open>\<open>s.strip(chars)\<close> for a set of characters.\<close>

definition strip_chars :: "(char \<Rightarrow> bool) \<Rightarrow> string \<Rightarrow> string" where
  "strip_chars p s = lstrip p (rstrip p s)"

text \<open>\<open>s.split(sep)\<close> for a one-character separator: never empty, keeps empty parts.\<close>

fun split_on :: "char \<Rightarrow> string \<Rightarrow> string list" where
  "split_on c [] = [[]]"
| "split_on c (x # xs) =
     (if x = c then [] # split_on c xs
      else (case split_on c xs of [] \<Rightarrow> [[x]] | y # ys \<Rightarrow> (x # y) # ys))"

text \<open>\<open>s.split()\<close>: the maximal runs of non-space characters.\<close>

fun split_ws_acc :: "string \<Rightarrow> string \<Rightarrow> string list" where
  "split_ws_acc acc [] = (if acc = [] then [] else [rev acc])"
| "split_ws_acc acc (x # xs) =
     (if is_space x
      then (if acc = [] then split_ws_acc [] xs else rev acc # split_ws_acc [] xs)
      else split_ws_acc (x # acc) xs)"

definition split_ws :: "string \<Rightarrow> string list" where
  "split_ws s = split_ws_acc [] s"

text \<open>\<open>" ".join(s.split())\<close>, the normalisation several components apply to free text.\<close>

definition squeeze :: "string \<Rightarrow> string" where
  "squeeze s = join '' '' (split_ws s)"

text \<open>\<open>s.splitlines()\<close>: no empty last line, \<open>\\r\\n\<close> is one boundary.\<close>

fun splitlines_acc :: "string \<Rightarrow> string \<Rightarrow> string list" where
  "splitlines_acc acc [] = (if acc = [] then [] else [rev acc])"
| "splitlines_acc acc (x # xs) =
     (if is_line_break x
      then rev acc #
           (if cp x = 13 then
              (case xs of y # ys \<Rightarrow> if cp y = 10 then splitlines_acc [] ys
                                   else splitlines_acc [] xs
                        | [] \<Rightarrow> [])
            else splitlines_acc [] xs)
      else splitlines_acc (x # acc) xs)"

definition splitlines :: "string \<Rightarrow> string list" where
  "splitlines s = splitlines_acc [] s"

definition startswith :: "'a list \<Rightarrow> 'a list \<Rightarrow> bool" where
  "startswith s p = (take (length p) s = p)"

definition endswith :: "'a list \<Rightarrow> 'a list \<Rightarrow> bool" where
  "endswith s p = (length p \<le> length s \<and> drop (length s - length p) s = p)"

text \<open>\<open>p in s\<close> for text.\<close>

definition contains_sub :: "string \<Rightarrow> string \<Rightarrow> bool" where
  "contains_sub s p = list_ex (\<lambda>i. startswith (drop i s) p) [0..<Suc (length s)]"

text \<open>\<open>s.partition(c)\<close> for one character, without the separator: the part before the first
  \<open>c\<close>, and what follows it (empty when there is none).\<close>

definition partition_at :: "char \<Rightarrow> string \<Rightarrow> string \<times> string" where
  "partition_at c s = (takeWhile (\<lambda>x. x \<noteq> c) s, drop 1 (dropWhile (\<lambda>x. x \<noteq> c) s))"

section \<open>Regular expressions\<close>

text \<open>A regular expression is a function from the character before a position and the text from
  it on to the match there. \<open>re_search\<close> tries the positions in order; \<open>re_findall\<close> goes on behind
  each match (none of the expressions used with it matches the empty text).\<close>

definition is_word_char :: "char \<Rightarrow> bool" where
  "is_word_char c =
     (let n = cp c in
      48 \<le> n \<and> n \<le> 57 \<or> 65 \<le> n \<and> n \<le> 90 \<or> n = 95 \<or> 97 \<le> n \<and> n \<le> 122 \<or>
      n = 170 \<or> n = 178 \<or> n = 179 \<or> n = 181 \<or> n = 185 \<or> n = 186 \<or> 188 \<le> n \<and> n \<le> 190 \<or>
      192 \<le> n \<and> n \<noteq> 215 \<and> n \<noteq> 247)"

definition word_opt :: "char option \<Rightarrow> bool" where
  "word_opt c = (case c of None \<Rightarrow> False | Some x \<Rightarrow> is_word_char x)"

definition head_opt :: "'a list \<Rightarrow> 'a option" where
  "head_opt xs = (case xs of [] \<Rightarrow> None | x # _ \<Rightarrow> Some x)"

text \<open>\<open>\\b\<close> between two neighbours, \<open>None\<close> at an end of the text.\<close>

definition boundary :: "char option \<Rightarrow> char option \<Rightarrow> bool" where
  "boundary a b = (word_opt a \<noteq> word_opt b)"

type_synonym regex = "char option \<Rightarrow> string \<Rightarrow> string option"

fun re_search :: "regex \<Rightarrow> char option \<Rightarrow> string \<Rightarrow> string option" where
  "re_search p prev [] = p prev []"
| "re_search p prev (c # s) =
     (case p prev (c # s) of Some m \<Rightarrow> Some m | None \<Rightarrow> re_search p (Some c) s)"

function re_findall :: "regex \<Rightarrow> char option \<Rightarrow> string \<Rightarrow> string list" where
  "re_findall p prev [] = []"
| "re_findall p prev (c # s) =
     (case p prev (c # s) of
        Some (m # ms) \<Rightarrow> (m # ms) # re_findall p (Some (last (m # ms))) (drop (length ms) s)
      | _ \<Rightarrow> re_findall p (Some c) s)"
  by pat_completeness auto
termination
  by (relation "measure (\<lambda>(p, prev, s). length s)") auto

section \<open>Decimal numbers\<close>

text \<open>\<open>str(n)\<close> and, for ASCII digits, \<open>int(s)\<close>.\<close>

fun nat_to_string :: "nat \<Rightarrow> string" where
  "nat_to_string n =
     (if n < 10 then [char_of (48 + n)]
      else nat_to_string (n div 10) @ [char_of (48 + n mod 10)])"

declare nat_to_string.simps [simp del]

definition int_to_string :: "int \<Rightarrow> string" where
  "int_to_string i = (if i < 0 then ''-'' @ nat_to_string (nat (- i)) else nat_to_string (nat i))"

definition digits_value :: "string \<Rightarrow> int" where
  "digits_value s = fold (\<lambda>c acc. 10 * acc + int (cp c - 48)) s 0"

text \<open>\<open>int(s)\<close> where the code has just checked \<open>s.isdigit()\<close>: a superscript digit passes that
  check and makes \<open>int\<close> raise \<open>ValueError\<close>, here \<open>None\<close>.\<close>

definition int_of_digits :: "string \<Rightarrow> int option" where
  "int_of_digits s = (if s \<noteq> [] \<and> list_all is_ascii_digit s then Some (digits_value s) else None)"

section \<open>JSON values\<close>

datatype json =
    JNull
  | JBool bool
  | JInt int
  | JFloat rat
  | JStr string
  | JList "json list"
  | JObj "(string \<times> json) list"

text \<open>\<open>bool(value)\<close>.\<close>

fun truthy :: "json \<Rightarrow> bool" where
  "truthy JNull = False"
| "truthy (JBool b) = b"
| "truthy (JInt i) = (i \<noteq> 0)"
| "truthy (JFloat r) = (r \<noteq> 0)"
| "truthy (JStr s) = (s \<noteq> [])"
| "truthy (JList xs) = (xs \<noteq> [])"
| "truthy (JObj kvs) = (kvs \<noteq> [])"

text \<open>\<open>d.get(k)\<close> on an object, \<open>JNull\<close> standing for Python's \<open>None\<close>.\<close>

definition obj_get :: "(string \<times> json) list \<Rightarrow> string \<Rightarrow> json" where
  "obj_get d k = (case dict_get d k of None \<Rightarrow> JNull | Some v \<Rightarrow> v)"

section \<open>Lemmas on lists and dictionaries\<close>

lemma length_last_n [simp]: "length (last_n n xs) = min n (length xs)"
  by (simp add: last_n_def)

lemma last_n_all [simp]: "length xs \<le> n \<Longrightarrow> last_n n xs = xs"
  by (simp add: last_n_def)

lemma set_last_n: "set (last_n n xs) \<subseteq> set xs"
  by (simp add: last_n_def set_drop_subset)

lemma last_n_last: "0 < n \<Longrightarrow> xs \<noteq> [] \<Longrightarrow> last (last_n n xs) = last xs"
  by (simp add: last_n_def)

lemma last_n_last_n [simp]: "last_n n (last_n m xs) = last_n (min n m) xs"
  by (cases "n \<le> m"; cases "m \<le> length xs") (auto simp: last_n_def min_def)

lemma find_first_Some: "find_first p xs = Some x \<Longrightarrow> x \<in> set xs \<and> p x"
  by (induction xs) (auto split: if_splits)

lemma find_first_None: "find_first p xs = None \<longleftrightarrow> (\<forall>x \<in> set xs. \<not> p x)"
  by (induction xs) auto

lemma find_first_append:
  "find_first p (xs @ ys) = (case find_first p xs of Some x \<Rightarrow> Some x | None \<Rightarrow> find_first p ys)"
  by (induction xs) auto

lemma dict_get_set [simp]: "dict_get (dict_set k v d) k' = (if k' = k then Some v else dict_get d k')"
  by (induction d) auto

lemma dict_get_pop [simp]: "dict_get (dict_pop k d) k' = (if k' = k then None else dict_get d k')"
  by (induction d) (auto simp: dict_pop_def)

lemma dict_get_None: "dict_get d k = None \<longleftrightarrow> k \<notin> fst ` set d"
  by (induction d) (auto split: if_splits)

lemma dict_get_Some_in: "dict_get d k = Some v \<Longrightarrow> (k, v) \<in> set d"
  by (induction d) (auto split: if_splits)

lemma dict_get_in:
  "distinct (map fst d) \<Longrightarrow> (k, v) \<in> set d \<Longrightarrow> dict_get d k = Some v"
  by (induction d) force+

lemma keys_dict_set [simp]: "fst ` set (dict_set k v d) = insert k (fst ` set d)"
proof (induction d)
  case (Cons kv d)
  then show ?case by (cases kv) (auto simp: insert_commute)
qed simp

lemma values_dict_set_new:
  "dict_get d k = None \<Longrightarrow> snd ` set (dict_set k v d) = insert v (snd ` set d)"
proof (induction d)
  case (Cons kv d)
  then show ?case by (cases kv) (auto simp: insert_commute split: if_splits)
qed simp

lemma dict_get_value: "dict_get d k = Some v \<Longrightarrow> v \<in> snd ` set d"
  by (force dest: dict_get_Some_in)

lemma distinct_dict_set: "distinct (map fst d) \<Longrightarrow> distinct (map fst (dict_set k v d))"
proof (induction d)
  case (Cons kv d)
  have "set (map fst (dict_set k v d)) = insert k (set (map fst d))" by simp
  with Cons show ?case by (cases kv) auto
qed simp

lemma split_on_not_Nil [simp]: "split_on c s \<noteq> []"
  by (induction s) (auto split: list.splits)

lemma length_filter_all: "length (filter p xs) = length xs \<longleftrightarrow> list_all p xs"
proof (induction xs)
  case (Cons a xs)
  then show ?case by (auto, metis Suc_n_not_le_n length_filter_le)
qed simp

lemma lower_char_idem [simp]: "lower_char (lower_char c) = lower_char c"
  by (auto simp: lower_char_def Let_def)

lemma split_on_no_sep: "x \<in> set (split_on c s) \<Longrightarrow> c \<notin> set x"
  by (induction s arbitrary: x) (auto split: if_splits list.splits)

lemma split_on_append_sep: "c \<notin> set x \<Longrightarrow> split_on c (x @ c # s) = x # split_on c s"
  by (induction x) auto

lemma split_on_plain: "c \<notin> set x \<Longrightarrow> split_on c x = [x]"
  by (induction x) auto

lemma split_on_join: "xs \<noteq> [] \<Longrightarrow> \<forall>x \<in> set xs. c \<notin> set x \<Longrightarrow> split_on c (join [c] xs) = xs"
  by (induction "[c]" xs rule: join.induct) (auto simp: split_on_append_sep split_on_plain)

lemma split_on_append: "split_on c (x @ c # s) = split_on c x @ split_on c s"
  by (induction x) (auto split: list.splits)

lemma join_append: "xs \<noteq> [] \<Longrightarrow> ys \<noteq> [] \<Longrightarrow> join sep (xs @ ys) = join sep xs @ sep @ join sep ys"
  by (induction sep xs rule: join.induct) (auto simp: neq_Nil_conv)

lemma join_split_on [simp]: "join [c] (split_on c s) = s"
proof (induction s)
  case (Cons x s)
  then show ?case by (cases "split_on c s") (auto, (cases "tl (split_on c s)", auto)+)
qed simp

lemma last_dropWhile: "dropWhile p xs \<noteq> [] \<Longrightarrow> last (dropWhile p xs) = last xs"
  by (induction xs) auto

lemma dropWhile_id: "xs = [] \<or> \<not> p (hd xs) \<Longrightarrow> dropWhile p xs = xs"
  by (cases xs) auto

lemma strip_chars_idem [simp]: "strip_chars p (strip_chars p s) = strip_chars p s"
proof -
  define r where "r = rev (dropWhile p (rev s))"
  define t where "t = dropWhile p r"
  have "rev (dropWhile p (rev t)) = t"
  proof (cases "t = []")
    case False
    then have "last t = last r" unfolding t_def by (rule last_dropWhile)
    moreover have "r \<noteq> []" using False t_def by auto
    then have "dropWhile p (rev s) \<noteq> []" and "last r = hd (dropWhile p (rev s))"
      by (simp_all add: r_def last_rev)
    ultimately have "\<not> p (hd (rev t))" using False hd_dropWhile by (metis hd_rev)
    then show ?thesis by (simp add: dropWhile_id)
  qed simp
  moreover have "dropWhile p t = t" by (simp add: t_def)
  ultimately show ?thesis
    by (simp add: strip_chars_def lstrip_def rstrip_def t_def r_def)
qed

lemma strip_strip [simp]: "strip (strip s) = strip s"
  using strip_chars_idem [of is_space s] by (simp add: strip_def strip_chars_def)

lemma split_ws_acc_Nil: "split_ws_acc acc s = [] \<longleftrightarrow> acc = [] \<and> list_all is_space s"
  by (induction s arbitrary: acc) auto

lemma split_ws_acc_words: "x \<in> set (split_ws_acc acc s) \<Longrightarrow> x \<noteq> []"
  by (induction s arbitrary: acc) (auto split: if_splits)

lemma join_Nil: "join sep xs = [] \<Longrightarrow> xs = [] \<or> hd xs = []"
  by (induction sep xs rule: join.induct) auto

lemma strip_Nil: "strip s = [] \<longleftrightarrow> list_all is_space s"
proof
  assume "strip s = []"
  then have all: "\<forall>c \<in> set (dropWhile is_space (rev s)). is_space c"
    by (simp add: strip_def lstrip_def rstrip_def dropWhile_eq_Nil_conv)
  then have "dropWhile is_space (rev s) = []"
    by (metis hd_dropWhile hd_in_set)
  then show "list_all is_space s" by (simp add: dropWhile_eq_Nil_conv list_all_iff)
next
  assume "list_all is_space s"
  then show "strip s = []"
    by (auto simp: strip_def lstrip_def rstrip_def dropWhile_eq_Nil_conv list_all_iff
        dest: set_dropWhileD)
qed

lemma squeeze_Nil: "squeeze s = [] \<longleftrightarrow> strip s = []"
proof
  assume "squeeze s = []"
  then have "split_ws s = [] \<or> hd (split_ws s) = []"
    unfolding squeeze_def by (rule join_Nil)
  then have "split_ws s = []"
    by (metis hd_in_set split_ws_acc_words split_ws_def)
  then show "strip s = []" by (simp add: split_ws_def split_ws_acc_Nil strip_Nil)
next
  assume "strip s = []"
  then have "split_ws_acc [] s = []" by (simp add: strip_Nil split_ws_acc_Nil)
  then show "squeeze s = []" by (simp add: squeeze_def split_ws_def)
qed

lemma split_ws_acc_word: "list_all (\<lambda>c. \<not> is_space c) w \<Longrightarrow> split_ws_acc acc (w @ s) = split_ws_acc (rev w @ acc) s"
  by (induction w arbitrary: acc) auto

lemma split_ws_acc_words_plain: "x \<in> set (split_ws_acc acc s) \<Longrightarrow> list_all (\<lambda>c. \<not> is_space c) acc \<Longrightarrow> list_all (\<lambda>c. \<not> is_space c) x"
  by (induction s arbitrary: acc) (auto split: if_splits)

lemma split_ws_join:
  "\<forall>w \<in> set ws. w \<noteq> [] \<and> list_all (\<lambda>c. \<not> is_space c) w \<Longrightarrow> split_ws (join '' '' ws) = ws"
  unfolding split_ws_def
proof (induction "'' ''" ws rule: join.induct)
  case (2 x)
  then show ?case using split_ws_acc_word [of x "[]" "[]"] by simp
next
  case (3 x y ys)
  have "is_space (CHR '' '')" by (simp add: is_space_def)
  then show ?case using 3 split_ws_acc_word [of x "[]" "'' '' @ join '' '' (y # ys)"] by simp
qed simp

lemma split_ws_squeeze [simp]: "split_ws (squeeze s) = split_ws s"
  unfolding squeeze_def
  by (rule split_ws_join) (auto simp: split_ws_def dest: split_ws_acc_words split_ws_acc_words_plain)

lemma squeeze_squeeze [simp]: "squeeze (squeeze s) = squeeze s"
  by (simp add: squeeze_def [of "squeeze s"]) (simp add: squeeze_def)

lemma set_strip: "set (strip s) \<subseteq> set s"
  by (auto simp: strip_def lstrip_def rstrip_def dest!: set_dropWhileD)

text \<open>An evaluation that stops at the first difference.\<close>

lemma startswith_code [code]:
  "startswith s [] = True"
  "startswith [] (c # p) = False"
  "startswith (x # s) (c # p) = (if x = c then startswith s p else False)"
  by (simp_all add: startswith_def)

lemma startswith_append [simp]: "startswith (p @ s) p"
  by (simp add: startswith_def)

lemma startswith_iff: "startswith s p \<longleftrightarrow> (\<exists>r. s = p @ r)"
  by (metis append_eq_conv_conj append_take_drop_id startswith_def)

lemma endswith_iff: "endswith s p \<longleftrightarrow> (\<exists>r. s = r @ p)"
proof
  assume "endswith s p"
  then show "\<exists>r. s = r @ p"
    by (metis append_take_drop_id endswith_def)
next
  assume "\<exists>r. s = r @ p"
  then show "endswith s p" by (auto simp: endswith_def)
qed

section \<open>Calls that may raise\<close>

text \<open>\<open>y = x()\<close> followed by the rest of the body: a raised exception ends it.\<close>

definition bindE :: "'e + 'a \<Rightarrow> ('a \<Rightarrow> 'e + 'b) \<Rightarrow> 'e + 'b" where
  "bindE x f = (case x of Inl e \<Rightarrow> Inl e | Inr a \<Rightarrow> f a)"

lemma bindE_Inr [simp]: "bindE x f = Inr y \<longleftrightarrow> (\<exists>a. x = Inr a \<and> f a = Inr y)"
  by (cases x) (auto simp: bindE_def)

lemma bindE_simps: "bindE (Inl e) f = Inl e" "bindE (Inr a) f = f a"
  by (simp_all add: bindE_def)

section \<open>Shared interfaces\<close>

text \<open>
  A component whose operations keep an invariant, for the operations a client may send
  (\<open>ok\<close>). The client gets that every sequence of them keeps it, and that whatever follows
  from the invariant holds after any run.
\<close>

locale invariant_steps =
  fixes step :: "'op \<Rightarrow> 'st \<Rightarrow> 'st"
    and ok :: "'op \<Rightarrow> bool"
    and inv :: "'st \<Rightarrow> bool"
  assumes step_inv: "inv s \<Longrightarrow> ok x \<Longrightarrow> inv (step x s)"
begin

lemma run_inv: "inv s \<Longrightarrow> list_all ok xs \<Longrightarrow> inv (fold step xs s)"
  by (induction xs arbitrary: s) (auto intro: step_inv)

lemma run_implies:
  assumes "inv s" and "list_all ok xs" and "\<And>t. inv t \<Longrightarrow> P t"
  shows "P (fold step xs s)"
  using assms run_inv by blast

end

text \<open>
  A component with a measure its operations never decrease (a revision, a counter): runs
  are monotone in it.
\<close>

locale monotone_steps =
  fixes step :: "'op \<Rightarrow> 'st \<Rightarrow> 'st"
    and measure_of :: "'st \<Rightarrow> 'm::order"
  assumes step_mono: "measure_of s \<le> measure_of (step x s)"
begin

lemma run_mono: "measure_of s \<le> measure_of (fold step xs s)"
proof (induction xs arbitrary: s)
  case Nil
  show ?case by simp
next
  case (Cons x xs)
  have "measure_of s \<le> measure_of (step x s)" by (rule step_mono)
  also have "\<dots> \<le> measure_of (fold step xs (step x s))" by (rule Cons.IH)
  finally show ?case by simp
qed

end

end
