(* ===== verification/Budget.thy ===== *)
theory Budget
  imports Rinari_Prelude
begin

text \<open>
  Turn budgets, \<^verbatim>\<open>src/src/rinari/runtime/budget.py\<close>: the hierarchical ledger of
  \<open>BudgetMeter\<close> objects and the \<open>EmergencyCircuitBreaker\<close> over it.

  Meters are shared mutable objects linked to their parent (several children forward to the
  same parent), so the model keeps an explicit store: a \<open>ledger\<close> is the list of all meters
  in creation order, an object reference is a position in it. A child is created from an
  existing meter and its \<open>parent\<close> field is never assigned again, so a parent's position is
  smaller than its child's (\<open>ledger_ok\<close>, kept by every operation); \<open>parent_of\<close> follows
  only such links, which is what makes the walks along the chain total functions.

  The module-level lock makes every recording operation atomic: an operation is one step.
  The clock reading is an argument (\<open>now\<close>), as is the name classifier where a meter
  injects one.
\<close>

section \<open>Dimensions and limits\<close>

datatype dimension =
    MODEL_CALLS | TOOL_CALLS | NETWORK_CALLS | SUBAGENTS | RECURSION_DEPTH | COST | WALL_TIME

definition PRIORITY :: "dimension list" where
  "PRIORITY = [MODEL_CALLS, TOOL_CALLS, NETWORK_CALLS, SUBAGENTS, RECURSION_DEPTH, COST, WALL_TIME]"

definition DEFAULT_NETWORK_NAMESPACES :: "string set" where
  "DEFAULT_NETWORK_NAMESPACES = {''web'', ''http'', ''browser''}"

record TurnBudgetLimits =
  lim_model_calls :: "int option"
  lim_tool_calls :: "int option"
  lim_network_calls :: "int option"
  lim_wall_time_s :: "rat option"
  lim_cost :: "rat option"
  input_price_per_mtok :: "rat option"
  output_price_per_mtok :: "rat option"
  lim_subagent_calls :: "int option"
  lim_recursion_depth :: "int option"

definition default_limits :: TurnBudgetLimits where
  "default_limits = \<lparr>lim_model_calls = Some 500, lim_tool_calls = Some 5000,
     lim_network_calls = None, lim_wall_time_s = Some 7200, lim_cost = None,
     input_price_per_mtok = None, output_price_per_mtok = None,
     lim_subagent_calls = Some 100, lim_recursion_depth = Some 8\<rparr>"

text \<open>\<open>name.split(".", 1)[0] in DEFAULT_NETWORK_NAMESPACES\<close>.\<close>

definition default_is_network :: "string \<Rightarrow> bool" where
  "default_is_network name = (fst (partition_at (CHR ''.'') name) \<in> DEFAULT_NETWORK_NAMESPACES)"

section \<open>Meters and the ledger\<close>

record BudgetMeter =
  limits :: TurnBudgetLimits
  is_network :: "(string \<Rightarrow> bool) option"
  parent :: "nat option"
  model_calls :: int
  tool_calls :: int
  own_model_calls :: int
  own_tool_calls :: int
  network_calls :: int
  subagent_calls :: int
  max_recursion_depth :: int
  input_tokens :: int
  output_tokens :: int
  unpriced_model_usage :: bool
  started_at :: rat

type_synonym ledger = "BudgetMeter list"

record Usage =
  usage_input_tokens :: "int option"
  usage_output_tokens :: "int option"

definition new_meter ::
  "TurnBudgetLimits \<Rightarrow> (string \<Rightarrow> bool) option \<Rightarrow> nat option \<Rightarrow> rat \<Rightarrow> BudgetMeter" where
  "new_meter lims net par now = \<lparr>limits = lims, is_network = net, parent = par,
     model_calls = 0, tool_calls = 0, own_model_calls = 0, own_tool_calls = 0,
     network_calls = 0, subagent_calls = 0, max_recursion_depth = 0,
     input_tokens = 0, output_tokens = 0, unpriced_model_usage = False, started_at = now\<rparr>"

definition parent_of :: "ledger \<Rightarrow> nat \<Rightarrow> nat option" where
  "parent_of L i = (case parent (L ! i) of Some p \<Rightarrow> if p < i then Some p else None | None \<Rightarrow> None)"

definition ledger_ok :: "ledger \<Rightarrow> bool" where
  "ledger_ok L = (\<forall>i < length L. case parent (L ! i) of Some p \<Rightarrow> p < i | None \<Rightarrow> True)"

text \<open>The meters from \<open>i\<close> up to its root, what \<open>while meter is not None\<close> visits.\<close>

function chain :: "ledger \<Rightarrow> nat \<Rightarrow> nat list" where
  "chain L i = i # (case parent_of L i of None \<Rightarrow> [] | Some p \<Rightarrow> chain L p)"
  by pat_completeness auto
termination
  by (relation "measure (\<lambda>(L, i). i)") (auto simp: parent_of_def split: option.splits if_splits)

declare chain.simps [simp del]

section \<open>Recording\<close>

definition net_of :: "BudgetMeter \<Rightarrow> string \<Rightarrow> bool" where
  "net_of m = (case is_network m of Some f \<Rightarrow> f | None \<Rightarrow> default_is_network)"

text \<open>The change each operation makes to one meter, the forwarding aside.\<close>

definition bump_model :: "bool \<Rightarrow> BudgetMeter \<Rightarrow> BudgetMeter" where
  "bump_model forwarded m = m\<lparr>model_calls := model_calls m + 1,
     own_model_calls := (if forwarded then own_model_calls m else own_model_calls m + 1)\<rparr>"

function note_model_call :: "ledger \<Rightarrow> nat \<Rightarrow> bool \<Rightarrow> ledger" where
  "note_model_call L i forwarded =
     (let L1 = L[i := bump_model forwarded (L ! i)] in
      case parent_of L i of None \<Rightarrow> L1 | Some p \<Rightarrow> note_model_call L1 p True)"
  by pat_completeness auto
termination
  by (relation "measure (\<lambda>(L, i, f). i)") (auto simp: parent_of_def split: option.splits if_splits)

definition bump_tool :: "bool \<Rightarrow> bool \<Rightarrow> BudgetMeter \<Rightarrow> BudgetMeter" where
  "bump_tool network forwarded m = m\<lparr>tool_calls := tool_calls m + 1,
     own_tool_calls := (if forwarded then own_tool_calls m else own_tool_calls m + 1),
     network_calls := (if network then network_calls m + 1 else network_calls m)\<rparr>"

definition resolve_network :: "BudgetMeter \<Rightarrow> string \<Rightarrow> bool option \<Rightarrow> bool" where
  "resolve_network m name flag = (case flag of Some b \<Rightarrow> b | None \<Rightarrow> net_of m name)"

function note_tool_call :: "ledger \<Rightarrow> nat \<Rightarrow> string \<Rightarrow> bool option \<Rightarrow> bool \<Rightarrow> ledger" where
  "note_tool_call L i name flag forwarded =
     (let network = resolve_network (L ! i) name flag;
          L1 = L[i := bump_tool network forwarded (L ! i)] in
      case parent_of L i of
        None \<Rightarrow> L1
      | Some p \<Rightarrow> note_tool_call L1 p name (Some network) True)"
  by pat_completeness auto
termination
  by (relation "measure (\<lambda>(L, i, n, b, f). i)")
     (auto simp: parent_of_def split: option.splits if_splits)

text \<open>\<open>if usage.input_tokens: self.input_tokens += usage.input_tokens\<close>: \<open>None\<close> and \<open>0\<close> are skipped.\<close>

definition bump_usage :: "Usage \<Rightarrow> BudgetMeter \<Rightarrow> BudgetMeter" where
  "bump_usage u m =
     (let m1 = (case usage_input_tokens u of
                  Some n \<Rightarrow> if n \<noteq> 0 then m\<lparr>input_tokens := input_tokens m + n\<rparr> else m
                | None \<Rightarrow> m)
      in (case usage_output_tokens u of
            Some n \<Rightarrow> if n \<noteq> 0 then m1\<lparr>output_tokens := output_tokens m1 + n\<rparr> else m1
          | None \<Rightarrow> m1))"

function note_usage_some :: "ledger \<Rightarrow> nat \<Rightarrow> Usage \<Rightarrow> ledger" where
  "note_usage_some L i u =
     (let L1 = L[i := bump_usage u (L ! i)] in
      case parent_of L i of None \<Rightarrow> L1 | Some p \<Rightarrow> note_usage_some L1 p u)"
  by pat_completeness auto
termination
  by (relation "measure (\<lambda>(L, i, u). i)") (auto simp: parent_of_def split: option.splits if_splits)

definition note_usage :: "ledger \<Rightarrow> nat \<Rightarrow> Usage option \<Rightarrow> ledger" where
  "note_usage L i usage = (case usage of None \<Rightarrow> L | Some u \<Rightarrow> note_usage_some L i u)"

definition bump_subagent :: "int \<Rightarrow> BudgetMeter \<Rightarrow> BudgetMeter" where
  "bump_subagent depth m = m\<lparr>subagent_calls := subagent_calls m + 1,
     max_recursion_depth := max (max_recursion_depth m) depth\<rparr>"

function note_subagent :: "ledger \<Rightarrow> nat \<Rightarrow> int \<Rightarrow> ledger" where
  "note_subagent L i depth =
     (let L1 = L[i := bump_subagent depth (L ! i)] in
      case parent_of L i of None \<Rightarrow> L1 | Some p \<Rightarrow> note_subagent L1 p (depth + 1))"
  by pat_completeness auto
termination
  by (relation "measure (\<lambda>(L, i, d). i)") (auto simp: parent_of_def split: option.splits if_splits)

text \<open>\<open>spawn_child\<close>: the new meter is appended (its reference is \<open>length L\<close>), then the spawn
  is counted on the parent and above.\<close>

definition spawn_child ::
  "ledger \<Rightarrow> nat \<Rightarrow> TurnBudgetLimits option \<Rightarrow> int \<Rightarrow> rat \<Rightarrow> ledger \<times> nat" where
  "spawn_child L i lims depth now =
     (let child = new_meter (case lims of Some l \<Rightarrow> l | None \<Rightarrow> limits (L ! i))
                    (is_network (L ! i)) (Some i) now
      in (note_subagent (L @ [child]) i depth, length L))"

section \<open>What is exhausted\<close>

definition elapsed_s :: "BudgetMeter \<Rightarrow> rat \<Rightarrow> rat" where
  "elapsed_s m now = max 0 (now - started_at m)"

definition estimated_cost :: "BudgetMeter \<Rightarrow> rat option" where
  "estimated_cost m =
     (if unpriced_model_usage m then None
      else if input_price_per_mtok (limits m) = None \<and> output_price_per_mtok (limits m) = None
      then None
      else Some
        ((case input_price_per_mtok (limits m) of
            Some p \<Rightarrow> (of_int (input_tokens m) / 1000000) * p | None \<Rightarrow> 0) +
         (case output_price_per_mtok (limits m) of
            Some p \<Rightarrow> (of_int (output_tokens m) / 1000000) * p | None \<Rightarrow> 0)))"

definition reached :: "int option \<Rightarrow> int \<Rightarrow> bool" where
  "reached lims used = (case lims of Some n \<Rightarrow> used \<ge> n | None \<Rightarrow> False)"

definition exhausted_hits :: "BudgetMeter \<Rightarrow> rat \<Rightarrow> dimension list" where
  "exhausted_hits m now =
     (if reached (lim_model_calls (limits m)) (own_model_calls m) then [MODEL_CALLS] else []) @
     (if reached (lim_tool_calls (limits m)) (own_tool_calls m) then [TOOL_CALLS] else []) @
     (if reached (lim_network_calls (limits m)) (network_calls m) then [NETWORK_CALLS] else []) @
     (if reached (lim_subagent_calls (limits m)) (subagent_calls m) then [SUBAGENTS] else []) @
     (if reached (lim_recursion_depth (limits m)) (max_recursion_depth m)
      then [RECURSION_DEPTH] else []) @
     (case (lim_cost (limits m), estimated_cost m) of
        (Some c, Some cost) \<Rightarrow> if cost > c then [COST] else []
      | _ \<Rightarrow> []) @
     (case lim_wall_time_s (limits m) of
        Some t \<Rightarrow> if elapsed_s m now > t then [WALL_TIME] else []
      | None \<Rightarrow> [])"

definition exhausted :: "BudgetMeter \<Rightarrow> rat \<Rightarrow> dimension list" where
  "exhausted m now = filter (\<lambda>d. d \<in> set (exhausted_hits m now)) PRIORITY"

definition first_exhausted :: "BudgetMeter \<Rightarrow> rat \<Rightarrow> dimension list \<Rightarrow> dimension option" where
  "first_exhausted m now ignore =
     (case filter (\<lambda>d. d \<notin> set ignore) (exhausted m now) of [] \<Rightarrow> None | d # _ \<Rightarrow> Some d)"

section \<open>Gates along the chain\<close>

text \<open>The loop of \<open>reserve_model_call\<close>, started at \<open>self\<close> with \<open>own = True\<close>: does some
  meter of the chain stop the call?\<close>

function reserve_blocked :: "ledger \<Rightarrow> bool \<Rightarrow> bool \<Rightarrow> rat \<Rightarrow> nat \<Rightarrow> bool" where
  "reserve_blocked L model_only own now i =
     (if (if model_only
          then own \<and> reached (lim_model_calls (limits (L ! i))) (own_model_calls (L ! i))
          else first_exhausted (L ! i) now (if own then [] else [MODEL_CALLS, TOOL_CALLS]) \<noteq> None)
      then True
      else (case parent_of L i of
              None \<Rightarrow> False
            | Some p \<Rightarrow> reserve_blocked L model_only False now p))"
  by pat_completeness auto
termination
  by (relation "measure (\<lambda>(L, mo, ow, now, i). i)")
     (auto simp: parent_of_def split: option.splits if_splits)

datatype budget_error = BudgetExhausted

definition reserve_model_call ::
  "ledger \<Rightarrow> nat \<Rightarrow> bool \<Rightarrow> rat \<Rightarrow> budget_error + ledger" where
  "reserve_model_call L i model_only now =
     (if reserve_blocked L model_only True now i then Inl BudgetExhausted
      else Inr (note_model_call L i False))"

function allows_tool_from :: "ledger \<Rightarrow> bool \<Rightarrow> bool \<Rightarrow> nat \<Rightarrow> bool" where
  "allows_tool_from L network own i =
     (if own \<and> reached (lim_tool_calls (limits (L ! i))) (own_tool_calls (L ! i)) then False
      else if network \<and> reached (lim_network_calls (limits (L ! i))) (network_calls (L ! i))
      then False
      else (case parent_of L i of
              None \<Rightarrow> True
            | Some p \<Rightarrow> allows_tool_from L network False p))"
  by pat_completeness auto
termination
  by (relation "measure (\<lambda>(L, n, ow, i). i)")
     (auto simp: parent_of_def split: option.splits if_splits)

definition allows_tool :: "ledger \<Rightarrow> nat \<Rightarrow> string \<Rightarrow> bool option \<Rightarrow> bool" where
  "allows_tool L i name flag = allows_tool_from L (resolve_network (L ! i) name flag) True i"

text \<open>The loop of \<open>first_exhausted_in_chain\<close> above \<open>self\<close>.\<close>

function ancestors_exhausted :: "ledger \<Rightarrow> rat \<Rightarrow> dimension list \<Rightarrow> nat \<Rightarrow> dimension option" where
  "ancestors_exhausted L now ignore i =
     (case parent_of L i of
        None \<Rightarrow> None
      | Some p \<Rightarrow>
          (case first_exhausted (L ! p) now
                  (ignore @ [SUBAGENTS, RECURSION_DEPTH, MODEL_CALLS, TOOL_CALLS]) of
             Some d \<Rightarrow> Some d
           | None \<Rightarrow> ancestors_exhausted L now ignore p))"
  by pat_completeness auto
termination
  by (relation "measure (\<lambda>(L, now, ig, i). i)")
     (auto simp: parent_of_def split: option.splits if_splits)

definition first_exhausted_in_chain ::
  "ledger \<Rightarrow> nat \<Rightarrow> rat \<Rightarrow> dimension list \<Rightarrow> dimension option" where
  "first_exhausted_in_chain L i now ignore =
     (case first_exhausted (L ! i) now ignore of
        Some d \<Rightarrow> Some d
      | None \<Rightarrow> ancestors_exhausted L now ignore i)"

text \<open>\<open>EmergencyCircuitBreaker.before_model_call\<close>: what stops the next model call, if anything.\<close>

definition before_model_call :: "ledger \<Rightarrow> nat \<Rightarrow> rat \<Rightarrow> dimension option" where
  "before_model_call L i now = first_exhausted_in_chain L i now [TOOL_CALLS, NETWORK_CALLS]"

declare note_model_call.simps [simp del] note_tool_call.simps [simp del]
  note_usage_some.simps [simp del] note_subagent.simps [simp del]
  reserve_blocked.simps [simp del] allows_tool_from.simps [simp del]
  ancestors_exhausted.simps [simp del]


section \<open>Operations on one ledger\<close>

text \<open>
  The calls an agent turn makes on the ledger, in the order the loop makes them: a model call
  is reserved first, a tool call runs only when the gate allows it and is then noted, usage is
  noted after the call, a subagent is spawned with limits of its own. A call whose reference
  names no meter does not occur in the program and changes nothing here.
\<close>

datatype ledger_op =
    ReserveCall nat bool rat
  | GatedTool nat string "bool option"
  | NoteUsage nat "Usage option"
  | Spawn nat "TurnBudgetLimits option" int rat

fun ledger_step :: "ledger_op \<Rightarrow> ledger \<Rightarrow> ledger" where
  "ledger_step (ReserveCall i model_only now) L =
     (if i < length L
      then (case reserve_model_call L i model_only now of Inl _ \<Rightarrow> L | Inr L' \<Rightarrow> L') else L)"
| "ledger_step (GatedTool i name flag) L =
     (if i < length L \<and> allows_tool L i name flag
      then note_tool_call L i name flag False else L)"
| "ledger_step (NoteUsage i usage) L = (if i < length L then note_usage L i usage else L)"
| "ledger_step (Spawn i lims depth now) L =
     (if i < length L then fst (spawn_child L i lims depth now) else L)"

text \<open>A turn starts with one root meter.\<close>

definition root_ledger :: "TurnBudgetLimits \<Rightarrow> rat \<Rightarrow> ledger" where
  "root_ledger lims now = [new_meter lims None None now]"

section \<open>Walks along the chain\<close>

lemma parent_of_less: "parent_of L i = Some p \<Longrightarrow> p < i"
  by (auto simp: parent_of_def split: option.splits if_splits)

lemma parent_of_ok: "ledger_ok L \<Longrightarrow> i < length L \<Longrightarrow> parent_of L i = parent (L ! i)"
  by (auto simp: parent_of_def ledger_ok_def split: option.splits)

lemma parent_of_cong:
  "parent (L' ! i) = parent (L ! i) \<Longrightarrow> parent_of L' i = parent_of L i"
  by (simp add: parent_of_def)

lemma chain_self [simp]: "i \<in> set (chain L i)"
  by (subst chain.simps) simp

lemma chain_not_Nil [simp]: "chain L i \<noteq> []"
  by (subst chain.simps) simp

lemma chain_le: "j \<in> set (chain L i) \<Longrightarrow> j \<le> i"
proof (induction L i rule: chain.induct)
  case (1 L i)
  show ?case
  proof (cases "parent_of L i")
    case None
    with "1.prems" show ?thesis by (simp add: chain.simps [of L i])
  next
    case (Some p)
    with "1" have "j = i \<or> j \<le> p" by (auto simp: chain.simps [of L i])
    with parent_of_less [OF Some] show ?thesis by auto
  qed
qed

lemma chain_cong:
  assumes "\<And>j. j \<le> i \<Longrightarrow> parent (L' ! j) = parent (L ! j)"
  shows "chain L' i = chain L i"
  using assms
proof (induction L i rule: chain.induct)
  case (1 L i)
  have pe: "parent_of L' i = parent_of L i"
    using "1.prems" by (intro parent_of_cong) simp
  show ?case
  proof (cases "parent_of L i")
    case None
    with pe show ?thesis by (simp add: chain.simps [of L i] chain.simps [of L' i])
  next
    case (Some p)
    from parent_of_less [OF Some] have "chain L' p = chain L p"
      using "1.prems" by (intro "1.IH" [OF Some]) auto
    with Some pe show ?thesis by (simp add: chain.simps [of L i] chain.simps [of L' i])
  qed
qed

lemma chain_above: "parent_of L i = Some p \<Longrightarrow> set (chain L i) = insert i (set (chain L p))"
  by (subst chain.simps) simp

lemma chain_root: "parent_of L i = None \<Longrightarrow> set (chain L i) = {i}"
  by (subst chain.simps) simp

text \<open>
  The contract the four recording operations share: change the meter itself, then forward to
  the parent with an argument derived from this call. Everything the proofs need about a
  recording operation follows from it.
\<close>

locale forwarding =
  fixes note_op :: "ledger \<Rightarrow> nat \<Rightarrow> 'x \<Rightarrow> ledger"
    and bump :: "'x \<Rightarrow> BudgetMeter \<Rightarrow> BudgetMeter"
    and fwd :: "BudgetMeter \<Rightarrow> 'x \<Rightarrow> 'x"
  assumes note_op_unfold: "note_op L i x =
      (let L1 = L[i := bump x (L ! i)] in
       case parent_of L i of None \<Rightarrow> L1 | Some p \<Rightarrow> note_op L1 p (fwd (L ! i) x))"
    and bump_parent [simp]: "parent (bump x m) = parent m"
begin

lemma length_note [simp]: "length (note_op L i x) = length L"
proof (induction i arbitrary: L x rule: less_induct)
  case (less i)
  show ?case
    using less parent_of_less
    by (subst note_op_unfold) (auto simp: Let_def split: option.split)
qed

lemma parent_bump_upd: "parent (L[i := bump x (L ! i)] ! j) = parent (L ! j)"
  by (cases "i = j"; cases "i < length L") (auto simp: list_update_beyond)

lemma note_outside:
  "j \<notin> set (chain L i) \<Longrightarrow> note_op L i x ! j = L ! j"
proof (induction i arbitrary: L x rule: less_induct)
  case (less i)
  let ?L1 = "L[i := bump x (L ! i)]"
  from less.prems have ij: "j \<noteq> i" by auto
  show ?case
  proof (cases "parent_of L i")
    case None
    with ij show ?thesis by (subst note_op_unfold) simp
  next
    case (Some p)
    have "chain ?L1 p = chain L p" by (rule chain_cong) (rule parent_bump_upd)
    with less.prems Some have "j \<notin> set (chain ?L1 p)" by (simp add: chain_above)
    with less.IH [OF parent_of_less [OF Some]] Some ij show ?thesis
      by (subst note_op_unfold) (simp add: Let_def)
  qed
qed

lemma note_self: "i < length L \<Longrightarrow> note_op L i x ! i = bump x (L ! i)"
proof (cases "parent_of L i")
  case None
  assume "i < length L"
  with None show ?thesis by (subst note_op_unfold) simp
next
  case (Some p)
  assume i: "i < length L"
  from parent_of_less [OF Some] have "i \<notin> set (chain (L[i := bump x (L ! i)]) p)"
    by (auto dest: chain_le)
  then have "note_op (L[i := bump x (L ! i)]) p (fwd (L ! i) x) ! i = L[i := bump x (L ! i)] ! i"
    by (rule note_outside)
  with Some i show ?thesis by (subst note_op_unfold) (simp add: Let_def)
qed

lemma note_above:
  "parent_of L i = Some p \<Longrightarrow>
     note_op L i x = note_op (L[i := bump x (L ! i)]) p (fwd (L ! i) x)"
  by (subst note_op_unfold) (simp add: Let_def)

text \<open>A field every forwarded change moves by the same amount moves by it on the whole chain.\<close>

lemma note_field:
  fixes f :: "BudgetMeter \<Rightarrow> 'v::ab_group_add"
  assumes bump: "\<And>y m. Q y \<Longrightarrow> f (bump y m) = f m + d"
    and fwd: "\<And>y m. Q y \<Longrightarrow> Q (fwd m y)"
    and "Q x" and "j < length L" and "i < length L"
  shows "f (note_op L i x ! j) = f (L ! j) + (if j \<in> set (chain L i) then d else 0)"
  using assms(3-5)
proof (induction i arbitrary: L x rule: less_induct)
  case (less i)
  let ?L1 = "L[i := bump x (L ! i)]"
  show ?case
  proof (cases "parent_of L i")
    case None
    with less.prems bump [OF less.prems(1)] show ?thesis
      by (subst note_op_unfold) (auto simp: chain_root nth_list_update)
  next
    case (Some p)
    have pi: "p < i" by (rule parent_of_less [OF Some])
    have ch: "chain ?L1 p = chain L p" by (rule chain_cong) (rule parent_bump_upd)
    have ni: "i \<notin> set (chain L p)" using pi by (auto dest: chain_le)
    have "f (note_op L i x ! j) = f (?L1 ! j) + (if j \<in> set (chain L p) then d else 0)"
      using less.IH [OF pi fwd [OF less.prems(1)], of ?L1] less.prems pi
      by (simp add: note_above [OF Some] ch)
    with bump [OF less.prems(1)] less.prems ni show ?thesis
      by (cases "j = i") (auto simp: chain_above [OF Some])
  qed
qed

text \<open>Strictly above the meter itself the change is a forwarded one.\<close>

lemma note_field_above:
  fixes f :: "BudgetMeter \<Rightarrow> 'v::ab_group_add"
  assumes bump: "\<And>y m. Q y \<Longrightarrow> f (bump y m) = f m + d"
    and fwd: "\<And>y m. Q y \<Longrightarrow> Q (fwd m y)"
    and Q: "Q (fwd (L ! i) x)" and ji: "j \<noteq> i" and j: "j < length L" and i: "i < length L"
  shows "f (note_op L i x ! j) = f (L ! j) + (if j \<in> set (chain L i) then d else 0)"
proof (cases "parent_of L i")
  case None
  with ji show ?thesis by (subst note_op_unfold) (simp add: chain_root)
next
  case (Some p)
  let ?L1 = "L[i := bump x (L ! i)]"
  have ch: "chain ?L1 p = chain L p" by (rule chain_cong) (rule parent_bump_upd)
  have "f (note_op ?L1 p (fwd (L ! i) x) ! j)
      = f (?L1 ! j) + (if j \<in> set (chain ?L1 p) then d else 0)"
    using parent_of_less [OF Some] j i by (intro note_field [where Q = Q]) (auto intro: bump fwd Q)
  with ji show ?thesis by (simp add: note_above [OF Some] ch chain_above [OF Some])
qed

text \<open>A field no change touches keeps its value everywhere.\<close>

lemma note_keeps:
  assumes "\<And>y m. f (bump y m) = f m"
  shows "f (note_op L i x ! j) = f (L ! j)"
proof (induction i arbitrary: L x rule: less_induct)
  case (less i)
  have upd: "f (L[i := bump x (L ! i)] ! j) = f (L ! j)"
    using assms by (cases "i = j"; cases "i < length L") (auto simp: list_update_beyond)
  show ?case
    using upd less.IH parent_of_less
    by (subst note_op_unfold) (auto simp: Let_def split: option.split)
qed

lemma chain_note [simp]: "chain (note_op L i x) j = chain L j"
  by (rule chain_cong) (rule note_keeps, simp)

lemma ledger_ok_note [simp]: "ledger_ok (note_op L i x) = ledger_ok L"
  using note_keeps [of parent L i x] by (simp add: ledger_ok_def)

end

interpretation model_note: forwarding note_model_call bump_model "\<lambda>_ _. True"
  by unfold_locales (subst note_model_call.simps, simp_all add: bump_model_def)

lemma parent_bump_tool [simp]: "parent (bump_tool network forwarded m) = parent m"
  by (simp add: bump_tool_def)

interpretation tool_note: forwarding
  "\<lambda>L i (name, flag, forwarded). note_tool_call L i name flag forwarded"
  "\<lambda>(name, flag, forwarded) m. bump_tool (resolve_network m name flag) forwarded m"
  "\<lambda>m (name, flag, forwarded). (name, Some (resolve_network m name flag), True)"
proof (unfold_locales, goal_cases)
  case (1 L i x)
  then show ?case
    by (cases x) (simp add: Let_def note_tool_call.simps [of L i] split: option.split)
next
  case (2 x m)
  then show ?case by (cases x) simp
qed

interpretation usage_note: forwarding note_usage_some bump_usage "\<lambda>_ u. u"
  by unfold_locales (subst note_usage_some.simps,
      simp_all add: bump_usage_def Let_def split: option.splits)

interpretation subagent_note: forwarding note_subagent bump_subagent "\<lambda>_ d. d + 1"
  by unfold_locales (subst note_subagent.simps, simp_all add: bump_subagent_def)


section \<open>What the recording operations change\<close>

lemma bump_frames [simp]:
  "limits (bump_model f m) = limits m"
  "limits (bump_tool n f m) = limits m"
  "limits (bump_usage u m) = limits m"
  "limits (bump_subagent d m) = limits m"
  "own_model_calls (bump_tool n f m) = own_model_calls m"
  "own_model_calls (bump_usage u m) = own_model_calls m"
  "own_model_calls (bump_subagent d m) = own_model_calls m"
  "own_tool_calls (bump_model f m) = own_tool_calls m"
  "own_tool_calls (bump_usage u m) = own_tool_calls m"
  "own_tool_calls (bump_subagent d m) = own_tool_calls m"
  "model_calls (bump_tool n f m) = model_calls m"
  "model_calls (bump_usage u m) = model_calls m"
  "model_calls (bump_subagent d m) = model_calls m"
  "tool_calls (bump_model f m) = tool_calls m"
  "tool_calls (bump_usage u m) = tool_calls m"
  "tool_calls (bump_subagent d m) = tool_calls m"
  "network_calls (bump_model f m) = network_calls m"
  "network_calls (bump_usage u m) = network_calls m"
  "network_calls (bump_subagent d m) = network_calls m"
  by (simp_all add: bump_model_def bump_tool_def bump_usage_def bump_subagent_def Let_def
        split: option.split)

text \<open>A model call counts once on the caller and on every turn above it; the own count moves
  on the caller only.\<close>

lemma note_model_call_totals:
  assumes "i < length L" and "j < length L"
  shows "model_calls (note_model_call L i f ! j) =
           model_calls (L ! j) + (if j \<in> set (chain L i) then 1 else 0)"
  using assms
  by (intro model_note.note_field [where Q = "\<lambda>_. True"]) (auto simp: bump_model_def)

lemma note_model_call_own:
  assumes "i < length L" and "j < length L"
  shows "own_model_calls (note_model_call L i False ! j) =
           own_model_calls (L ! j) + (if j = i then 1 else 0)"
proof (cases "j = i")
  case True
  with assms show ?thesis by (simp add: model_note.note_self) (simp add: bump_model_def)
next
  case False
  with assms
    model_note.note_field_above [where Q = "\<lambda>y. y" and f = own_model_calls and d = 0 and x = False]
  show ?thesis by (simp add: bump_model_def)
qed

lemma note_tool_call_totals:
  assumes "i < length L" and "j < length L"
  shows "tool_calls (note_tool_call L i name flag f ! j) =
           tool_calls (L ! j) + (if j \<in> set (chain L i) then 1 else 0)"
  using assms tool_note.note_field
    [where Q = "\<lambda>_. True" and f = tool_calls and d = 1 and x = "(name, flag, f)"]
  by (simp add: bump_tool_def split: prod.splits)

lemma note_tool_call_own:
  assumes "i < length L" and "j < length L"
  shows "own_tool_calls (note_tool_call L i name flag False ! j) =
           own_tool_calls (L ! j) + (if j = i then 1 else 0)"
proof (cases "j = i")
  case True
  with assms tool_note.note_self [of i L "(name, flag, False)"]
  show ?thesis by (simp add: bump_tool_def)
next
  case False
  with assms tool_note.note_field_above
    [where Q = "\<lambda>(_, _, b). b" and f = own_tool_calls and d = 0 and x = "(name, flag, False)"]
  show ?thesis by (simp add: bump_tool_def split: prod.splits)
qed

lemma note_tool_call_keeps:
  assumes "\<And>n b m. g (bump_tool n b m) = g m"
  shows "g (note_tool_call L i name flag f ! j) = g (L ! j)"
  using tool_note.note_keeps [of g L i "(name, flag, f)" j] assms by (simp split: prod.splits)

lemma note_tool_call_resolved:
  "note_tool_call L i name flag f =
     note_tool_call L i name (Some (resolve_network (L ! i) name flag)) f"
  by (simp add: note_tool_call.simps [of L i name] resolve_network_def)

lemma note_tool_call_network:
  assumes "i < length L" and "j < length L"
  shows "network_calls (note_tool_call L i name flag f ! j) = network_calls (L ! j) +
           (if resolve_network (L ! i) name flag \<and> j \<in> set (chain L i) then 1 else 0)"
proof -
  have key: "network_calls (note_tool_call L i name (Some b) f ! j) = network_calls (L ! j) +
      (if j \<in> set (chain L i) then (if b then 1 else 0) else 0)" for b
  proof -
    have "network_calls ((case (name, Some b, f) of (name, flag, forwarded) \<Rightarrow>
            note_tool_call L i name flag forwarded) ! j) = network_calls (L ! j) +
            (if j \<in> set (chain L i) then (if b then 1 else 0) else 0)"
      using assms
      by (intro tool_note.note_field [where Q = "\<lambda>(_, flag, _). flag = Some b"])
         (auto simp: bump_tool_def resolve_network_def split: prod.splits)
    then show ?thesis by simp
  qed
  show ?thesis by (subst note_tool_call_resolved) (simp add: key)
qed

section \<open>The ledger invariant: totals are the sums of the subtree's own calls\<close>

definition subtree :: "ledger \<Rightarrow> nat \<Rightarrow> nat set" where
  "subtree L i = {j. j < length L \<and> i \<in> set (chain L j)}"

definition sums_up :: "(BudgetMeter \<Rightarrow> int) \<Rightarrow> (BudgetMeter \<Rightarrow> int) \<Rightarrow> ledger \<Rightarrow> bool" where
  "sums_up summed own L = (\<forall>i < length L. summed (L ! i) = (\<Sum>j \<in> subtree L i. own (L ! j)))"

definition ledger_inv :: "ledger \<Rightarrow> bool" where
  "ledger_inv L = (ledger_ok L \<and> sums_up model_calls own_model_calls L \<and>
                   sums_up tool_calls own_tool_calls L)"

lemma finite_subtree [simp]: "finite (subtree L i)"
  by (simp add: subtree_def)

lemma sums_up_cong:
  assumes "sums_up summed own L" and "length L' = length L" and "\<And>j. chain L' j = chain L j"
    and "\<And>j. summed (L' ! j) = summed (L ! j)" and "\<And>j. own (L' ! j) = own (L ! j)"
  shows "sums_up summed own L'"
  using assms by (simp add: sums_up_def subtree_def)

lemma sums_up_note:
  assumes sums: "sums_up summed own L" and i: "i < length L"
    and len: "length L' = length L" and ch: "\<And>j. chain L' j = chain L j"
    and tot: "\<And>j. j < length L \<Longrightarrow>
               summed (L' ! j) = summed (L ! j) + (if j \<in> set (chain L i) then 1 else 0)"
    and own: "\<And>j. j < length L \<Longrightarrow> own (L' ! j) = own (L ! j) + (if j = i then 1 else 0)"
  shows "sums_up summed own L'"
  unfolding sums_up_def
proof (intro allI impI)
  fix k
  assume "k < length L'"
  then have k: "k < length L" by (simp add: len)
  have sub: "subtree L' k = subtree L k" by (simp add: subtree_def len ch)
  have "(\<Sum>j \<in> subtree L k. own (L' ! j))
      = (\<Sum>j \<in> subtree L k. own (L ! j) + (if j = i then 1 else 0))"
    by (rule sum.cong) (auto simp: subtree_def own)
  also have "\<dots> = (\<Sum>j \<in> subtree L k. own (L ! j)) + (if i \<in> subtree L k then 1 else 0)"
    by (simp add: sum.distrib)
  also have "\<dots> = summed (L' ! k)"
    using sums i k by (simp add: sums_up_def tot subtree_def)
  finally show "summed (L' ! k) = (\<Sum>j \<in> subtree L' k. own (L' ! j))"
    by (simp add: sub)
qed

lemma ledger_ok_snoc:
  "ledger_ok L \<Longrightarrow> parent m = Some i \<Longrightarrow> i < length L \<Longrightarrow> ledger_ok (L @ [m])"
  by (auto simp: ledger_ok_def nth_append less_Suc_eq)

lemma chain_snoc: "j < length L \<Longrightarrow> chain (L @ [m]) j = chain L j"
  by (rule chain_cong) (simp add: nth_append)

lemma sums_up_snoc:
  assumes sums: "sums_up summed own L" and m: "summed m = 0" "own m = 0"
  shows "sums_up summed own (L @ [m])"
  unfolding sums_up_def
proof (intro allI impI)
  fix k
  assume k: "k < length (L @ [m])"
  have *: "(\<Sum>j \<in> subtree (L @ [m]) k. own ((L @ [m]) ! j))
      = (\<Sum>j \<in> (if k < length L then subtree L k else {}). own (L ! j))"
  proof (rule sum.mono_neutral_cong_right)
    show "finite (subtree (L @ [m]) k)" by simp
    show "(if k < length L then subtree L k else {}) \<subseteq> subtree (L @ [m]) k"
      by (auto simp: subtree_def chain_snoc)
    show "\<forall>j \<in> subtree (L @ [m]) k - (if k < length L then subtree L k else {}).
            own ((L @ [m]) ! j) = 0"
    proof
      fix j
      assume j: "j \<in> subtree (L @ [m]) k - (if k < length L then subtree L k else {})"
      show "own ((L @ [m]) ! j) = 0"
      proof (cases "j < length L")
        case True
        with j have "k \<in> set (chain L j)" by (auto simp: subtree_def chain_snoc)
        then have "k < length L" using True chain_le by fastforce
        with j True show ?thesis by (auto simp: subtree_def chain_snoc)
      next
        case False
        with j have "j = length L" by (auto simp: subtree_def)
        with m show ?thesis by simp
      qed
    qed
  qed (auto simp: subtree_def nth_append split: if_splits)
  from k consider "k < length L" | "k = length L" by (auto simp: less_Suc_eq)
  then show "summed ((L @ [m]) ! k) = (\<Sum>j \<in> subtree (L @ [m]) k. own ((L @ [m]) ! j))"
    by cases (use sums m * in \<open>auto simp: sums_up_def nth_append\<close>)
qed

lemma ledger_inv_cong:
  assumes "ledger_inv L" and "length L' = length L" and "\<And>j. chain L' j = chain L j"
    and "ledger_ok L' = ledger_ok L"
    and "\<And>j. model_calls (L' ! j) = model_calls (L ! j)"
    and "\<And>j. own_model_calls (L' ! j) = own_model_calls (L ! j)"
    and "\<And>j. tool_calls (L' ! j) = tool_calls (L ! j)"
    and "\<And>j. own_tool_calls (L' ! j) = own_tool_calls (L ! j)"
  shows "ledger_inv L'"
  using assms by (simp add: ledger_inv_def sums_up_def subtree_def)

lemma ledger_inv_model:
  assumes inv: "ledger_inv L" and i: "i < length L"
  shows "ledger_inv (note_model_call L i False)"
proof -
  have "sums_up model_calls own_model_calls (note_model_call L i False)"
    by (rule sums_up_note [where L = L and i = i])
      (use inv i in \<open>simp_all add: ledger_inv_def note_model_call_totals note_model_call_own\<close>)
  moreover have "sums_up tool_calls own_tool_calls (note_model_call L i False)"
    by (rule sums_up_cong [where L = L])
      (use inv in \<open>simp_all add: ledger_inv_def model_note.note_keeps [of tool_calls]
         model_note.note_keeps [of own_tool_calls]\<close>)
  ultimately show ?thesis using inv by (simp add: ledger_inv_def)
qed

lemma ledger_inv_tool:
  assumes inv: "ledger_inv L" and i: "i < length L"
  shows "ledger_inv (note_tool_call L i name flag False)"
proof -
  let ?x = "(name, flag, False)"
  note frame = tool_note.length_note [of L i ?x, simplified]
    tool_note.chain_note [of L i ?x, simplified] tool_note.ledger_ok_note [of L i ?x, simplified]
    note_tool_call_keeps [of model_calls] note_tool_call_keeps [of own_model_calls]
  have "sums_up tool_calls own_tool_calls (note_tool_call L i name flag False)"
    by (rule sums_up_note [where L = L and i = i])
      (use inv i in \<open>simp_all add: ledger_inv_def note_tool_call_totals note_tool_call_own frame\<close>)
  moreover have "sums_up model_calls own_model_calls (note_tool_call L i name flag False)"
    by (rule sums_up_cong [where L = L]) (use inv in \<open>simp_all add: ledger_inv_def frame\<close>)
  ultimately show ?thesis using inv by (simp add: ledger_inv_def frame)
qed

lemma ledger_inv_usage: "ledger_inv L \<Longrightarrow> ledger_inv (note_usage L i usage)"
proof (cases usage)
  case (Some u)
  assume "ledger_inv L"
  then have "ledger_inv (note_usage_some L i u)"
    by (rule ledger_inv_cong)
       (simp_all add: usage_note.note_keeps [of model_calls] usage_note.note_keeps [of tool_calls]
          usage_note.note_keeps [of own_model_calls] usage_note.note_keeps [of own_tool_calls])
  with Some show ?thesis by (simp add: note_usage_def)
qed (simp add: note_usage_def)

lemma ledger_inv_subagent: "ledger_inv L \<Longrightarrow> ledger_inv (note_subagent L i depth)"
  by (rule ledger_inv_cong)
     (simp_all add: subagent_note.note_keeps [of model_calls] subagent_note.note_keeps [of tool_calls]
        subagent_note.note_keeps [of own_model_calls] subagent_note.note_keeps [of own_tool_calls])

lemma ledger_inv_spawn:
  assumes "ledger_inv L" and "i < length L"
  shows "ledger_inv (fst (spawn_child L i lims depth now))"
proof -
  have "ledger_inv (L @ [new_meter l n (Some i) now])" for l n
    using assms
    by (auto simp: ledger_inv_def new_meter_def intro!: ledger_ok_snoc sums_up_snoc)
  then show ?thesis by (simp add: spawn_child_def Let_def ledger_inv_subagent)
qed

lemma ledger_inv_step: "ledger_inv L \<Longrightarrow> ledger_inv (ledger_step x L)"
  by (cases x)
     (auto simp: reserve_model_call_def ledger_inv_model ledger_inv_tool ledger_inv_usage
        ledger_inv_spawn)

interpretation ledger: invariant_steps ledger_step "\<lambda>_. True" ledger_inv
  by unfold_locales (rule ledger_inv_step)

lemma ledger_inv_root: "ledger_inv (root_ledger lims now)"
proof -
  have "parent_of (root_ledger lims now) 0 = None"
    by (simp add: parent_of_def root_ledger_def new_meter_def)
  then have "subtree (root_ledger lims now) 0 = {0}"
    by (auto simp: subtree_def chain_root root_ledger_def)
  then show ?thesis
    by (simp add: ledger_inv_def sums_up_def ledger_ok_def root_ledger_def new_meter_def)
qed


section \<open>Ceilings\<close>

definition under :: "int option \<Rightarrow> int \<Rightarrow> bool" where
  "under lims used = (case lims of Some n \<Rightarrow> used \<le> n | None \<Rightarrow> True)"

definition limits_ok :: "TurnBudgetLimits \<Rightarrow> bool" where
  "limits_ok l = (under (lim_model_calls l) 0 \<and> under (lim_tool_calls l) 0 \<and>
                  under (lim_network_calls l) 0)"

definition meter_within :: "BudgetMeter \<Rightarrow> bool" where
  "meter_within m = (limits_ok (limits m) \<and>
     under (lim_model_calls (limits m)) (own_model_calls m) \<and>
     under (lim_tool_calls (limits m)) (own_tool_calls m) \<and>
     under (lim_network_calls (limits m)) (network_calls m))"

definition ceilings_hold :: "ledger \<Rightarrow> bool" where
  "ceilings_hold L = (\<forall>i < length L. meter_within (L ! i))"

fun op_limits_ok :: "ledger_op \<Rightarrow> bool" where
  "op_limits_ok (Spawn i lims depth now) = (case lims of Some l \<Rightarrow> limits_ok l | None \<Rightarrow> True)"
| "op_limits_ok _ = True"

lemma under_next: "under lims used \<Longrightarrow> \<not> reached lims used \<Longrightarrow> under lims (used + 1)"
  by (auto simp: under_def reached_def split: option.splits)

text \<open>A reservation that passes found the caller's own model-call ceiling free.\<close>

lemma first_exhausted_None:
  "first_exhausted m now ignore = None \<longleftrightarrow> set (exhausted_hits m now) \<subseteq> set ignore"
proof -
  have all: "set PRIORITY = UNIV"
    by (auto simp: PRIORITY_def) (case_tac x, auto)
  have "first_exhausted m now ignore = None \<longleftrightarrow>
      filter (\<lambda>d. d \<notin> set ignore) (exhausted m now) = []"
    by (simp add: first_exhausted_def split: list.split)
  also have "\<dots> \<longleftrightarrow> (\<forall>d. d \<in> set (exhausted_hits m now) \<longrightarrow> d \<in> set ignore)"
    using all by (auto simp: exhausted_def filter_empty_conv)
  finally show ?thesis by auto
qed

lemma exhausted_hits_iff:
  "MODEL_CALLS \<in> set (exhausted_hits m now) \<longleftrightarrow> reached (lim_model_calls (limits m)) (own_model_calls m)"
  "SUBAGENTS \<in> set (exhausted_hits m now) \<longleftrightarrow> reached (lim_subagent_calls (limits m)) (subagent_calls m)"
  "RECURSION_DEPTH \<in> set (exhausted_hits m now) \<longleftrightarrow>
     reached (lim_recursion_depth (limits m)) (max_recursion_depth m)"
  by (auto simp: exhausted_hits_def split: option.splits if_splits)

lemma reserve_blocked_own:
  assumes "\<not> reserve_blocked L model_only True now i"
  shows "\<not> reached (lim_model_calls (limits (L ! i))) (own_model_calls (L ! i))"
  using assms exhausted_hits_iff(1) [of "L ! i" now]
  by (subst (asm) reserve_blocked.simps)
     (auto simp: first_exhausted_None split: if_splits option.splits)

lemma allows_tool_from_chain:
  assumes "allows_tool_from L True own i" and "j \<in> set (chain L i)"
  shows "\<not> reached (lim_network_calls (limits (L ! j))) (network_calls (L ! j))"
  using assms
proof (induction L True own i rule: allows_tool_from.induct)
  case (1 L own i)
  show ?case
  proof (cases "parent_of L i")
    case None
    with "1.prems" show ?thesis
      by (subst (asm) allows_tool_from.simps) (auto simp: chain_root split: if_splits)
  next
    case (Some p)
    with "1" show ?thesis
      by (auto simp: chain_above allows_tool_from.simps [of L True own i] split: if_splits)
  qed
qed

lemma allows_tool_own:
  "allows_tool_from L network True i \<Longrightarrow>
     \<not> reached (lim_tool_calls (limits (L ! i))) (own_tool_calls (L ! i))"
  by (subst (asm) allows_tool_from.simps) (auto split: if_splits)

lemma ceilings_model:
  assumes "ceilings_hold L" and "i < length L" and "\<not> reserve_blocked L model_only True now i"
  shows "ceilings_hold (note_model_call L i False)"
proof -
  note frame = model_note.note_keeps [of limits] model_note.note_keeps [of own_tool_calls]
    model_note.note_keeps [of network_calls]
  show ?thesis
    using assms reserve_blocked_own [OF assms(3)]
    by (auto simp: ceilings_hold_def meter_within_def frame note_model_call_own under_next)
qed

lemma ceilings_tool:
  assumes L: "ceilings_hold L" and i: "i < length L" and gate: "allows_tool L i name flag"
  shows "ceilings_hold (note_tool_call L i name flag False)"
proof -
  note frame = note_tool_call_keeps [of limits] note_tool_call_keeps [of own_model_calls]
    tool_note.length_note [of L i "(name, flag, False)", simplified]
  from gate have own: "\<not> reached (lim_tool_calls (limits (L ! i))) (own_tool_calls (L ! i))"
    unfolding allows_tool_def by (rule allows_tool_own)
  have net: "\<not> reached (lim_network_calls (limits (L ! j))) (network_calls (L ! j))"
    if "resolve_network (L ! i) name flag" and "j \<in> set (chain L i)" for j
    using gate that by (auto simp: allows_tool_def dest: allows_tool_from_chain)
  show ?thesis
    using L i own net
    by (auto simp: ceilings_hold_def meter_within_def frame note_tool_call_own
          note_tool_call_network under_next)
qed

lemma ceilings_usage: "ceilings_hold L \<Longrightarrow> ceilings_hold (note_usage L i usage)"
  by (cases usage)
     (simp_all add: note_usage_def ceilings_hold_def meter_within_def
        usage_note.note_keeps [of limits] usage_note.note_keeps [of own_model_calls]
        usage_note.note_keeps [of own_tool_calls] usage_note.note_keeps [of network_calls])

lemma ceilings_subagent: "ceilings_hold (note_subagent L i depth) = ceilings_hold L"
  by (simp add: ceilings_hold_def meter_within_def
        subagent_note.note_keeps [of limits] subagent_note.note_keeps [of own_model_calls]
        subagent_note.note_keeps [of own_tool_calls] subagent_note.note_keeps [of network_calls])

lemma ceilings_spawn:
  assumes "ceilings_hold L" and "i < length L" and "op_limits_ok (Spawn i lims depth now)"
  shows "ceilings_hold (fst (spawn_child L i lims depth now))"
proof -
  have "limits_ok (case lims of Some l \<Rightarrow> l | None \<Rightarrow> limits (L ! i))"
    using assms by (auto simp: ceilings_hold_def meter_within_def split: option.splits)
  then have "ceilings_hold (L @ [new_meter (case lims of Some l \<Rightarrow> l | None \<Rightarrow> limits (L ! i))
      (is_network (L ! i)) (Some i) now])"
    using assms(1)
    by (auto simp: ceilings_hold_def meter_within_def nth_append less_Suc_eq new_meter_def limits_ok_def)
  then show ?thesis by (simp add: spawn_child_def Let_def ceilings_subagent)
qed

interpretation ledger_ceilings: invariant_steps ledger_step op_limits_ok ceilings_hold
proof (unfold_locales, goal_cases)
  case (1 L x)
  then show ?case
    by (cases x) (auto simp: reserve_model_call_def
        intro: ceilings_model ceilings_tool ceilings_usage ceilings_spawn)
qed


section \<open>The breaker and the reservation\<close>

lemma first_exhausted_Some:
  "first_exhausted m now ignore = Some d \<Longrightarrow> d \<in> set (exhausted_hits m now) \<and> d \<notin> set ignore"
proof -
  assume "first_exhausted m now ignore = Some d"
  then obtain ds where "filter (\<lambda>d. d \<notin> set ignore) (exhausted m now) = d # ds"
    by (auto simp: first_exhausted_def split: list.splits)
  then have "d \<in> set (filter (\<lambda>d. d \<notin> set ignore) (exhausted m now))" by simp
  then show ?thesis by (simp add: exhausted_def)
qed

lemma ancestors_exhausted_ignores:
  "ancestors_exhausted L now ignore i = Some d \<Longrightarrow>
     d \<notin> set ignore \<union> {SUBAGENTS, RECURSION_DEPTH, MODEL_CALLS, TOOL_CALLS}"
proof (induction L now ignore i rule: ancestors_exhausted.induct)
  case (1 L now ignore i)
  then show ?case
    by (auto simp: ancestors_exhausted.simps [of L now ignore i]
          dest: first_exhausted_Some split: option.splits)
qed

lemma unblocked_above:
  assumes "\<not> reserve_blocked L False False now p"
  shows "first_exhausted (L ! p) now (ignore @ [SUBAGENTS, RECURSION_DEPTH, MODEL_CALLS, TOOL_CALLS]) = None"
    and "parent_of L p = Some q \<Longrightarrow> \<not> reserve_blocked L False False now q"
  using assms
  by (auto simp: reserve_blocked.simps [of L False False now p] first_exhausted_None split: if_splits)

lemma unblocked_ancestors:
  "\<not> reserve_blocked L False own now i \<Longrightarrow> ancestors_exhausted L now ignore i = None"
proof (induction i arbitrary: own rule: less_induct)
  case (less i)
  show ?case
  proof (cases "parent_of L i")
    case None
    then show ?thesis by (subst ancestors_exhausted.simps) simp
  next
    case (Some p)
    with less.prems have p: "\<not> reserve_blocked L False False now p"
      by (auto simp: reserve_blocked.simps [of L False own now i] split: if_splits)
    from less.IH [OF parent_of_less [OF Some] p] unblocked_above(1) [OF p, of ignore] Some
    show ?thesis by (subst ancestors_exhausted.simps) simp
  qed
qed

lemma reserve_Inr_unblocked:
  "reserve_model_call L i model_only now = Inr L' \<Longrightarrow> \<not> reserve_blocked L model_only True now i"
  by (auto simp: reserve_model_call_def split: if_splits)

section \<open>Properties\<close>

text \<open>
  C19. Hierarchical ledger: whatever sequence of reservations, gated tool calls, usage notes and
  spawns a turn makes, the model calls and the tool calls a meter reports are exactly the sums
  of the own calls of the meters below it, itself included.
\<close>

theorem ledger_totals_sum_subtree:
  "sums_up model_calls own_model_calls (fold ledger_step xs (root_ledger lims now)) \<and>
   sums_up tool_calls own_tool_calls (fold ledger_step xs (root_ledger lims now))"
  using ledger.run_inv [OF ledger_inv_root, of xs lims now] by (simp add: ledger_inv_def list_all_iff)



text \<open>
  C3. The strict reservation implies the breaker: when \<open>reserve_model_call\<close> (not \<open>model_only\<close>)
  lets a call through, the circuit breaker had nothing against it either, and exactly one call
  is counted on the caller and on each turn above it.
\<close>

theorem reserve_passes_breaker:
  assumes "reserve_model_call L i False now = Inr L'" and "i < length L" and "j < length L"
  shows "before_model_call L i now = None \<and>
         model_calls (L' ! j) = model_calls (L ! j) + (if j \<in> set (chain L i) then 1 else 0)"
proof
  have free: "\<not> reserve_blocked L False True now i"
    using assms(1) by (rule reserve_Inr_unblocked)
  then have "first_exhausted (L ! i) now [TOOL_CALLS, NETWORK_CALLS] = None"
    by (auto simp: reserve_blocked.simps [of L False True now i] first_exhausted_None split: if_splits)
  with unblocked_ancestors [OF free] show "before_model_call L i now = None"
    by (simp add: before_model_call_def first_exhausted_in_chain_def)
  have "L' = note_model_call L i False"
    using assms(1) free by (simp add: reserve_model_call_def)
  then show "model_calls (L' ! j) = model_calls (L ! j) + (if j \<in> set (chain L i) then 1 else 0)"
    using assms(2,3) by (simp add: note_model_call_totals)
qed

theorem reserve_passes_breaker_witness:
  "before_model_call (root_ledger default_limits 0) 0 0 = None"
proof -
  have "\<not> reserve_blocked (root_ledger default_limits 0) False True 0 0" by code_simp
  then have "reserve_model_call (root_ledger default_limits 0) 0 False 0 =
      Inr (note_model_call (root_ledger default_limits 0) 0 False)"
    by (simp add: reserve_model_call_def)
  from reserve_passes_breaker [OF this, of 0] show ?thesis by (simp add: root_ledger_def)
qed

text \<open>
  C4. The breaker isolates the call ceilings: if it stops a turn for model calls, for spawned
  subagents or for nesting depth, then it is the turn's own ceiling that was reached, never
  that of a turn above it, and it never stops a model call for tool or network exhaustion.
\<close>

theorem breaker_isolates_own_ceilings:
  assumes "before_model_call L i now = Some d"
  shows "d \<notin> {TOOL_CALLS, NETWORK_CALLS} \<and>
    (d = MODEL_CALLS \<longrightarrow> reached (lim_model_calls (limits (L ! i))) (own_model_calls (L ! i))) \<and>
    (d = SUBAGENTS \<longrightarrow> reached (lim_subagent_calls (limits (L ! i))) (subagent_calls (L ! i))) \<and>
    (d = RECURSION_DEPTH \<longrightarrow>
       reached (lim_recursion_depth (limits (L ! i))) (max_recursion_depth (L ! i)))"
proof (cases "first_exhausted (L ! i) now [TOOL_CALLS, NETWORK_CALLS]")
  case None
  with assms have "ancestors_exhausted L now [TOOL_CALLS, NETWORK_CALLS] i = Some d"
    by (simp add: before_model_call_def first_exhausted_in_chain_def)
  from ancestors_exhausted_ignores [OF this] show ?thesis by auto
next
  case (Some e)
  with assms have "e = d" by (simp add: before_model_call_def first_exhausted_in_chain_def)
  with first_exhausted_Some [OF Some] show ?thesis by (auto simp: exhausted_hits_iff)
qed

theorem breaker_isolates_witness:
  "reached (lim_model_calls default_limits) (own_model_calls
     ((new_meter default_limits None None 0)\<lparr>own_model_calls := 500\<rparr>))"
proof -
  let ?m = "(new_meter default_limits None None 0)\<lparr>own_model_calls := 500\<rparr>"
  have "before_model_call [?m] 0 0 = Some MODEL_CALLS" by code_simp
  from breaker_isolates_own_ceilings [OF this] show ?thesis
    by (simp add: new_meter_def)
qed

text \<open>
  C5. The strict reservation is stricter than the breaker: a coordinator that spawned the one
  subagent its limits allow blocks every strict reservation of that running subagent, although
  the breaker lets it continue and the \<open>model_only\<close> reservation passes.
\<close>

theorem spawn_ceiling_blocks_running_child:
  "let L = fst (spawn_child (root_ledger (default_limits\<lparr>lim_subagent_calls := Some 1\<rparr>) 0) 0
                  (Some default_limits) 1 0)
   in before_model_call L 1 0 = None \<and>
      isl (reserve_model_call L 1 False 0) \<and> \<not> isl (reserve_model_call L 1 True 0)"
  by code_simp

end
