(* ===== verification/Loop_Detector.thy ===== *)
theory Loop_Detector
  imports Rinari_Prelude
begin

text \<open>
  Loop detection, \<^verbatim>\<open>src/src/rinari/runtime/loopdetection.py\<close>: the per-turn \<open>LoopDetector\<close>
  that records tool calls, errors and subagent objectives, nudges the model on a first
  repetition and stops the turn on a second one.

  What the code takes from outside is an argument: \<open>canon\<close> is \<open>json.dumps(..., sort_keys=True,
  default=str)\<close>, \<open>digest\<close> is SHA-256 of the JSON text of its parts, \<open>str_of\<close> is Python's
  \<open>str\<close> on a decoded JSON value. The theorems hold for every choice of them.
\<close>

section \<open>Signals\<close>

datatype signal_action = NUDGE | STOP

datatype loop_kind =
    KIND_SAME_TOOL | KIND_OSCILLATION | KIND_REWRITE | KIND_DENIED_APPROVAL | KIND_SAME_ERROR
  | KIND_SUBAGENT

definition kind_priority :: "loop_kind list" where
  "kind_priority = [KIND_SAME_TOOL, KIND_OSCILLATION, KIND_REWRITE, KIND_DENIED_APPROVAL,
                    KIND_SAME_ERROR, KIND_SUBAGENT]"

record LoopSignal =
  sig_kind :: loop_kind
  sig_detail :: string
  sig_action :: signal_action

record loop_ext =
  canon :: "json \<Rightarrow> string"
  digest :: "json list \<Rightarrow> string"
  str_of :: "json \<Rightarrow> string"

section \<open>What a call does to files\<close>

definition edit_change :: "loop_ext \<Rightarrow> string \<Rightarrow> json \<Rightarrow> (string \<times> string \<times> string option) list" where
  "edit_change X path edit =
     (case edit of
        JObj e \<Rightarrow>
          (let old = obj_get e ''old_string''; new = obj_get e ''new_string''
           in [(path, digest X [JStr ''edit'', old, new], Some (digest X [JStr ''edit'', new, old]))])
      | _ \<Rightarrow> [])"

definition row_changes :: "loop_ext \<Rightarrow> json \<Rightarrow> (string \<times> string \<times> string option) list" where
  "row_changes X row =
     (case row of
        JObj r \<Rightarrow>
          (if truthy (obj_get r ''path'')
           then (case obj_get r ''edits'' of
                   JList edits \<Rightarrow> concat (map (edit_change X (str_of X (obj_get r ''path''))) edits)
                 | _ \<Rightarrow> [])
           else [])
      | _ \<Rightarrow> [])"

definition file_changes ::
  "loop_ext \<Rightarrow> string \<Rightarrow> json \<Rightarrow> (string \<times> string \<times> string option) list" where
  "file_changes X name arguments =
     (case arguments of
        JObj args \<Rightarrow>
          (if name = ''fs.write''
           then (let path = obj_get args ''path'' in
                 if \<not> truthy path then []
                 else [(str_of X path, digest X [JStr ''write'', obj_get args ''content''], None)])
           else if name = ''fs.patch''
           then (let rows = (case obj_get args ''files'' of
                               JList rows \<Rightarrow> rows
                             | _ \<Rightarrow> [JObj [(''path'', obj_get args ''path''),
                                           (''edits'', JList [JObj args])]])
                 in concat (map (row_changes X) rows))
           else [])
      | _ \<Rightarrow> [])"

definition error_signature :: "string \<Rightarrow> string \<Rightarrow> string" where
  "error_signature code message = code @ '':'' @ take 80 message"

section \<open>What a call returned, minus clocks\<close>

definition VOLATILE_KEYS :: "string set" where
  "VOLATILE_KEYS = {''elapsed_ms'', ''duration_ms'', ''fetched_at'', ''timestamp'', ''started_at'',
     ''completed_at'', ''attempts'', ''checked_at'', ''now''}"

function stable :: "json \<Rightarrow> json" where
  "stable (JObj kvs) =
     JObj (filter (\<lambda>kv. fst kv \<notin> VOLATILE_KEYS) (map (\<lambda>kv. (fst kv, stable (snd kv))) kvs))"
| "stable (JList xs) = JList (map stable xs)"
| "stable JNull = JNull"
| "stable (JBool b) = JBool b"
| "stable (JInt i) = JInt i"
| "stable (JFloat r) = JFloat r"
| "stable (JStr s) = JStr s"
  by pat_completeness auto
termination
proof (relation "measure size")
  fix kvs :: "(string \<times> json) list" and kv
  assume "kv \<in> set kvs"
  then have "size_prod (\<lambda>_. 0) size kv \<le> size_list (size_prod (\<lambda>_. 0) size) kvs"
    by (rule size_list_estimation') simp
  moreover have "size (snd kv) < size_prod (\<lambda>_. 0) size kv" by (cases kv) simp
  ultimately show "(snd kv, JObj kvs) \<in> measure size" by simp
next
  fix xs :: "json list" and x
  assume "x \<in> set xs"
  then have "size x \<le> size_list size xs" by (rule size_list_estimation') simp
  then show "(x, JList xs) \<in> measure size" by simp
qed simp

definition outcome_digest :: "loop_ext \<Rightarrow> json \<Rightarrow> string" where
  "outcome_digest X data = take 16 (digest X [JStr (canon X (stable data))])"

section \<open>The detector\<close>

text \<open>The identity under which a repetition is remembered: \<open>(kind, what repeats)\<close>.\<close>

datatype loop_identity =
    IdTool string
  | IdOscillation
  | IdRewrite "(string \<times> string) option"
  | IdDenied
  | IdError "string \<times> string"
  | IdSubagent string

datatype loop_evidence = EvSerial string int | EvDetail string

record LoopDetector =
  repeats :: nat
  window :: nat
  actions :: "string list"
  errors :: "(string \<times> string) list"
  error_origins :: "(int \<times> int option) list"
  nudged_at_error :: "(loop_identity \<times> int) list"
  denials :: "(string \<times> int) list"
  file_states :: "(string \<times> string set) list"
  rewrite_counts :: "((string \<times> string) \<times> int) list"
  last_rewrite :: "(string \<times> string) option"
  subagents :: "string list"
  nudged :: "(loop_identity \<times> int option) list"
  response :: "int option"
  action_serial :: int
  error_serial :: int
  subagent_serial :: int
  reported :: "(loop_identity \<times> loop_evidence) list"

definition new_detector :: "int \<Rightarrow> int \<Rightarrow> LoopDetector" where
  "new_detector rep win = \<lparr>repeats = nat (max 2 rep), window = nat (max 4 win), actions = [],
     errors = [], error_origins = [], nudged_at_error = [], denials = [], file_states = [],
     rewrite_counts = [], last_rewrite = None, subagents = [], nudged = [], response = None,
     action_serial = 0, error_serial = 0, subagent_serial = 0, reported = []\<rparr>"

text \<open>\<open>d.get(k, 0) + 1\<close>.\<close>

definition count_up :: "'k \<Rightarrow> ('k \<times> int) list \<Rightarrow> ('k \<times> int) list" where
  "count_up k d = dict_set k ((case dict_get d k of Some n \<Rightarrow> n | None \<Rightarrow> 0) + 1) d"

section \<open>Recorders\<close>

definition begin_response :: "LoopDetector \<Rightarrow> LoopDetector" where
  "begin_response det =
     det\<lparr>response := Some ((case response det of Some r \<Rightarrow> r | None \<Rightarrow> 0) + 1)\<rparr>"

definition record_change ::
  "string \<Rightarrow> LoopDetector \<Rightarrow> string \<times> string \<times> string option \<Rightarrow> LoopDetector" where
  "record_change name det change =
     (case change of (path, state, undo) \<Rightarrow>
        let seen = (case dict_get (file_states det) path of Some s \<Rightarrow> s | None \<Rightarrow> {});
            det1 = (if state \<in> seen \<or> (case undo of Some u \<Rightarrow> u \<in> seen | None \<Rightarrow> False)
                    then det\<lparr>rewrite_counts := count_up (name, path) (rewrite_counts det),
                             last_rewrite := Some (name, path)\<rparr>
                    else det)
        in det1\<lparr>file_states := dict_set path (insert state seen) (file_states det1)\<rparr>)"

definition record_tool ::
  "loop_ext \<Rightarrow> string \<Rightarrow> json \<Rightarrow> string option \<Rightarrow> bool \<Rightarrow> LoopDetector \<Rightarrow> LoopDetector" where
  "record_tool X name arguments outcome applied det =
     (let key = name @ ''|'' @ canon X arguments @
                (case outcome of Some out \<Rightarrow> ''|'' @ out | None \<Rightarrow> []);
          det1 = det\<lparr>action_serial := action_serial det + 1,
                     actions := last_n (window det) (actions det @ [key]),
                     last_rewrite := None\<rparr>
      in foldl (record_change name) det1 (if applied then file_changes X name arguments else []))"

definition record_error :: "string \<Rightarrow> string \<Rightarrow> string \<Rightarrow> LoopDetector \<Rightarrow> LoopDetector" where
  "record_error name code message det =
     (let serial = error_serial det + 1;
          det1 = det\<lparr>error_serial := serial,
                     errors := last_n (window det) (errors det @ [(error_signature code message, name)]),
                     error_origins := last_n (window det) (error_origins det @ [(serial, response det)])\<rparr>
      in if code = ''APPROVAL_DENIED'' then det1\<lparr>denials := count_up name (denials det1)\<rparr> else det1)"

definition record_subagent :: "string \<Rightarrow> LoopDetector \<Rightarrow> LoopDetector" where
  "record_subagent objective det =
     det\<lparr>subagent_serial := subagent_serial det + 1,
         subagents := last_n (window det) (subagents det @ [objective])\<rparr>"

section \<open>Detectors\<close>

text \<open>\<open>len(tail) \<ge> repeats\<close> and \<open>len(set(tail)) == 1\<close> for the last \<open>repeats\<close> entries.\<close>

definition repeated_tail :: "nat \<Rightarrow> 'a list \<Rightarrow> bool" where
  "repeated_tail n xs =
     (let tail = last_n n xs in length tail \<ge> n \<and> card (set tail) = 1)"

definition detect_same_tool :: "LoopDetector \<Rightarrow> string option" where
  "detect_same_tool det =
     (if repeated_tail (repeats det) (actions det)
      then Some (''the same tool call repeated '' @ nat_to_string (repeats det) @ '' times'')
      else None)"

definition detect_oscillation :: "LoopDetector \<Rightarrow> string option" where
  "detect_oscillation det =
     (case last_n 4 (actions det) of
        [a, b, c, d] \<Rightarrow>
          if a = c \<and> b = d \<and> a \<noteq> b then Some ''alternating the same two actions (A,B,A,B)'' else None
      | _ \<Rightarrow> None)"

definition detect_rewrites :: "LoopDetector \<Rightarrow> string option" where
  "detect_rewrites det =
     (case last_rewrite det of
        Some (name, path) \<Rightarrow>
          (let count = (case dict_get (rewrite_counts det) (name, path) of Some n \<Rightarrow> n | None \<Rightarrow> 0) in
           if count \<ge> int (repeats det) - 1
           then Some (path @ '' returned to an earlier state by '' @ name @ '' '' @
                      int_to_string count @ '' times'')
           else None)
      | None \<Rightarrow> None)"

definition detect_denied :: "LoopDetector \<Rightarrow> string option" where
  "detect_denied det =
     (case find_first (\<lambda>(name, count). count \<ge> int (repeats det)) (denials det) of
        Some (name, count) \<Rightarrow> Some (name @ '' denied '' @ int_to_string count @ '' times in a row'')
      | None \<Rightarrow> None)"

definition detect_same_error :: "LoopDetector \<Rightarrow> string option" where
  "detect_same_error det =
     (if repeated_tail (repeats det) (errors det)
      then (case last_n (repeats det) (errors det) of
              (signature, name) # _ \<Rightarrow>
                Some (name @ '' failed with the same error '' @ nat_to_string (repeats det) @
                      '' times ('' @ signature @ '')'')
            | [] \<Rightarrow> None)
      else None)"

definition detect_subagent :: "LoopDetector \<Rightarrow> string option" where
  "detect_subagent det =
     (if repeated_tail (repeats det) (subagents det)
      then Some (''the same subagent objective repeated '' @ nat_to_string (repeats det) @ '' times'')
      else None)"

fun detect :: "loop_kind \<Rightarrow> LoopDetector \<Rightarrow> string option" where
  "detect KIND_SAME_TOOL det = detect_same_tool det"
| "detect KIND_OSCILLATION det = detect_oscillation det"
| "detect KIND_REWRITE det = detect_rewrites det"
| "detect KIND_DENIED_APPROVAL det = detect_denied det"
| "detect KIND_SAME_ERROR det = detect_same_error det"
| "detect KIND_SUBAGENT det = detect_subagent det"

section \<open>The check\<close>

fun evidence_of :: "loop_kind \<Rightarrow> string \<Rightarrow> LoopDetector \<Rightarrow> loop_evidence" where
  "evidence_of KIND_SAME_ERROR detail det = EvSerial detail (error_serial det)"
| "evidence_of KIND_SAME_TOOL detail det = EvSerial detail (action_serial det)"
| "evidence_of KIND_OSCILLATION detail det = EvSerial detail (action_serial det)"
| "evidence_of KIND_SUBAGENT detail det = EvSerial detail (subagent_serial det)"
| "evidence_of KIND_REWRITE detail det = EvDetail detail"
| "evidence_of KIND_DENIED_APPROVAL detail det = EvDetail detail"

fun identity_of :: "loop_kind \<Rightarrow> LoopDetector \<Rightarrow> loop_identity" where
  "identity_of KIND_REWRITE det = IdRewrite (last_rewrite det)"
| "identity_of KIND_SAME_TOOL det = IdTool (last (actions det))"
| "identity_of KIND_SAME_ERROR det = IdError (last (errors det))"
| "identity_of KIND_SUBAGENT det = IdSubagent (last (subagents det))"
| "identity_of KIND_OSCILLATION det = IdOscillation"
| "identity_of KIND_DENIED_APPROVAL det = IdDenied"

definition mark_nudged :: "loop_identity \<Rightarrow> LoopDetector \<Rightarrow> LoopDetector" where
  "mark_nudged ident det =
     det\<lparr>nudged := dict_set ident (response det) (nudged det),
         nudged_at_error := dict_set ident (error_serial det) (nudged_at_error det)\<rparr>"

definition fresh_errors :: "loop_identity \<Rightarrow> LoopDetector \<Rightarrow> ((string \<times> string) \<times> int \<times> int option) list" where
  "fresh_errors ident det =
     (let since = (case dict_get (nudged_at_error det) ident of Some n \<Rightarrow> n | None \<Rightarrow> 0);
          nudged_in = (case dict_get (nudged det) ident of Some r \<Rightarrow> r | None \<Rightarrow> None)
      in filter (\<lambda>(entry, serial, resp). ident = IdError entry \<and> serial > since \<and>
                   (resp = None \<or> resp \<noteq> nudged_in))
           (zip (errors det) (error_origins det)))"

definition repeated_since_nudge :: "loop_identity \<Rightarrow> LoopDetector \<Rightarrow> bool" where
  "repeated_since_nudge ident det = (length (fresh_errors ident det) \<ge> repeats det)"

text \<open>One round of the loop over the kinds: the new state, and the signal if this kind gave one.\<close>

definition check_kind :: "loop_kind \<Rightarrow> LoopDetector \<Rightarrow> LoopDetector \<times> LoopSignal option" where
  "check_kind kind det =
     (case detect kind det of
        None \<Rightarrow> (det, None)
      | Some detail \<Rightarrow>
          (let evidence = evidence_of kind detail det;
               ident = identity_of kind det;
               was_nudged = dict_get (nudged det) ident
           in if dict_get (reported det) ident = Some evidence then (det, None)
              else if was_nudged \<noteq> None \<and> response det \<noteq> None \<and> was_nudged = Some (response det)
              then (det, None)
              else if was_nudged = None \<and> response det \<noteq> None \<and>
                      response det \<in> snd ` set (nudged det)
              then (mark_nudged ident (det\<lparr>reported := dict_set ident evidence (reported det)\<rparr>), None)
              else if was_nudged \<noteq> None \<and> kind = KIND_SAME_ERROR \<and> \<not> repeated_since_nudge ident det
              then (det, None)
              else
                (let det1 = det\<lparr>reported := dict_set ident evidence (reported det)\<rparr>;
                     action = (if was_nudged \<noteq> None then STOP else NUDGE)
                 in ((if action = NUDGE then mark_nudged ident det1 else det1),
                     Some \<lparr>sig_kind = kind, sig_detail = detail, sig_action = action\<rparr>))))"

fun check_kinds :: "loop_kind list \<Rightarrow> LoopDetector \<Rightarrow> LoopDetector \<times> LoopSignal option" where
  "check_kinds [] det = (det, None)"
| "check_kinds (kind # kinds) det =
     (case check_kind kind det of
        (det1, Some signal) \<Rightarrow> (det1, Some signal)
      | (det1, None) \<Rightarrow> check_kinds kinds det1)"

definition loop_check :: "LoopDetector \<Rightarrow> LoopDetector \<times> LoopSignal option" where
  "loop_check det = check_kinds kind_priority det"


section \<open>A turn as a sequence of recordings and checks\<close>

text \<open>
  The turn loop drives one detector: it records and checks in some order. The journal keeps, for
  each signal a check gave, the model response it was given in.
\<close>

datatype loop_op =
    BeginResponse
  | RecordTool string json "string option" bool
  | RecordError string string string
  | RecordSubagent string
  | Check

type_synonym loop_log = "(int option \<times> LoopSignal) list"

fun loop_step :: "loop_ext \<Rightarrow> loop_op \<Rightarrow> LoopDetector \<times> loop_log \<Rightarrow> LoopDetector \<times> loop_log" where
  "loop_step X BeginResponse (det, journal) = (begin_response det, journal)"
| "loop_step X (RecordTool name arguments outcome applied) (det, journal) =
     (record_tool X name arguments outcome applied det, journal)"
| "loop_step X (RecordError name code message) (det, journal) = (record_error name code message det, journal)"
| "loop_step X (RecordSubagent objective) (det, journal) = (record_subagent objective det, journal)"
| "loop_step X Check (det, journal) =
     (case loop_check det of
        (det1, Some signal) \<Rightarrow> (det1, journal @ [(response det, signal)])
      | (det1, None) \<Rightarrow> (det1, journal))"

text \<open>\<open>earlier r R\<close>: a signal of response \<open>r\<close> was delivered before response \<open>R\<close> was produced
  (calls made before the first \<open>begin_response\<close> stand alone).\<close>

fun earlier :: "int option \<Rightarrow> int option \<Rightarrow> bool" where
  "earlier None R = True"
| "earlier (Some k) (Some R) = (k < R)"
| "earlier (Some k) None = False"

definition stops_justified :: "loop_log \<Rightarrow> bool" where
  "stops_justified journal = (\<forall>i < length journal. sig_action (snd (journal ! i)) = STOP \<longrightarrow>
     (\<exists>j < i. sig_action (snd (journal ! j)) = NUDGE \<and> earlier (fst (journal ! j)) (fst (journal ! i))))"

definition nudges_in :: "int \<Rightarrow> loop_log \<Rightarrow> nat" where
  "nudges_in R journal = length (filter (\<lambda>(r, s). r = Some R \<and> sig_action s = NUDGE) journal)"

section \<open>What a check leaves alone\<close>

definition core :: "LoopDetector \<Rightarrow> LoopDetector" where
  "core det = det\<lparr>reported := [], nudged := [], nudged_at_error := []\<rparr>"

abbreviation check_frame :: "LoopDetector \<Rightarrow> LoopDetector \<Rightarrow> bool" where
  "check_frame det det1 \<equiv> core det1 = core det"

lemma check_frame_mark [simp]: "check_frame det (mark_nudged ident (det\<lparr>reported := r\<rparr>))"
  by (simp add: core_def mark_nudged_def)

lemma check_frame_reported [simp]: "check_frame det (det\<lparr>reported := r\<rparr>)"
  by (simp add: core_def)

lemma core_fields:
  "repeats (core det) = repeats det" "window (core det) = window det"
  "actions (core det) = actions det" "errors (core det) = errors det"
  "error_origins (core det) = error_origins det" "denials (core det) = denials det"
  "rewrite_counts (core det) = rewrite_counts det" "last_rewrite (core det) = last_rewrite det"
  "subagents (core det) = subagents det" "response (core det) = response det"
  "error_serial (core det) = error_serial det"
  by (simp_all add: core_def)

lemma detect_core: "detect kind (core det) = detect kind det"
  by (cases kind)
     (simp_all only: detect.simps,
      unfold detect_same_tool_def detect_oscillation_def detect_rewrites_def detect_denied_def
        detect_same_error_def detect_subagent_def core_fields, (rule refl)+)

lemma identity_core: "identity_of kind (core det) = identity_of kind det"
  by (cases kind) (simp_all add: core_fields)

lemma check_frame_fields:
  assumes "check_frame det det1"
  shows "repeats det1 = repeats det" "window det1 = window det" "actions det1 = actions det"
    "errors det1 = errors det" "error_origins det1 = error_origins det"
    "subagents det1 = subagents det" "response det1 = response det"
    "error_serial det1 = error_serial det" "detect kind det1 = detect kind det"
    "identity_of kind det1 = identity_of kind det"
  using assms by (metis core_fields detect_core identity_core)+

text \<open>The outcomes of one round: nothing, a silent mark next to another nudge of this response,
  a nudge of a new identity, or a stop of an identity nudged before.\<close>

lemma check_kind_cases:
  assumes "check_kind kind det = (det1, out)"
  obtains (quiet) "det1 = det" "out = None"
  | (silent) ident r where "out = None" "det1 = mark_nudged ident (det\<lparr>reported := r\<rparr>)"
      "dict_get (nudged det) ident = None" "response det \<noteq> None"
      "response det \<in> snd ` set (nudged det)"
  | (nudge) detail r where "out = Some \<lparr>sig_kind = kind, sig_detail = detail, sig_action = NUDGE\<rparr>"
      "det1 = mark_nudged (identity_of kind det) (det\<lparr>reported := r\<rparr>)" "detect kind det = Some detail"
      "dict_get (nudged det) (identity_of kind det) = None"
      "response det = None \<or> response det \<notin> snd ` set (nudged det)"
  | (stop) detail r q where "out = Some \<lparr>sig_kind = kind, sig_detail = detail, sig_action = STOP\<rparr>"
      "det1 = det\<lparr>reported := r\<rparr>" "detect kind det = Some detail"
      "dict_get (nudged det) (identity_of kind det) = Some q"
      "response det = None \<or> q \<noteq> response det"
      "kind = KIND_SAME_ERROR \<Longrightarrow> repeated_since_nudge (identity_of kind det) det"
proof (cases "detect kind det")
  case None
  with assms quiet show thesis by (auto simp: check_kind_def)
next
  case (Some detail)
  define seen where "seen = dict_get (nudged det) (identity_of kind det)"
  define r where "r = dict_set (identity_of kind det) (evidence_of kind detail det) (reported det)"
  define R where "R = det\<lparr>reported := r\<rparr>"
  define M where "M = mark_nudged (identity_of kind det) R"
  note unfolded = assms [unfolded check_kind_def Some option.case Let_def, folded seen_def r_def,
      folded R_def, folded M_def]
  consider "det1 = det" "out = None"
    | "seen = None" "response det \<noteq> None" "response det \<in> snd ` set (nudged det)"
       "det1 = M" "out = None"
    | "seen = None" "response det = None \<or> response det \<notin> snd ` set (nudged det)"
       "det1 = M" "out = Some \<lparr>sig_kind = kind, sig_detail = detail, sig_action = NUDGE\<rparr>"
    | q where "seen = Some q" "response det = None \<or> q \<noteq> response det"
       "kind = KIND_SAME_ERROR \<Longrightarrow> repeated_since_nudge (identity_of kind det) det"
       "det1 = R" "out = Some \<lparr>sig_kind = kind, sig_detail = detail, sig_action = STOP\<rparr>"
  proof (cases seen)
    case None
    with unfolded that(1-3) show ?thesis by (auto split: if_split_asm)
  next
    case (Some q)
    with unfolded that(1,4) show ?thesis by (auto split: if_split_asm)
  qed
  then show thesis
  proof cases
    case 1
    then show thesis using quiet by blast
  next
    case 2
    then show thesis using silent unfolding seen_def M_def R_def by blast
  next
    case 3
    then show thesis using nudge Some unfolding seen_def M_def R_def by blast
  next
    case (4 q)
    then show thesis using stop Some unfolding seen_def R_def by blast
  qed
qed

lemma check_kind_frame: "check_kind kind det = (det1, out) \<Longrightarrow> check_frame det det1"
  by (erule check_kind_cases) auto


section \<open>The invariant of a turn\<close>

fun not_after :: "int option \<Rightarrow> int option \<Rightarrow> bool" where
  "not_after None R = True"
| "not_after (Some k) R = (\<exists>m. R = Some m \<and> k \<le> m)"

definition detector_inv :: "LoopDetector \<Rightarrow> bool" where
  "detector_inv det = (2 \<le> repeats det \<and> 4 \<le> window det \<and>
     length (actions det) \<le> window det \<and> length (errors det) \<le> window det \<and>
     length (subagents det) \<le> window det \<and> length (error_origins det) = length (errors det) \<and>
     (\<forall>r \<in> snd ` set (nudged det). not_after r (response det)))"

definition journal_inv :: "LoopDetector \<Rightarrow> loop_log \<Rightarrow> bool" where
  "journal_inv det journal =
     ((\<forall>r \<in> snd ` set (nudged det). \<exists>s. (r, s) \<in> set journal \<and> sig_action s = NUDGE) \<and>
      (\<forall>r s. (r, s) \<in> set journal \<longrightarrow> sig_action s = NUDGE \<longrightarrow> r \<in> snd ` set (nudged det)) \<and>
      stops_justified journal \<and> (\<forall>R. nudges_in R journal \<le> 1))"

fun loop_inv :: "LoopDetector \<times> loop_log \<Rightarrow> bool" where
  "loop_inv (det, journal) = (detector_inv det \<and> journal_inv det journal)"

lemma stops_justified_snoc:
  "stops_justified (journal @ [e]) \<longleftrightarrow> stops_justified journal \<and>
     (sig_action (snd e) = STOP \<longrightarrow>
       (\<exists>p \<in> set journal. sig_action (snd p) = NUDGE \<and> earlier (fst p) (fst e)))"
proof -
  have "(\<exists>j < length journal. sig_action (snd (journal ! j)) = NUDGE \<and> earlier (fst (journal ! j)) (fst e))
      \<longleftrightarrow> (\<exists>p \<in> set journal. sig_action (snd p) = NUDGE \<and> earlier (fst p) (fst e))"
    by (metis in_set_conv_nth)
  then show ?thesis
    by (fastforce simp: stops_justified_def nth_append less_Suc_eq)
qed

lemma nudges_in_snoc:
  "nudges_in R (journal @ [(r, s)]) =
     nudges_in R journal + (if r = Some R \<and> sig_action s = NUDGE then 1 else 0)"
  by (simp add: nudges_in_def)

lemma nudges_in_zero: "(\<And>s. (Some R, s) \<in> set journal \<Longrightarrow> sig_action s \<noteq> NUDGE) \<Longrightarrow> nudges_in R journal = 0"
  by (auto simp: nudges_in_def filter_empty_conv)

lemma not_after_earlier:
  "not_after q R \<Longrightarrow> R = None \<or> q \<noteq> R \<Longrightarrow> earlier q R"
  by (cases q) auto

lemma detector_inv_frame:
  assumes "detector_inv det" and "check_frame det det1"
    and "\<And>r. r \<in> snd ` set (nudged det1) \<Longrightarrow> r \<in> snd ` set (nudged det) \<or> r = response det"
  shows "detector_inv det1"
proof -
  have "not_after (response det) (response det)" by (cases "response det") auto
  then have "\<forall>r \<in> snd ` set (nudged det1). not_after r (response det)"
    using assms(1) [unfolded detector_inv_def] assms(3) by metis
  with assms(1) show ?thesis
    by (simp add: detector_inv_def check_frame_fields [OF assms(2)])
qed

lemma journal_inv_stop:
  assumes inv: "journal_inv det journal" and stop: "sig_action s = STOP"
    and "\<exists>p \<in> set journal. sig_action (snd p) = NUDGE \<and> earlier (fst p) R"
    and same: "nudged det1 = nudged det"
  shows "journal_inv det1 (journal @ [(R, s)])"
proof -
  have "stops_justified (journal @ [(R, s)])"
    using assms by (simp add: journal_inv_def stops_justified_snoc)
  moreover have "\<forall>Q. nudges_in Q (journal @ [(R, s)]) \<le> 1"
    using inv stop by (simp add: journal_inv_def nudges_in_snoc)
  moreover have "\<forall>r \<in> snd ` set (nudged det1).
      \<exists>t. (r, t) \<in> set (journal @ [(R, s)]) \<and> sig_action t = NUDGE"
    using inv same unfolding journal_inv_def set_append Un_iff by metis
  moreover have "\<forall>r t. (r, t) \<in> set (journal @ [(R, s)]) \<longrightarrow> sig_action t = NUDGE \<longrightarrow>
      r \<in> snd ` set (nudged det1)"
    using inv same stop by (auto simp: journal_inv_def)
  ultimately show ?thesis unfolding journal_inv_def by blast
qed

lemma nudged_mark_new:
  "dict_get (nudged det) ident = None \<Longrightarrow>
     snd ` set (nudged (mark_nudged ident (det\<lparr>reported := r\<rparr>))) =
       insert (response det) (snd ` set (nudged det))"
  by (simp add: mark_nudged_def values_dict_set_new)

lemma check_kind_inv:
  assumes inv: "loop_inv (det, journal)" and chk: "check_kind kind det = (det1, out)"
  shows "loop_inv (det1, journal @ (case out of Some s \<Rightarrow> [(response det, s)] | None \<Rightarrow> []))"
  using chk
proof (cases rule: check_kind_cases)
  case quiet
  with inv show ?thesis by simp
next
  case (silent ident r)
  note vals = nudged_mark_new [OF silent(3), of r]
  have "detector_inv det1"
    by (rule detector_inv_frame [of det]) (use inv silent vals in \<open>simp_all\<close>, blast)
  moreover have "journal_inv det1 journal"
    using inv unfolding silent(2) journal_inv_def vals insert_absorb [OF silent(5)]
    by (simp add: journal_inv_def)
  ultimately show ?thesis using silent(1) by simp
next
  case (nudge detail r)
  note vals = nudged_mark_new [OF nudge(4), of r]
  have "detector_inv det1"
    by (rule detector_inv_frame [of det]) (use inv nudge vals in \<open>simp_all\<close>, blast)
  moreover have "nudges_in R (journal @ [(response det, the out)]) \<le> 1" for R
  proof (cases "response det = Some R")
    case True
    with nudge(5) inv have "nudges_in R journal = 0"
      by (intro nudges_in_zero) (force simp: journal_inv_def)
    then show ?thesis using nudge(1) by (simp add: nudges_in_snoc)
  next
    case False
    with inv show ?thesis by (simp add: nudges_in_snoc journal_inv_def)
  qed
  then have "journal_inv det1 (journal @ [(response det, the out)])"
    using inv nudge(1) unfolding nudge(2) journal_inv_def vals
    by (auto simp: journal_inv_def stops_justified_snoc)
  ultimately show ?thesis using nudge(1) by simp
next
  case (stop detail r q)
  have q: "q \<in> snd ` set (nudged det)" by (rule dict_get_value [OF stop(4)])
  with inv have "not_after q (response det)" by (auto simp: detector_inv_def)
  then have "earlier q (response det)" using stop(5) by (rule not_after_earlier)
  with q inv have "\<exists>p \<in> set journal. sig_action (snd p) = NUDGE \<and> earlier (fst p) (response det)"
    by (force simp: journal_inv_def)
  with inv stop(1,2) have "journal_inv det1 (journal @ [(response det, the out)])"
    by (intro journal_inv_stop [of det]) simp_all
  moreover have "detector_inv det1"
    by (rule detector_inv_frame [of det]) (use inv stop(2) in \<open>simp_all\<close>)
  ultimately show ?thesis using stop(1) by simp
qed

lemma check_kinds_inv:
  assumes "loop_inv (det, journal)" and "check_kinds kinds det = (det1, out)"
  shows "loop_inv (det1, journal @ (case out of Some s \<Rightarrow> [(response det, s)] | None \<Rightarrow> []))"
  using assms
proof (induction kinds arbitrary: det)
  case Nil
  then show ?case by simp
next
  case (Cons kind kinds)
  obtain det2 out2 where first: "check_kind kind det = (det2, out2)" by force
  note inv2 = check_kind_inv [OF Cons.prems(1) first]
  note resp = check_frame_fields(7) [OF check_kind_frame [OF first]]
  show ?case
  proof (cases out2)
    case None
    with Cons.prems(2) first have "check_kinds kinds det2 = (det1, out)" by simp
    from Cons.IH [OF _ this] inv2 None show ?thesis
      unfolding resp by (simp del: loop_inv.simps)
  next
    case (Some s)
    with Cons.prems(2) first inv2 show ?thesis by simp
  qed
qed

text \<open>Recording never touches the nudges.\<close>

lemma record_change_fields:
  "nudged (record_change name det c) = nudged det" "response (record_change name det c) = response det"
  "repeats (record_change name det c) = repeats det" "window (record_change name det c) = window det"
  "actions (record_change name det c) = actions det" "errors (record_change name det c) = errors det"
  "error_origins (record_change name det c) = error_origins det"
  "subagents (record_change name det c) = subagents det"
  "denials (record_change name det c) = denials det"
  by (simp_all add: record_change_def Let_def split: prod.split)

lemma record_changes_fields:
  "nudged (foldl (record_change name) det cs) = nudged det"
  "response (foldl (record_change name) det cs) = response det"
  "repeats (foldl (record_change name) det cs) = repeats det"
  "window (foldl (record_change name) det cs) = window det"
  "actions (foldl (record_change name) det cs) = actions det"
  "errors (foldl (record_change name) det cs) = errors det"
  "error_origins (foldl (record_change name) det cs) = error_origins det"
  "subagents (foldl (record_change name) det cs) = subagents det"
  "denials (foldl (record_change name) det cs) = denials det"
  by (induction cs arbitrary: det) (simp_all add: record_change_fields)

lemma not_after_next: "not_after r R \<Longrightarrow> not_after r (Some ((case R of Some m \<Rightarrow> m | None \<Rightarrow> 0) + 1))"
  by (cases r; cases R) auto

lemma loop_step_inv: "loop_inv s \<Longrightarrow> loop_inv (loop_step X x s)"
proof -
  obtain det journal where s: "s = (det, journal)" by force
  assume "loop_inv s"
  then have inv: "detector_inv det" "journal_inv det journal" by (simp_all add: s)
  show ?thesis
  proof (cases x)
    case BeginResponse
    with inv show ?thesis
      by (auto simp: s begin_response_def detector_inv_def journal_inv_def intro: not_after_next)
  next
    case (RecordTool name arguments outcome applied)
    with inv show ?thesis
      by (simp add: s record_tool_def Let_def detector_inv_def journal_inv_def record_changes_fields)
  next
    case (RecordError name code message)
    with inv show ?thesis
      by (simp add: s record_error_def Let_def detector_inv_def journal_inv_def)
  next
    case (RecordSubagent objective)
    with inv show ?thesis
      by (simp add: s record_subagent_def detector_inv_def journal_inv_def)
  next
    case Check
    obtain det1 out where "loop_check det = (det1, out)" by force
    with check_kinds_inv [of det journal kind_priority det1 out] inv Check show ?thesis
      by (auto simp: s loop_check_def split: option.splits)
  qed
qed

interpretation loops: invariant_steps "loop_step X" "\<lambda>_. True" loop_inv for X
  by unfold_locales (rule loop_step_inv)

lemma loop_inv_new: "loop_inv (new_detector rep win, [])"
  by (auto simp: detector_inv_def journal_inv_def new_detector_def stops_justified_def nudges_in_def)


section \<open>Soundness and completeness of a signal\<close>

lemma check_kinds_detects:
  "check_kinds kinds det = (det1, Some signal) \<Longrightarrow>
     detect (sig_kind signal) det = Some (sig_detail signal)"
proof (induction kinds arbitrary: det)
  case (Cons kind kinds)
  obtain det2 out where first: "check_kind kind det = (det2, out)" by force
  note frame = check_frame_fields(9) [OF check_kind_frame [OF first]]
  show ?case
  proof (cases out)
    case None
    with Cons.prems first have "check_kinds kinds det2 = (det1, Some signal)" by simp
    from Cons.IH [OF this] show ?thesis by (simp add: frame)
  next
    case (Some s)
    with Cons.prems first have "s = signal" by simp
    from first show ?thesis
      by (cases rule: check_kind_cases) (use Some \<open>s = signal\<close> in auto)
  qed
qed simp

lemma repeated_tail_replicate:
  "0 < n \<Longrightarrow> n \<le> m \<Longrightarrow> repeated_tail n (xs @ replicate m x)"
  by (simp add: repeated_tail_def last_n_def Let_def)

lemma repeated_tail_iff:
  "0 < n \<Longrightarrow> repeated_tail n xs \<longleftrightarrow> (\<exists>ys. xs = ys @ replicate n (last xs))"
proof
  assume n: "0 < n" and tail: "repeated_tail n xs"
  then obtain x where x: "set (last_n n xs) = {x}" and len: "length (last_n n xs) = n"
    by (auto simp: repeated_tail_def Let_def card_Suc_eq One_nat_def)
  then have eq: "last_n n xs = replicate n x"
    by (metis replicate_eqI singletonD)
  have "xs = take (length xs - n) xs @ last_n n xs" by (simp add: last_n_def)
  then obtain ys where ys: "xs = ys @ replicate n x" using eq by metis
  with n have "last xs = x" by (simp add: last_append)
  with ys show "\<exists>ys. xs = ys @ replicate n (last xs)" by metis
next
  assume "0 < n" and "\<exists>ys. xs = ys @ replicate n (last xs)"
  then show "repeated_tail n xs" by (metis order_refl repeated_tail_replicate)
qed

definition call_key :: "loop_ext \<Rightarrow> string \<Rightarrow> json \<Rightarrow> string option \<Rightarrow> string" where
  "call_key X name arguments outcome = name @ ''|'' @ canon X arguments @
     (case outcome of Some out \<Rightarrow> ''|'' @ out | None \<Rightarrow> [])"

lemma record_tool_repeat:
  assumes "n \<le> window det" and "actions det = []" and "nudged det = []"
    and "det' = ((record_tool X name arguments outcome applied) ^^ n) det"
  shows "actions det' = replicate n (call_key X name arguments outcome) \<and> nudged det' = [] \<and>
         window det' = window det \<and> repeats det' = repeats det \<and> reported det' = reported det"
  using assms
proof (induction n arbitrary: det')
  case (Suc n)
  define d where "d = ((record_tool X name arguments outcome applied) ^^ n) det"
  have rep: "reported (foldl (record_change name) e cs) = reported e" for e cs
    by (induction cs arbitrary: e) (simp_all add: record_change_def Let_def split: prod.split)
  from Suc.IH [OF _ Suc.prems(2,3) d_def] Suc.prems(1)
  have "actions d = replicate n (call_key X name arguments outcome)" "nudged d = []"
    "window d = window det" "repeats d = repeats det" "reported d = reported det" by auto
  moreover have "det' = record_tool X name arguments outcome applied d"
    using Suc.prems(4) by (simp add: d_def)
  ultimately show ?case
    using Suc.prems(1)
    by (simp add: record_tool_def Let_def record_changes_fields rep call_key_def replicate_append_same)
qed simp

section \<open>Properties\<close>

text \<open>
  C21. A stop is never a surprise: in every run of a turn, each STOP is preceded by a NUDGE
  given in an earlier model response (or before responses were counted), so the model had read
  a nudge before the turn is ended; and no response earns more than one NUDGE.
\<close>

theorem stop_only_after_a_read_nudge:
  "case fold (loop_step X) xs (new_detector rep win, []) of (det, journal) \<Rightarrow>
     stops_justified journal \<and> (\<forall>R. nudges_in R journal \<le> 1)"
proof -
  obtain det journal where run: "fold (loop_step X) xs (new_detector rep win, []) = (det, journal)"
    by force
  have "loop_inv (det, journal)"
    using loops.run_inv [OF loop_inv_new, of xs X rep win] by (simp add: run list_all_iff)
  then show ?thesis by (simp add: run journal_inv_def)
qed

text \<open>
  C6. A signal reports what is in the record: when a check signals a repeated call, the last
  \<open>repeats\<close> recorded calls are one and the same (tool, arguments and outcome); likewise for
  errors and subagent objectives.
\<close>

theorem loop_signal_sound:
  assumes "loop_check det = (det1, Some signal)" and "0 < repeats det"
  shows "(sig_kind signal = KIND_SAME_TOOL \<longrightarrow>
            (\<exists>ys. actions det = ys @ replicate (repeats det) (last (actions det)))) \<and>
         (sig_kind signal = KIND_SAME_ERROR \<longrightarrow>
            (\<exists>ys. errors det = ys @ replicate (repeats det) (last (errors det)))) \<and>
         (sig_kind signal = KIND_SUBAGENT \<longrightarrow>
            (\<exists>ys. subagents det = ys @ replicate (repeats det) (last (subagents det))))"
proof -
  have "detect (sig_kind signal) det = Some (sig_detail signal)"
    using assms(1) unfolding loop_check_def by (rule check_kinds_detects)
  then show ?thesis
    using assms(2)
    by (auto simp: detect_same_tool_def detect_same_error_def detect_subagent_def
          repeated_tail_iff split: if_splits)
qed

definition ext_example :: loop_ext where
  "ext_example = \<lparr>canon = (\<lambda>_. ''{}''), digest = (\<lambda>_. ''d''), str_of = (\<lambda>_. ''p'')\<rparr>"

theorem loop_signal_sound_witness:
  "\<exists>ys. actions ((record_tool ext_example ''git.status'' JNull None True ^^ 3) (new_detector 3 12)) =
     ys @ replicate 3 (last (actions ((record_tool ext_example ''git.status'' JNull None True ^^ 3)
                                       (new_detector 3 12))))"
proof -
  let ?det = "(record_tool ext_example ''git.status'' JNull None True ^^ 3) (new_detector 3 12)"
  let ?s = "\<lparr>sig_kind = KIND_SAME_TOOL, sig_detail = ''the same tool call repeated 3 times'',
             sig_action = NUDGE\<rparr>"
  have "snd (loop_check ?det) = Some ?s" by code_simp
  then have chk: "loop_check ?det = (fst (loop_check ?det), Some ?s)" by (simp add: prod_eq_iff)
  have rep: "repeats ?det = 3" by code_simp
  from loop_signal_sound [OF chk] rep show ?thesis by simp
qed

text \<open>
  C14. A repeated call is always caught: in a new turn, \<open>repeats\<close> identical calls with identical
  outcomes make the next check nudge for the same tool call.
\<close>

theorem repeated_call_is_nudged:
  assumes "2 \<le> rep" and "rep \<le> win"
    and "det = ((record_tool X name arguments outcome applied) ^^ nat rep) (new_detector rep win)"
  shows "\<exists>signal. snd (loop_check det) = Some signal \<and> sig_kind signal = KIND_SAME_TOOL \<and>
                  sig_action signal = NUDGE"
proof -
  let ?key = "call_key X name arguments outcome"
  have "actions det = replicate (nat rep) ?key \<and> nudged det = [] \<and>
      window det = window (new_detector rep win) \<and> repeats det = repeats (new_detector rep win) \<and>
      reported det = reported (new_detector rep win)"
    by (rule record_tool_repeat [OF _ _ _ assms(3)]) (use assms(1,2) in \<open>simp_all add: new_detector_def\<close>)
  then have facts: "actions det = replicate (nat rep) ?key" "nudged det = []"
      "repeats det = nat rep" "reported det = []"
    using assms(1,2) by (simp_all add: new_detector_def)
  have "repeated_tail (nat rep) (replicate (nat rep) ?key)"
    using repeated_tail_replicate [of "nat rep" "nat rep" "[]"] assms(1) by simp
  then show ?thesis
    by (simp add: loop_check_def kind_priority_def check_kind_def detect_same_tool_def facts Let_def)
qed

theorem repeated_call_is_nudged_witness:
  "\<exists>signal. snd (loop_check (((record_tool ext_example ''git.status'' JNull None True) ^^ nat 3)
     (new_detector 3 12))) = Some signal \<and> sig_kind signal = KIND_SAME_TOOL \<and> sig_action signal = NUDGE"
  by (rule repeated_call_is_nudged [where rep = 3 and win = 12]) simp_all

text \<open>
  C9. Denials are counted over the whole turn, not in a row: three denials of one tool, each
  followed by a successful call, still give the \<open>repeated-denied-approval\<close> signal, whose text
  says \<open>3 times in a row\<close>.
\<close>

theorem denials_not_in_a_row:
  "map_option (\<lambda>s. (sig_kind s, sig_detail s))
     (snd (loop_check (fold (\<lambda>i det. record_tool ext_example ''shell.run'' JNull (Some i) True
                                     (record_error ''shell.run'' ''APPROVAL_DENIED'' i det))
                        [''a'', ''b'', ''c''] (new_detector 3 12))))
   = Some (KIND_DENIED_APPROVAL, ''shell.run denied 3 times in a row'')"
  by code_simp

end
