(* ===== verification/Task_Graph.thy ===== *)
theory Task_Graph
  imports Rinari_Prelude
begin

text \<open>
  The task graph: the pure rules of \<^verbatim>\<open>src/src/rinari/tasks/core.py\<close> (criteria, the done-when
  contract, dependencies, the cycle check), the table of
  \<^verbatim>\<open>src/src/rinari/storage/repositories/tasks.py\<close> and the operations of \<open>TaskService\<close>
  (\<^verbatim>\<open>src/src/rinari/tasks/service.py\<close>).

  A row is a \<open>task\<close> record, the table a list of rows with distinct identifiers. Fresh
  identifiers, the current time and the resolution of a path to its canonical form (\<open>None\<close>
  when the path does not exist) are arguments. A raised error is the left side of a sum.
\<close>

section \<open>Rows and statuses\<close>

record task =
  task_id :: string
  project_root :: string
  session_ref :: "string option"
  title :: string
  description :: string
  status :: string
  acceptance :: string
  implementation :: string
  validation :: string
  scope :: string
  unresolved :: string
  depends_on :: string
  blockers :: string
  evidence :: string
  created_at :: string
  updated_at :: string

abbreviation PENDING :: string where "PENDING \<equiv> ''pending''"
abbreviation IN_PROGRESS :: string where "IN_PROGRESS \<equiv> ''in_progress''"
abbreviation DONE :: string where "DONE \<equiv> ''done''"
abbreviation BLOCKED :: string where "BLOCKED \<equiv> ''blocked''"
abbreviation CANCELLED :: string where "CANCELLED \<equiv> ''cancelled''"

definition VALID_STATUSES :: "string set" where
  "VALID_STATUSES = {PENDING, IN_PROGRESS, DONE, BLOCKED, CANCELLED}"

section \<open>Criteria\<close>

definition criteria_lines :: "string \<Rightarrow> string list" where
  "criteria_lines text = map strip (filter (\<lambda>line. strip line \<noteq> []) (splitlines text))"

text \<open>The regular expression \<open>^(?:[-*]\\s*)?\\[( |x|X)\\]\\s*(.*)$\<close>: the mark and the text.\<close>

definition match_criterion :: "string \<Rightarrow> (char \<times> string) option" where
  "match_criterion line =
     (let body = (case line of
                    c # rest \<Rightarrow> if c = CHR ''-'' \<or> c = CHR ''*'' then dropWhile is_space rest else line
                  | [] \<Rightarrow> [])
      in (case body of
            a # m # b # rest \<Rightarrow>
              (if a = CHR ''['' \<and> b = CHR '']'' \<and> (m = CHR '' '' \<or> m = CHR ''x'' \<or> m = CHR ''X'')
               then Some (m, dropWhile is_space rest) else None)
          | _ \<Rightarrow> None))"

definition parse_criteria :: "string \<Rightarrow> (string \<times> bool) list" where
  "parse_criteria text =
     map (\<lambda>line. case match_criterion line of
                   Some (m, body) \<Rightarrow> (strip body, lower_char m = CHR ''x'')
                 | None \<Rightarrow> (line, False))
       (criteria_lines text)"

record group_report =
  gr_total :: nat
  gr_satisfied :: nat
  gr_ok :: bool
  gr_missing :: "string list"

definition group_report_of :: "(string \<times> bool) list \<Rightarrow> group_report" where
  "group_report_of items =
     (let n = length items; sat = length (filter snd items) in
      \<lparr>gr_total = n, gr_satisfied = sat, gr_ok = (n > 0 \<and> sat = n),
       gr_missing = map fst (filter (\<lambda>(t, ok). \<not> ok) items)\<rparr>)"

record done_report =
  dr_acceptance :: group_report
  dr_implementation :: group_report
  dr_validation :: group_report
  dr_scope :: group_report
  dr_unresolved :: "string list"
  can_complete :: bool

definition done_when_report :: "task \<Rightarrow> done_report" where
  "done_when_report t =
     (let acc = parse_criteria (acceptance t);
          impl = parse_criteria (implementation t);
          vali = parse_criteria (validation t);
          scp = parse_criteria (scope t);
          unres = criteria_lines (unresolved t);
          implementation_ok = (length impl = 0 \<or> list_all snd impl);
          scope_ok = (length scp = 0 \<or> list_all snd scp)
      in \<lparr>dr_acceptance = group_report_of acc, dr_implementation = group_report_of impl,
          dr_validation = group_report_of vali, dr_scope = group_report_of scp,
          dr_unresolved = unres,
          can_complete = (gr_ok (group_report_of acc) \<and> implementation_ok \<and>
                          gr_ok (group_report_of vali) \<and> scope_ok \<and> unres = [])\<rparr>)"

definition unsatisfied_reason :: "string \<Rightarrow> group_report \<Rightarrow> string list" where
  "unsatisfied_reason grp info =
     (let n = gr_total info - gr_satisfied info in
      if n \<noteq> 0 then [grp @ '': '' @ nat_to_string n @ '' criterion(s) unsatisfied''] else [])"

definition completion_blockers :: "task \<Rightarrow> string list" where
  "completion_blockers t =
     (let report = done_when_report t in
      unsatisfied_reason ''acceptance'' (dr_acceptance report) @
      unsatisfied_reason ''implementation'' (dr_implementation report) @
      unsatisfied_reason ''validation'' (dr_validation report) @
      unsatisfied_reason ''scope'' (dr_scope report) @
      (if gr_total (dr_acceptance report) = 0
       then [''acceptance: task-specific acceptance criteria missing''] else []) @
      (if gr_total (dr_validation report) = 0
       then [''validation: validation criteria missing''] else []) @
      (if dr_unresolved report \<noteq> []
       then [''unresolved: '' @ nat_to_string (length (dr_unresolved report)) @ '' outstanding'']
       else []))"

section \<open>Dependencies\<close>

definition split_deps :: "string \<Rightarrow> string list" where
  "split_deps raw = filter (\<lambda>d. d \<noteq> []) (map strip (split_on (CHR '','') raw))"

definition split_dependencies :: "task \<Rightarrow> string list" where
  "split_dependencies t = split_deps (depends_on t)"

text \<open>\<open>{t["id"]: t for t in tasks}\<close>.\<close>

definition by_id :: "task list \<Rightarrow> (string \<times> task) list" where
  "by_id ts = foldl (\<lambda>d t. dict_set (task_id t) t d) [] ts"

definition dependencies_ready :: "task \<Rightarrow> (string \<times> task) list \<Rightarrow> string list" where
  "dependencies_ready t ids =
     filter (\<lambda>dep. case dict_get ids dep of None \<Rightarrow> True | Some target \<Rightarrow> status target \<noteq> DONE)
       (split_dependencies t)"

type_synonym edges = "(string \<times> string list) list"

definition edges_of :: "task list \<Rightarrow> edges" where
  "edges_of ts = foldl (\<lambda>d t. dict_set (task_id t) (split_dependencies t) d) [] ts"

definition deps_of :: "edges \<Rightarrow> string \<Rightarrow> string list" where
  "deps_of es x = (case dict_get es x of Some ds \<Rightarrow> ds | None \<Rightarrow> [])"

definition all_deps :: "edges \<Rightarrow> string set" where
  "all_deps es = (\<Union>ds \<in> snd ` set es. set ds)"

lemma deps_of_all: "set (deps_of es x) \<subseteq> all_deps es"
proof (cases "dict_get es x")
  case None
  then show ?thesis by (simp add: deps_of_def)
next
  case (Some ds)
  then have "ds \<in> snd ` set es" by (rule dict_get_value)
  with Some show ?thesis by (auto simp: deps_of_def all_deps_def)
qed

text \<open>The \<open>while frontier\<close> loop: a stack popped from its end.\<close>

function reach_loop :: "edges \<Rightarrow> string list \<Rightarrow> string set \<Rightarrow> string set" where
  "reach_loop es frontier seen =
     (if frontier = [] then seen
      else (let current = last frontier; rest = butlast frontier in
            if current \<in> seen then reach_loop es rest seen
            else reach_loop es (rest @ deps_of es current) (insert current seen)))"
  by pat_completeness auto
termination
proof (relation "measures [\<lambda>(es, f, s). card ((set f \<union> all_deps es) - s), \<lambda>(es, f, s). length f]",
    goal_cases)
  case 1
  show ?case by simp
next
  case (2 es f s c r)
  then have f: "f = r @ [c]" and "c \<in> s" by simp_all
  then have "card ((set r \<union> all_deps es) - s) \<le> card ((set f \<union> all_deps es) - s)"
    by (intro card_mono) (auto simp: all_deps_def)
  with f show ?case by auto
next
  case (3 es f s c r)
  then have f: "f = r @ [c]" and "c \<notin> s" by simp_all
  then have "(set (r @ deps_of es c) \<union> all_deps es) - insert c s \<subset> (set f \<union> all_deps es) - s"
    using deps_of_all [of es c] by auto
  then have "card ((set (r @ deps_of es c) \<union> all_deps es) - insert c s)
      < card ((set f \<union> all_deps es) - s)"
    by (intro psubset_card_mono) (auto simp: all_deps_def)
  then show ?case by simp
qed

declare reach_loop.simps [simp del]

definition would_create_cycle :: "task list \<Rightarrow> string \<Rightarrow> string \<Rightarrow> bool" where
  "would_create_cycle ts tid new_dep =
     (if tid = new_dep then True
      else tid \<in> reach_loop (edges_of ts) [new_dep] {})"

section \<open>The table\<close>

datatype task_error =
    PathMissing string
  | TaskNotFound string
  | EmptyTitle
  | UnknownDependency string
  | DependencyCycle string string
  | NoFields
  | AlreadyDone string
  | CannotRetry string
  | EmptyEvidence
  | UnknownStatus string
  | WaitingOn string "string list"
  | NotSatisfied string "string list"
  | IntegrityError string

type_synonym table = "task list"

text \<open>\<open>id\<close> is the primary key: inserting a second row with it raises.\<close>

definition repo_create :: "task \<Rightarrow> table \<Rightarrow> task_error + table" where
  "repo_create row T =
     (if task_id row \<in> task_id ` set T then Inl (IntegrityError (task_id row)) else Inr (T @ [row]))"

definition repo_get :: "table \<Rightarrow> string \<Rightarrow> task option" where
  "repo_get T tid = find_first (\<lambda>t. task_id t = tid) T"

text \<open>\<open>UPDATE tasks SET ... WHERE id = ?\<close>: \<open>f\<close> is the assignment of the changed columns.\<close>

definition repo_update :: "string \<Rightarrow> (task \<Rightarrow> task) \<Rightarrow> table \<Rightarrow> table" where
  "repo_update tid f T = map (\<lambda>t. if task_id t = tid then f t else t) T"

definition repo_list_all :: "table \<Rightarrow> task list" where
  "repo_list_all T = sort_key (\<lambda>t. (created_at t, task_id t)) T"

definition repo_list :: "table \<Rightarrow> string \<Rightarrow> task list" where
  "repo_list T proot = repo_list_all (filter (\<lambda>t. project_root t = proot) T)"

definition repo_delete :: "string \<Rightarrow> table \<Rightarrow> table \<times> bool" where
  "repo_delete tid T =
     (let kept = filter (\<lambda>t. task_id t \<noteq> tid) T in (kept, length kept < length T))"

section \<open>The service\<close>

definition service_get :: "table \<Rightarrow> string \<Rightarrow> task_error + task" where
  "service_get T tid = (case repo_get T tid of None \<Rightarrow> Inl (TaskNotFound tid) | Some t \<Rightarrow> Inr t)"

text \<open>The fields of a new task as \<open>add\<close> takes them.\<close>

record new_task =
  nt_description :: string
  nt_acceptance :: string
  nt_implementation :: string
  nt_validation :: string
  nt_scope :: string
  nt_unresolved :: string
  nt_depends_on :: string

definition first_unknown :: "table \<Rightarrow> string list \<Rightarrow> string option" where
  "first_unknown T deps = find_first (\<lambda>dep. repo_get T dep = None) deps"

definition service_add ::
  "(string \<Rightarrow> string option) \<Rightarrow> string \<Rightarrow> string \<Rightarrow> table \<Rightarrow> string \<Rightarrow> string \<Rightarrow> new_task \<Rightarrow>
     task_error + task \<times> table" where
  "service_add root_of new_id now T path raw_title nt =
     (let ttl = strip raw_title; deps = split_deps (nt_depends_on nt) in
      if ttl = [] then Inl EmptyTitle
      else (case first_unknown T deps of
          Some dep \<Rightarrow> Inl (UnknownDependency dep)
        | None \<Rightarrow>
            (case find_first (\<lambda>dep. would_create_cycle (repo_list_all T) new_id dep) deps of
               Some dep \<Rightarrow> Inl (DependencyCycle new_id dep)
             | None \<Rightarrow>
                 (case root_of path of
                    None \<Rightarrow> Inl (PathMissing path)
                  | Some proot \<Rightarrow>
                      (let row = \<lparr>task_id = new_id, project_root = proot, session_ref = None,
                             title = ttl, description = nt_description nt, status = PENDING,
                             acceptance = nt_acceptance nt, implementation = nt_implementation nt,
                             validation = nt_validation nt, scope = nt_scope nt,
                             unresolved = nt_unresolved nt, depends_on = join '','' deps,
                             blockers = [], evidence = [], created_at = now, updated_at = now\<rparr>
                       in (case repo_create row T of
                             Inl e \<Rightarrow> Inl e
                           | Inr T' \<Rightarrow> Inr (row, T')))))))"

text \<open>\<open>_validate_dependencies\<close>: the rows of the task's own project, the task's own row with no
  dependencies.\<close>

definition validate_dependencies :: "table \<Rightarrow> task \<Rightarrow> string \<Rightarrow> task_error + string" where
  "validate_dependencies T t raw =
     (let deps = split_deps raw in
      (case first_unknown T deps of
         Some dep \<Rightarrow> Inl (UnknownDependency dep)
       | None \<Rightarrow>
           (let rows = map (\<lambda>r. if task_id r = task_id t then r\<lparr>depends_on := []\<rparr> else r)
                         (repo_list T (project_root t))
            in (case find_first (\<lambda>dep. would_create_cycle rows (task_id t) dep) deps of
                  Some dep \<Rightarrow> Inl (DependencyCycle (task_id t) dep)
                | None \<Rightarrow> Inr (join '','' deps)))))"

definition apply_status :: "table \<Rightarrow> task \<Rightarrow> string \<Rightarrow> task_error + string" where
  "apply_status T t raw =
     (let st = lower (strip raw) in
      if st \<notin> VALID_STATUSES then Inl (UnknownStatus st)
      else if st = IN_PROGRESS \<and> dependencies_ready t (by_id (repo_list T (project_root t))) \<noteq> []
      then Inl (WaitingOn (task_id t) (dependencies_ready t (by_id (repo_list T (project_root t)))))
      else if st = DONE \<and> completion_blockers t \<noteq> []
      then Inl (NotSatisfied (task_id t) (completion_blockers t))
      else Inr st)"

text \<open>The optional fields of \<open>update\<close>; \<open>u_blocker\<close> lands in the column \<open>blockers\<close>.\<close>

record updates =
  u_title :: "string option"
  u_description :: "string option"
  u_status :: "string option"
  u_blocker :: "string option"
  u_acceptance :: "string option"
  u_implementation :: "string option"
  u_validation :: "string option"
  u_scope :: "string option"
  u_unresolved :: "string option"
  u_depends_on :: "string option"

definition no_updates :: updates where
  "no_updates = \<lparr>u_title = None, u_description = None, u_status = None, u_blocker = None,
     u_acceptance = None, u_implementation = None, u_validation = None, u_scope = None,
     u_unresolved = None, u_depends_on = None\<rparr>"

definition upd :: "string option \<Rightarrow> string \<Rightarrow> string" where
  "upd new old = (case new of Some v \<Rightarrow> v | None \<Rightarrow> old)"

definition apply_updates :: "updates \<Rightarrow> string option \<Rightarrow> string option \<Rightarrow> string \<Rightarrow> task \<Rightarrow> task" where
  "apply_updates u deps st now t =
     t\<lparr>title := upd (u_title u) (title t), description := upd (u_description u) (description t),
       status := upd st (status t), acceptance := upd (u_acceptance u) (acceptance t),
       implementation := upd (u_implementation u) (implementation t),
       validation := upd (u_validation u) (validation t), scope := upd (u_scope u) (scope t),
       unresolved := upd (u_unresolved u) (unresolved t), depends_on := upd deps (depends_on t),
       blockers := upd (u_blocker u) (blockers t), updated_at := now\<rparr>"

definition service_update ::
  "string \<Rightarrow> table \<Rightarrow> string \<Rightarrow> updates \<Rightarrow> task_error + table" where
  "service_update now T tid u =
     (case service_get T tid of
        Inl e \<Rightarrow> Inl e
      | Inr t \<Rightarrow>
          if u = no_updates then Inl NoFields
          else (case (case u_depends_on u of
                        None \<Rightarrow> Inr None
                      | Some raw \<Rightarrow> (case validate_dependencies T t raw of
                                       Inl e \<Rightarrow> Inl e | Inr d \<Rightarrow> Inr (Some d))) of
                  Inl e \<Rightarrow> Inl e
                | Inr deps \<Rightarrow>
                    (case (case u_status u of
                             None \<Rightarrow> Inr None
                           | Some raw \<Rightarrow> (case apply_status T t raw of
                                            Inl e \<Rightarrow> Inl e | Inr s \<Rightarrow> Inr (Some s))) of
                       Inl e \<Rightarrow> Inl e
                     | Inr st \<Rightarrow> Inr (repo_update tid (apply_updates u deps st now) T))))"

definition status_change :: "string \<Rightarrow> string \<Rightarrow> task \<Rightarrow> task" where
  "status_change st now t = t\<lparr>status := st, updated_at := now\<rparr>"

definition service_cancel :: "string \<Rightarrow> table \<Rightarrow> string \<Rightarrow> task_error + table" where
  "service_cancel now T tid =
     (case service_get T tid of
        Inl e \<Rightarrow> Inl e
      | Inr t \<Rightarrow>
          if status t = DONE then Inl (AlreadyDone tid)
          else Inr (repo_update tid (status_change CANCELLED now) T))"

definition service_retry :: "string \<Rightarrow> table \<Rightarrow> string \<Rightarrow> task_error + table" where
  "service_retry now T tid =
     (case service_get T tid of
        Inl e \<Rightarrow> Inl e
      | Inr t \<Rightarrow>
          if status t \<noteq> BLOCKED \<and> status t \<noteq> CANCELLED then Inl (CannotRetry (status t))
          else Inr (repo_update tid (\<lambda>r. (status_change PENDING now r)\<lparr>blockers := []\<rparr>) T))"

definition service_resolve_blocker ::
  "string \<Rightarrow> table \<Rightarrow> string \<Rightarrow> string \<Rightarrow> task_error + table" where
  "service_resolve_blocker now T tid raw =
     (case service_get T tid of
        Inl e \<Rightarrow> Inl e
      | Inr t \<Rightarrow>
          (let ev = strip raw in
           if ev = [] then Inl EmptyEvidence
           else Inr (repo_update tid
                  (\<lambda>r. r\<lparr>evidence := strip_chars (\<lambda>c. c = CHR '';'') (evidence t @ '';'' @ ev),
                         updated_at := now\<rparr>) T)))"

text \<open>\<open>blockers\<close>: the open tasks of a project that wait on something.\<close>

record blocker_row =
  br_id :: string
  br_title :: string
  br_status :: string
  br_blocker :: "string option"
  br_waiting_on :: "string list"

definition service_blockers :: "table \<Rightarrow> string \<Rightarrow> blocker_row list" where
  "service_blockers T proot =
     (let ts = repo_list T proot; ids = by_id ts in
      concat (map (\<lambda>t.
        if status t = DONE \<or> status t = CANCELLED then []
        else (let missing = dependencies_ready t ids in
              if status t = BLOCKED \<or> missing \<noteq> []
              then [\<lparr>br_id = task_id t, br_title = title t, br_status = status t,
                     br_blocker = (if blockers t = [] then None else Some (blockers t)),
                     br_waiting_on = missing\<rparr>]
              else [])) ts))"

section \<open>The done-when contract\<close>

lemma all_satisfied_iff:
  "length (filter snd items) = length items \<longleftrightarrow> list_all snd items"
  by (rule length_filter_all)

lemma unsatisfied_reason_Nil [simp]:
  "unsatisfied_reason g (group_report_of items) = [] \<longleftrightarrow> list_all snd items"
proof -
  have "length items - length (filter snd items) = 0 \<longleftrightarrow> length (filter snd items) = length items"
    by (metis diff_is_0_eq diff_self_eq_0 le_antisym length_filter_le)
  then have "length items - length (filter snd items) = 0 \<longleftrightarrow> list_all snd items"
    by (simp only: all_satisfied_iff)
  then show ?thesis
    by (simp only: unsatisfied_reason_def group_report_of_def Let_def group_report.simps) simp
qed

lemma group_ok_iff [simp]: "gr_ok (group_report_of items) \<longleftrightarrow> items \<noteq> [] \<and> list_all snd items"
  by (simp add: group_report_of_def Let_def all_satisfied_iff)

lemma gr_total_of [simp]: "gr_total (group_report_of items) = length items"
  by (simp add: group_report_of_def Let_def)

lemma completion_contract: "completion_blockers t = [] \<longleftrightarrow> can_complete (done_when_report t)"
  by (auto simp: completion_blockers_def done_when_report_def Let_def)

text \<open>
  C11. The list of reasons and the verdict agree: a task has no completion blocker exactly when
  its done-when report says it can complete, which is when acceptance and validation criteria
  exist, every criterion of the four groups is marked \<open>[x]\<close> and nothing is unresolved.
\<close>

theorem completion_blockers_sound:
  "(completion_blockers t = [] \<longleftrightarrow> can_complete (done_when_report t)) \<and>
   (can_complete (done_when_report t) \<longleftrightarrow>
      parse_criteria (acceptance t) \<noteq> [] \<and> parse_criteria (validation t) \<noteq> [] \<and>
      list_all snd (parse_criteria (acceptance t)) \<and>
      list_all snd (parse_criteria (implementation t)) \<and>
      list_all snd (parse_criteria (validation t)) \<and>
      list_all snd (parse_criteria (scope t)) \<and>
      criteria_lines (unresolved t) = [])"
  by (auto simp: completion_blockers_def done_when_report_def Let_def)

section \<open>The cycle check\<close>

text \<open>The dependency relation of a list of rows: the specification of the edges.\<close>

definition dep_rel :: "task list \<Rightarrow> (string \<times> string) set" where
  "dep_rel ts = {(task_id t, d) |t d. t \<in> set ts \<and> d \<in> set (split_dependencies t)}"

definition edge_rel :: "edges \<Rightarrow> (string \<times> string) set" where
  "edge_rel es = {(x, d). d \<in> set (deps_of es x)}"

lemma edges_fold:
  "dict_get (foldl (\<lambda>d t. dict_set (task_id t) (f t) d) es ts) x =
     (case find_first (\<lambda>t. task_id t = x) (rev ts) of Some t \<Rightarrow> Some (f t) | None \<Rightarrow> dict_get es x)"
  by (induction ts arbitrary: es) (auto simp: find_first_append split: option.splits)

lemma edge_rel_edges_of:
  assumes "distinct (map task_id ts)"
  shows "edge_rel (edges_of ts) = dep_rel ts"
proof -
  have "deps_of (edges_of ts) (task_id t) = split_dependencies t" if "t \<in> set ts" for t
  proof (cases "find_first (\<lambda>s. task_id s = task_id t) (rev ts)")
    case None
    with that show ?thesis by (auto simp: find_first_None)
  next
    case (Some s)
    then have "s \<in> set ts" "task_id s = task_id t" by (auto dest: find_first_Some)
    with that assms have "s = t" by (metis distinct_map inj_onD)
    with Some show ?thesis by (simp add: deps_of_def edges_of_def edges_fold)
  qed
  moreover have "\<exists>t \<in> set ts. task_id t = x" if "deps_of (edges_of ts) x \<noteq> []" for x
    using that by (auto simp: deps_of_def edges_of_def edges_fold split: option.splits
        dest!: find_first_Some)
  ultimately have "y \<in> set (deps_of (edges_of ts) x) \<longleftrightarrow>
      (\<exists>t \<in> set ts. task_id t = x \<and> y \<in> set (split_dependencies t))" for x y
    by (metis empty_iff list.set(1))
  then show ?thesis by (auto simp: edge_rel_def dep_rel_def)
qed

lemma reach_loop_Nil [simp]: "reach_loop es [] s = s"
  by (simp add: reach_loop.simps)

lemma reach_loop_snoc [simp]:
  "reach_loop es (r @ [c]) s =
     (if c \<in> s then reach_loop es r s else reach_loop es (r @ deps_of es c) (insert c s))"
  by (subst reach_loop.simps) (simp add: Let_def)

lemma reach_loop_stack_induct [case_names empty seen new]:
  assumes "\<And>s. P [] s"
    and "\<And>r c s. c \<in> s \<Longrightarrow> P r s \<Longrightarrow> P (r @ [c]) s"
    and "\<And>r c s. c \<notin> s \<Longrightarrow> P (r @ deps_of es c) (insert c s) \<Longrightarrow> P (r @ [c]) s"
  shows "P f s"
proof -
  have "e = es \<Longrightarrow> P f s" for e
  proof (induction e f s rule: reach_loop.induct)
    case (1 e f s)
    show ?case
    proof (cases f rule: rev_cases)
      case Nil
      then show ?thesis using assms(1) by simp
    next
      case (snoc r c)
      then have f: "f \<noteq> []" "c = last f" "r = butlast f" by simp_all
      show ?thesis
        unfolding snoc
      proof (cases "c \<in> s")
        case True
        then show "P (r @ [c]) s" by (rule assms(2)) (rule 1(1) [OF f True 1(3)])
      next
        case False
        then show "P (r @ [c]) s"
          by (rule assms(3)) (use 1(2) [OF f False 1(3)] 1(3) in simp)
      qed
    qed
  qed
  then show ?thesis by simp
qed

text \<open>The loop returns the closure of what it has seen and still has to visit.\<close>

lemma reach_loop_correct:
  assumes "edge_rel es `` s \<subseteq> s \<union> set f"
  shows "s \<union> set f \<subseteq> reach_loop es f s \<and> edge_rel es `` reach_loop es f s \<subseteq> reach_loop es f s"
  using assms
proof (induction f s rule: reach_loop_stack_induct [where es = es])
  case (seen r c s)
  then show ?case by auto
next
  case (new r c s)
  have "edge_rel es `` insert c s \<subseteq> insert c s \<union> set (r @ deps_of es c)"
    using new.prems by (auto simp: edge_rel_def)
  with new show ?case by auto
qed simp

lemma reach_loop_sound: "reach_loop es f s \<subseteq> s \<union> (edge_rel es)\<^sup>* `` set f"
proof (induction f s rule: reach_loop_stack_induct [where es = es])
  case (seen r c s)
  then show ?case by auto
next
  case (new r c s)
  have "(c, x) \<in> (edge_rel es)\<^sup>*" if "d \<in> set (deps_of es c)" "(d, x) \<in> (edge_rel es)\<^sup>*" for d x
    using that by (intro converse_rtrancl_into_rtrancl [of c d]) (simp_all add: edge_rel_def)
  with new show ?case by fastforce
qed simp

lemma reach_loop_reachable: "reach_loop es [d] {} = (edge_rel es)\<^sup>* `` {d}"
proof
  show "reach_loop es [d] {} \<subseteq> (edge_rel es)\<^sup>* `` {d}"
    using reach_loop_sound [of es "[d]" "{}"] by simp
  have d: "d \<in> reach_loop es [d] {}"
    and cl: "edge_rel es `` reach_loop es [d] {} \<subseteq> reach_loop es [d] {}"
    using reach_loop_correct [of es "{}" "[d]"] by simp_all
  have "x \<in> reach_loop es [d] {}" if "(d, x) \<in> (edge_rel es)\<^sup>*" for x
    using that
  proof (induction rule: rtrancl_induct)
    case base
    show ?case by (rule d)
  next
    case (step y z)
    then show ?case using cl by auto
  qed
  then show "(edge_rel es)\<^sup>* `` {d} \<subseteq> reach_loop es [d] {}" by auto
qed

lemma would_create_cycle_iff:
  assumes "distinct (map task_id ts)"
  shows "would_create_cycle ts x d \<longleftrightarrow> (d, x) \<in> (dep_rel ts)\<^sup>*"
  using assms by (auto simp: would_create_cycle_def reach_loop_reachable edge_rel_edges_of)

section \<open>What the service keeps\<close>

lemma split_deps_join [simp]: "split_deps (join '','' (split_deps raw)) = split_deps raw"
proof (cases "split_deps raw = []")
  case True
  then show ?thesis by (simp add: split_deps_def strip_def lstrip_def rstrip_def)
next
  case False
  have "\<forall>x \<in> set (split_deps raw). CHR '','' \<notin> set x"
    by (auto simp: split_deps_def dest!: subsetD [OF set_strip] split_on_no_sep)
  then have "split_on (CHR '','') (join '','' (split_deps raw)) = split_deps raw"
    by (rule split_on_join [OF False])
  moreover have "strip x = x \<and> x \<noteq> []" if "x \<in> set (split_deps raw)" for x
    using that by (auto simp: split_deps_def)
  then have "filter (\<lambda>d. d \<noteq> []) (map strip (split_deps raw)) = split_deps raw"
    by (simp add: map_idI)
  ultimately show ?thesis
    by (simp add: split_deps_def [of "join '','' (split_deps raw)"])
qed

lemma rtrancl_to_source:
  assumes "(x, t) \<in> (r \<union> {t} \<times> D)\<^sup>*"
  shows "(x, t) \<in> r\<^sup>*"
  using assms
proof (induction rule: converse_rtrancl_induct)
  case (step y z)
  then show ?case by (cases "y = t") (auto intro: converse_rtrancl_into_rtrancl)
qed simp

lemma acyclic_add_edges:
  assumes "finite D" and "acyclic r" and "\<And>d. d \<in> D \<Longrightarrow> (d, t) \<notin> r\<^sup>*"
  shows "acyclic (r \<union> {t} \<times> D)"
  using assms
proof (induction D)
  case (insert d D)
  have "(d, t) \<notin> (r \<union> {t} \<times> D)\<^sup>*"
    using insert.prems(2) [of d] rtrancl_to_source [of d t r D] by auto
  moreover have "r \<union> {t} \<times> insert d D = insert (t, d) (r \<union> {t} \<times> D)" by auto
  ultimately show ?case using insert by simp
qed simp

definition in_project :: "string \<Rightarrow> table \<Rightarrow> table" where
  "in_project p T = filter (\<lambda>t. project_root t = p) T"

definition table_ok :: "table \<Rightarrow> bool" where
  "table_ok T \<longleftrightarrow> distinct (map task_id T) \<and> (\<forall>t \<in> set T. status t \<in> VALID_STATUSES) \<and>
     (\<forall>p. acyclic (dep_rel (in_project p T)))"

lemma dep_rel_Nil [simp]: "dep_rel [] = {}"
  by (simp add: dep_rel_def)

lemma dep_rel_Cons [simp]:
  "dep_rel (t # ts) = {task_id t} \<times> set (split_dependencies t) \<union> dep_rel ts"
  by (auto simp: dep_rel_def)

lemma dep_rel_append [simp]: "dep_rel (ts @ us) = dep_rel ts \<union> dep_rel us"
  by (induction ts) auto

lemma dep_rel_set: "set ts = set us \<Longrightarrow> dep_rel ts = dep_rel us"
  by (simp add: dep_rel_def)

lemma dep_rel_mono: "set ts \<subseteq> set us \<Longrightarrow> dep_rel ts \<subseteq> dep_rel us"
  by (auto simp: dep_rel_def)

lemma distinct_repo_list_all [simp]:
  "distinct (map task_id (repo_list_all T)) = distinct (map task_id T)"
  by (simp add: repo_list_all_def distinct_map)

lemma set_repo_list_all [simp]: "set (repo_list_all T) = set T"
  by (simp add: repo_list_all_def)

lemma set_repo_list [simp]: "set (repo_list T p) = set (in_project p T)"
  by (simp add: repo_list_def in_project_def)

lemma table_ok_same_ids:
  assumes "table_ok T" and "map task_id T' = map task_id T"
    and "\<forall>t \<in> set T'. status t \<in> VALID_STATUSES" and "\<And>p. acyclic (dep_rel (in_project p T'))"
  shows "table_ok T'"
  using assms by (simp add: table_ok_def)

text \<open>An update that touches neither the identifier nor the project nor the dependencies.\<close>

lemma dep_rel_repo_update:
  assumes "\<And>t. task_id (f t) = task_id t" "\<And>t. project_root (f t) = project_root t"
    "\<And>t. depends_on (f t) = depends_on t"
  shows "dep_rel (in_project p (repo_update tid f T)) = dep_rel (in_project p T)"
proof -
  have "split_dependencies (f t) = split_dependencies t" for t
    by (simp add: split_dependencies_def assms)
  then show ?thesis
    by (induction T) (simp_all add: in_project_def repo_update_def assms)
qed

lemma repo_update_ids:
  "(\<And>t. task_id (f t) = task_id t) \<Longrightarrow> map task_id (repo_update tid f T) = map task_id T"
  by (simp add: repo_update_def)

lemma table_ok_repo_update:
  assumes "table_ok T" and "\<And>t. task_id (f t) = task_id t"
    and "\<And>t. project_root (f t) = project_root t" and "\<And>t. depends_on (f t) = depends_on t"
    and "\<And>t. t \<in> set T \<Longrightarrow> status (f t) \<in> VALID_STATUSES"
  shows "table_ok (repo_update tid f T)"
proof (rule table_ok_same_ids [OF assms(1)])
  show "map task_id (repo_update tid f T) = map task_id T"
    by (rule repo_update_ids) (rule assms(2))
  show "\<forall>t \<in> set (repo_update tid f T). status t \<in> VALID_STATUSES"
    using assms(1,5) by (auto simp: repo_update_def table_ok_def)
  show "acyclic (dep_rel (in_project p (repo_update tid f T)))" for p
    using assms(1) by (subst dep_rel_repo_update) (simp_all add: assms table_ok_def)
qed

lemma service_get_Inr: "service_get T tid = Inr t \<Longrightarrow> t \<in> set T \<and> task_id t = tid"
  by (auto simp: service_get_def repo_get_def split: option.splits dest: find_first_Some)

lemma validate_dependencies_Inr:
  assumes "validate_dependencies T t raw = Inr d" and "distinct (map task_id T)"
  shows "split_deps d = split_deps raw"
    and "\<And>x. x \<in> set (split_deps raw) \<Longrightarrow> (x, task_id t) \<notin>
      (dep_rel (in_project (project_root t)
        (repo_update (task_id t) (\<lambda>r. r\<lparr>depends_on := []\<rparr>) T)))\<^sup>*"
proof -
  let ?rows = "map (\<lambda>r. if task_id r = task_id t then r\<lparr>depends_on := []\<rparr> else r)
    (repo_list T (project_root t))"
  from assms show "split_deps d = split_deps raw"
    by (auto simp: validate_dependencies_def Let_def split: option.splits)
  have dist: "distinct (map task_id ?rows)"
    using assms(2) by (simp add: repo_list_def repo_list_all_def distinct_map comp_def inj_on_def if_distrib cong: if_cong)
  have "set ?rows = set (in_project (project_root t)
      (repo_update (task_id t) (\<lambda>r. r\<lparr>depends_on := []\<rparr>) T))"
    by (auto simp: in_project_def repo_update_def)
  note rel = dep_rel_set [OF this]
  fix x
  assume "x \<in> set (split_deps raw)"
  with assms(1) have "\<not> would_create_cycle ?rows (task_id t) x"
    by (auto simp: validate_dependencies_def Let_def find_first_None split: option.splits)
  then show "(x, task_id t) \<notin> (dep_rel (in_project (project_root t)
        (repo_update (task_id t) (\<lambda>r. r\<lparr>depends_on := []\<rparr>) T)))\<^sup>*"
    by (simp only: would_create_cycle_iff [OF dist] rel not_False_eq_True)
qed

abbreviation cleared :: "string \<Rightarrow> table \<Rightarrow> table" where
  "cleared tid T \<equiv> repo_update tid (\<lambda>r. r\<lparr>depends_on := []\<rparr>) T"

lemma dep_rel_new_deps:
  assumes "distinct (map task_id T)" and "t \<in> set T" and "task_id t = tid"
    and "\<And>r. task_id (f r) = task_id r" and "\<And>r. project_root (f r) = project_root r"
    and "\<And>r. split_dependencies (f r) = ds"
  shows "dep_rel (in_project p (repo_update tid f T)) \<subseteq>
    dep_rel (in_project p (cleared tid T)) \<union>
    (if p = project_root t then {tid} \<times> set ds else {})"
proof (rule subrelI)
  fix x d
  assume "(x, d) \<in> dep_rel (in_project p (repo_update tid f T))"
  then obtain r where r: "r \<in> set T" "project_root r = p" "task_id r = x"
      "d \<in> set (split_dependencies (if x = tid then f r else r))"
    unfolding dep_rel_def in_project_def repo_update_def using assms(4,5) by force
  show "(x, d) \<in> dep_rel (in_project p (cleared tid T)) \<union>
    (if p = project_root t then {tid} \<times> set ds else {})"
  proof (cases "x = tid")
    case True
    with r assms have "r = t" by (metis distinct_map inj_onD)
    with True r assms(6) show ?thesis by simp
  next
    case False
    with r show ?thesis by (force simp: dep_rel_def in_project_def repo_update_def)
  qed
qed

lemma cleared_acyclic:
  assumes "table_ok T"
  shows "acyclic (dep_rel (in_project p (cleared tid T)))"
proof -
  have "split_dependencies (r\<lparr>depends_on := []\<rparr>) = []" for r :: task
    by (simp add: split_dependencies_def split_deps_def strip_def lstrip_def rstrip_def)
  then have "dep_rel (in_project p (cleared tid T)) \<subseteq> dep_rel (in_project p T)"
    by (induction T) (auto simp: in_project_def repo_update_def)
  with assms show ?thesis by (auto simp: table_ok_def intro: acyclic_subset)
qed

lemma update_acyclic:
  assumes ok: "table_ok T" and t: "t \<in> set T" and f: "\<And>r. task_id (f r) = task_id r"
      "\<And>r. project_root (f r) = project_root r" "\<And>r. depends_on (f r) = d"
    and v: "validate_dependencies T t raw = Inr d"
  shows "acyclic (dep_rel (in_project p (repo_update (task_id t) f T)))"
proof -
  let ?r = "dep_rel (in_project p (cleared (task_id t) T))"
  have dist: "distinct (map task_id T)" using ok by (simp add: table_ok_def)
  have ds: "split_dependencies (f r) = split_deps raw" for r
    using validate_dependencies_Inr(1) [OF v dist] by (simp add: split_dependencies_def f)
  have "acyclic (?r \<union> (if p = project_root t then {task_id t} \<times> set (split_deps raw) else {}))"
    using cleared_acyclic [OF ok] validate_dependencies_Inr(2) [OF v dist]
    by (auto intro: acyclic_add_edges)
  then show ?thesis
    by (rule acyclic_subset) (rule dep_rel_new_deps [OF dist t refl f(1,2) ds])
qed

lemma apply_status_valid: "apply_status T t raw = Inr st \<Longrightarrow> st \<in> VALID_STATUSES"
  by (auto simp: apply_status_def Let_def split: if_splits)

lemma apply_updates_sel [simp]:
  "task_id (apply_updates u d st now t) = task_id t"
  "project_root (apply_updates u d st now t) = project_root t"
  "status (apply_updates u d st now t) = upd st (status t)"
  "depends_on (apply_updates u d st now t) = upd d (depends_on t)"
  by (simp_all add: apply_updates_def)

lemma service_update_Inr:
  assumes "service_update now T tid u = Inr T'"
  obtains t d st where "service_get T tid = Inr t"
    and "T' = repo_update tid (apply_updates u d st now) T"
    and "\<And>x. d = Some x \<Longrightarrow> \<exists>raw. u_depends_on u = Some raw \<and> validate_dependencies T t raw = Inr x"
    and "\<And>s. st = Some s \<Longrightarrow> \<exists>raw. u_status u = Some raw \<and> apply_status T t raw = Inr s"
  using assms
  by (auto simp: service_update_def split: sum.splits option.splits if_splits)

lemma service_update_ok:
  assumes "table_ok T" and "service_update now T tid u = Inr T'"
  shows "table_ok T'"
proof -
  obtain t d st where get: "service_get T tid = Inr t"
    and T': "T' = repo_update tid (apply_updates u d st now) T"
    and d: "\<And>x. d = Some x \<Longrightarrow> \<exists>raw. u_depends_on u = Some raw \<and> validate_dependencies T t raw = Inr x"
    and st: "\<And>s. st = Some s \<Longrightarrow> \<exists>raw. u_status u = Some raw \<and> apply_status T t raw = Inr s"
    using service_update_Inr [OF assms(2)] by metis
  have t: "t \<in> set T" "task_id t = tid" using service_get_Inr [OF get] by auto
  have valid: "upd st (status r) \<in> VALID_STATUSES" if "r \<in> set T" for r
    using that st assms(1) apply_status_valid
    by (cases st) (auto simp: upd_def table_ok_def)
  show ?thesis
  proof (cases d)
    case None
    then show ?thesis
      unfolding T' using assms(1) valid
      by (intro table_ok_repo_update) (simp_all add: upd_def)
  next
    case (Some x)
    then obtain raw where "validate_dependencies T t raw = Inr x" using d by blast
    then have "acyclic (dep_rel (in_project p T'))" for p
      unfolding T' t(2) [symmetric]
      by (intro update_acyclic [OF assms(1) t(1)]) (simp_all add: Some upd_def)
    moreover have "map task_id T' = map task_id T" unfolding T' by (rule repo_update_ids) simp
    moreover have "\<forall>r \<in> set T'. status r \<in> VALID_STATUSES"
      using valid assms(1) by (auto simp: T' repo_update_def table_ok_def)
    ultimately show ?thesis using table_ok_same_ids [OF assms(1)] by blast
  qed
qed

lemma service_add_ok:
  assumes "table_ok T" and "service_add root_of new_id now T path ttl nt = Inr (row, T')"
  shows "table_ok T'"
proof -
  let ?ds = "split_deps (nt_depends_on nt)"
  have dist: "distinct (map task_id T)" using assms(1) by (simp add: table_ok_def)
  from assms(2) have row: "T' = T @ [row]" "task_id row = new_id" "new_id \<notin> task_id ` set T"
      "status row = PENDING" "depends_on row = join '','' ?ds"
    and safe: "\<And>x. x \<in> set ?ds \<Longrightarrow> \<not> would_create_cycle (repo_list_all T) new_id x"
    by (auto simp: service_add_def repo_create_def Let_def find_first_None
        split: if_splits option.splits)
  have "acyclic (dep_rel (in_project p T'))" for p
  proof (cases "p = project_root row")
    case True
    have "dep_rel (in_project p T) \<subseteq> dep_rel (repo_list_all T)"
      by (rule dep_rel_mono) (auto simp: in_project_def)
    then have "(x, new_id) \<notin> (dep_rel (in_project p T))\<^sup>*" if "x \<in> set ?ds" for x
      using safe [OF that] dist by (auto simp: would_create_cycle_iff dest: rtrancl_mono [THEN subsetD])
    then have "acyclic (dep_rel (in_project p T) \<union> {new_id} \<times> set ?ds)"
      using assms(1) by (intro acyclic_add_edges) (auto simp: table_ok_def)
    then show ?thesis
      by (simp add: row True in_project_def split_dependencies_def)
  next
    case False
    then show ?thesis using assms(1) by (simp add: row in_project_def table_ok_def)
  qed
  then show ?thesis
    using assms(1) row by (auto simp: table_ok_def VALID_STATUSES_def)
qed

text \<open>The operations of the service as messages; a refused one leaves the table as it was.\<close>

datatype task_op =
    OpAdd string string string string new_task
  | OpUpdate string string updates
  | OpCancel string string
  | OpRetry string string
  | OpResolve string string string
  | OpDelete string

definition accepted :: "table \<Rightarrow> task_error + table \<Rightarrow> table" where
  "accepted T r = (case r of Inl e \<Rightarrow> T | Inr T' \<Rightarrow> T')"

fun task_step :: "(string \<Rightarrow> string option) \<Rightarrow> task_op \<Rightarrow> table \<Rightarrow> table" where
  "task_step root_of (OpAdd new_id now path ttl nt) T =
     accepted T (map_sum id snd (service_add root_of new_id now T path ttl nt))"
| "task_step root_of (OpUpdate now tid u) T = accepted T (service_update now T tid u)"
| "task_step root_of (OpCancel now tid) T = accepted T (service_cancel now T tid)"
| "task_step root_of (OpRetry now tid) T = accepted T (service_retry now T tid)"
| "task_step root_of (OpResolve now tid ev) T = accepted T (service_resolve_blocker now T tid ev)"
| "task_step root_of (OpDelete tid) T = fst (repo_delete tid T)"

lemma delete_ok: "table_ok T \<Longrightarrow> table_ok (fst (repo_delete tid T))"
proof -
  assume ok: "table_ok T"
  have "acyclic (dep_rel (in_project p (filter (\<lambda>t. task_id t \<noteq> tid) T)))" for p
    by (rule acyclic_subset [of "dep_rel (in_project p T)"])
      (use ok in \<open>auto simp: table_ok_def in_project_def intro!: dep_rel_mono\<close>)
  with ok show "table_ok (fst (repo_delete tid T))"
    by (auto simp: table_ok_def repo_delete_def Let_def distinct_map inj_on_def)
qed

lemma table_ok_status: "table_ok T \<Longrightarrow> t \<in> set T \<Longrightarrow> status t \<in> VALID_STATUSES"
  by (simp add: table_ok_def)

lemma accepted_ok: "table_ok T \<Longrightarrow> (\<And>T'. r = Inr T' \<Longrightarrow> table_ok T') \<Longrightarrow> table_ok (accepted T r)"
  by (cases r) (simp_all add: accepted_def)

lemma cancel_ok:
  "table_ok T \<Longrightarrow> service_cancel now T tid = Inr T' \<Longrightarrow> table_ok T'"
  by (auto simp: service_cancel_def status_change_def VALID_STATUSES_def
      split: sum.splits if_splits intro!: table_ok_repo_update)

lemma retry_ok:
  "table_ok T \<Longrightarrow> service_retry now T tid = Inr T' \<Longrightarrow> table_ok T'"
  by (auto simp: service_retry_def status_change_def VALID_STATUSES_def
      split: sum.splits if_splits intro!: table_ok_repo_update)

lemma resolve_ok:
  "table_ok T \<Longrightarrow> service_resolve_blocker now T tid ev = Inr T' \<Longrightarrow> table_ok T'"
  by (auto simp: service_resolve_blocker_def Let_def
      split: sum.splits if_splits intro!: table_ok_repo_update dest: table_ok_status)

lemma task_step_ok:
  assumes "table_ok T"
  shows "table_ok (task_step root_of x T)"
proof (cases x)
  case (OpAdd new_id now path ttl nt)
  then show ?thesis
    using assms service_add_ok [OF assms]
    by (cases "service_add root_of new_id now T path ttl nt") (auto simp: accepted_def)
qed (auto intro!: accepted_ok delete_ok intro: assms service_update_ok cancel_ok retry_ok resolve_ok)

interpretation tasks: invariant_steps "task_step root_of" "\<lambda>_. True" table_ok for root_of
  by unfold_locales (rule task_step_ok)

lemma table_ok_Nil: "table_ok []"
  by (simp add: table_ok_def in_project_def acyclic_def)

text \<open>
  C17. The cycle check decides reachability: on rows with distinct identifiers it answers that
  \<open>x \<rightarrow> d\<close> would close a cycle exactly when the dependency edges lead from \<open>d\<close> to \<open>x\<close>.
\<close>

theorem cycle_check_decides:
  "distinct (map task_id ts) \<Longrightarrow> would_create_cycle ts x d \<longleftrightarrow> (d, x) \<in> (dep_rel ts)\<^sup>*"
  by (rule would_create_cycle_iff)

text \<open>
  C22. After any sequence of service operations on an empty table, identifiers are distinct,
  every status is one of the five, and the dependency graph of each project has no cycle.
\<close>

theorem project_graphs_stay_acyclic:
  "let T = fold (task_step root_of) ops [] in
     distinct (map task_id T) \<and> list_all (\<lambda>t. status t \<in> VALID_STATUSES) T \<and>
     (\<forall>p. acyclic (dep_rel (in_project p T)))"
  using tasks.run_inv [OF table_ok_Nil, of ops root_of]
  by (simp add: table_ok_def list_all_iff Let_def)

section \<open>What a status change requires\<close>

lemma by_id_get:
  "dict_get (by_id ts) x = find_first (\<lambda>t. task_id t = x) (rev ts)"
  by (simp add: by_id_def edges_fold [where f = "\<lambda>t. t"] split: option.splits)

lemma dependencies_ready_Nil:
  assumes "dependencies_ready t (by_id (repo_list T p)) = []" and "d \<in> set (split_dependencies t)"
  shows "\<exists>r \<in> set T. task_id r = d \<and> project_root r = p \<and> status r = DONE"
  using assms
  by (fastforce simp: dependencies_ready_def by_id_get filter_empty_conv in_project_def
      split: option.splits dest: find_first_Some)

text \<open>A row of the new table comes from the row of the old one with its identifier.\<close>

lemma repo_update_row:
  assumes "distinct (map task_id T)" and "t \<in> set T" and "t' \<in> set (repo_update tid f T)"
    and "\<And>r. task_id (f r) = task_id r" and "task_id t' = task_id t"
  shows "t' = (if task_id t = tid then f t else t)"
proof -
  obtain r where "r \<in> set T" "t' = (if task_id r = tid then f r else r)"
    using assms(3) by (auto simp: repo_update_def)
  moreover from this have "r = t"
    using assms by (metis distinct_map inj_onD)
  ultimately show ?thesis by simp
qed

lemma accepted_cases: "accepted T r = T \<or> (\<exists>T'. r = Inr T' \<and> accepted T r = T')"
  by (cases r) (auto simp: accepted_def)

lemma same_row: "distinct (map task_id T) \<Longrightarrow> t \<in> set T \<Longrightarrow> t' \<in> set T \<Longrightarrow> task_id t' = task_id t \<Longrightarrow> t' = t"
  by (metis distinct_map inj_onD)

text \<open>Only \<open>update\<close> writes \<open>done\<close> or \<open>in_progress\<close>.\<close>

lemma status_written_by_update:
  assumes "distinct (map task_id T)" and "t \<in> set T" and "t' \<in> set (task_step root_of x T)"
    and "task_id t' = task_id t" and "status t' \<noteq> status t" and "status t' = DONE \<or> status t' = IN_PROGRESS"
  obtains raw now u where "x = OpUpdate now (task_id t) u" and "u_status u = Some raw"
    and "apply_status T t raw = Inr (status t')"
proof -
  have nochange: "t' \<notin> set T" using assms same_row by metis
  have upd_row: "t' = (if task_id t = tid then f t else t)"
    if "task_step root_of x T = repo_update tid f T" "\<And>r. task_id (f r) = task_id r" for f tid
    using repo_update_row [of T t t' tid f] that assms by simp
  have "\<exists>raw now u. x = OpUpdate now (task_id t) u \<and> u_status u = Some raw \<and>
      apply_status T t raw = Inr (status t')"
  proof (cases x)
    case (OpAdd new_id now path ttl nt)
    then have "t' \<in> set T"
      using assms(2,3,4) by (auto simp: accepted_def service_add_def repo_create_def Let_def
        split: if_splits option.splits)
    with nochange show ?thesis by simp
  next
    case (OpUpdate now tid u)
    then obtain T' where T': "service_update now T tid u = Inr T'" "task_step root_of x T = T'"
      using accepted_cases [of T "service_update now T tid u"] nochange assms(3) by auto
    obtain r d st where r: "service_get T tid = Inr r"
      and eq: "T' = repo_update tid (apply_updates u d st now) T"
      and st: "\<And>s. st = Some s \<Longrightarrow> \<exists>raw. u_status u = Some raw \<and> apply_status T r raw = Inr s"
      using service_update_Inr [OF T'(1)] by metis
    have t': "t' = (if task_id t = tid then apply_updates u d st now t else t)"
      using upd_row [of tid "apply_updates u d st now"] T' eq by simp
    then have tid: "task_id t = tid" using assms(5) by (auto split: if_splits)
    moreover have "r = t" using service_get_Inr [OF r] tid assms(1,2) same_row by metis
    ultimately show ?thesis
      using t' st assms(5) OpUpdate by (cases st) (auto simp: upd_def)
  next
    case (OpCancel now tid)
    then show ?thesis
      using accepted_cases [of T "service_cancel now T tid"] nochange assms(3,5,6) upd_row
      by (auto simp: service_cancel_def status_change_def split: sum.splits if_splits)
  next
    case (OpRetry now tid)
    then show ?thesis
      using accepted_cases [of T "service_retry now T tid"] nochange assms(3,5,6) upd_row
      by (auto simp: service_retry_def status_change_def split: sum.splits if_splits)
  next
    case (OpResolve now tid ev)
    then show ?thesis
      using accepted_cases [of T "service_resolve_blocker now T tid ev"] nochange assms(3,5) upd_row
      by (auto simp: service_resolve_blocker_def Let_def split: sum.splits if_splits)
  next
    case (OpDelete tid)
    with assms(3) nochange show ?thesis by (auto simp: repo_delete_def Let_def)
  qed
  with that show thesis by blast
qed

definition sample_task :: "string \<Rightarrow> string \<Rightarrow> string \<Rightarrow> task" where
  "sample_task tid proot deps =
     \<lparr>task_id = tid, project_root = proot, session_ref = None, title = tid, description = [],
      status = PENDING, acceptance = ''[x] works'', implementation = [], validation = ''- [X] tests'',
      scope = [], unresolved = [], depends_on = deps, blockers = [], evidence = [],
      created_at = ''2026'', updated_at = ''2026''\<rparr>"

text \<open>
  C23. Whatever operation the service runs, a task becomes \<open>done\<close> only when its stored row had
  no completion blocker, and \<open>in_progress\<close> only when every dependency of it is a \<open>done\<close> task of
  its own project.
\<close>

theorem status_machine_gates:
  assumes "distinct (map task_id T)" and "t \<in> set T" and "t' \<in> set (task_step root_of x T)"
    and "task_id t' = task_id t" and "status t' \<noteq> status t"
  shows "(status t' = DONE \<longrightarrow> completion_blockers t = []) \<and>
    (status t' = IN_PROGRESS \<longrightarrow> (\<forall>d \<in> set (split_dependencies t).
       \<exists>r \<in> set T. task_id r = d \<and> project_root r = project_root t \<and> status r = DONE))"
proof (cases "status t' = DONE \<or> status t' = IN_PROGRESS")
  case True
  then obtain raw where "apply_status T t raw = Inr (status t')"
    using status_written_by_update [OF assms] by metis
  with True show ?thesis
    by (auto simp: apply_status_def Let_def split: if_splits intro: dependencies_ready_Nil)
qed auto

theorem status_machine_gates_witness:
  "completion_blockers (sample_task ''a'' ''/p'' []) = []"
proof -
  let ?t = "sample_task ''a'' ''/p'' []"
  let ?op = "OpUpdate ''now'' ''a'' (no_updates\<lparr>u_status := Some ''done''\<rparr>)"
  have "task_step Some ?op [?t] = [?t\<lparr>status := DONE, updated_at := ''now''\<rparr>]"
    by code_simp
  then show ?thesis
    using status_machine_gates [of "[?t]" ?t "?t\<lparr>status := DONE, updated_at := ''now''\<rparr>" Some ?op]
    by (simp add: sample_task_def)
qed

theorem cycle_check_decides_witness:
  "distinct (map task_id [sample_task ''a'' ''/p'' ''b'', sample_task ''b'' ''/p'' []]) \<and>
   (''a'', ''b'') \<in> (dep_rel [sample_task ''a'' ''/p'' ''b'', sample_task ''b'' ''/p'' []])\<^sup>*"
proof -
  have d: "distinct (map task_id [sample_task ''a'' ''/p'' ''b'', sample_task ''b'' ''/p'' []])"
    by code_simp
  moreover have "would_create_cycle [sample_task ''a'' ''/p'' ''b'', sample_task ''b'' ''/p'' []] ''b'' ''a''"
    by code_simp
  ultimately show ?thesis using cycle_check_decides [OF d] by blast
qed

text \<open>
  C14. \<open>_validate_dependencies\<close> looks only at the rows of the task's own project: a dependency
  on a task of another project can close a cycle through it, and \<open>update\<close> accepts it.
\<close>

theorem cross_project_cycle_accepted:
  "case service_update ''now'' [sample_task ''a'' ''/p'' ''b'', sample_task ''b'' ''/q'' []]
          ''b'' (no_updates\<lparr>u_depends_on := Some ''a''\<rparr>) of
     Inl e \<Rightarrow> False
   | Inr T \<Rightarrow> would_create_cycle T ''b'' ''a'' \<and> would_create_cycle T ''a'' ''b'' \<and>
       map split_dependencies T = [[''b''], [''a'']]"
  by code_simp

text \<open>
  C15. \<open>update\<close> checks the done-when contract against the stored row and then writes the new
  criteria with the status: one call can store a \<open>done\<close> task with unsatisfied criteria. It also
  takes a \<open>done\<close> task to \<open>cancelled\<close>, which \<open>cancel\<close> refuses.
\<close>

theorem update_bypasses_contract:
  "(case service_update ''now'' [sample_task ''a'' ''/p'' []]
           ''a'' (no_updates\<lparr>u_status := Some ''done'', u_acceptance := Some ''[ ] open''\<rparr>) of
      Inl e \<Rightarrow> False
    | Inr T \<Rightarrow> map status T = [DONE] \<and> \<not> list_all (\<lambda>t. can_complete (done_when_report t)) T) \<and>
   (let T = [(sample_task ''a'' ''/p'' [])\<lparr>status := DONE\<rparr>] in
      service_cancel ''now'' T ''a'' = Inl (AlreadyDone ''a'') \<and>
      (case service_update ''now'' T ''a'' (no_updates\<lparr>u_status := Some ''cancelled''\<rparr>) of
         Inl e \<Rightarrow> False | Inr T' \<Rightarrow> map status T' = [CANCELLED]))"
  by code_simp

end
