(* ===== verification/Completion_Gate.thy ===== *)
theory Completion_Gate
  imports Task_Graph
begin

text \<open>
  Verification evidence and the completion gate: the validation records of
  \<^verbatim>\<open>src/src/rinari/verify/records.py\<close> and
  \<^verbatim>\<open>src/src/rinari/storage/repositories/validation.py\<close>, the markers, the outcome rules of
  \<^verbatim>\<open>src/src/rinari/verify/gate.py\<close> and the service that feeds it the records of the current
  workspace revision (\<^verbatim>\<open>src/src/rinari/verify/service.py\<close>).

  The revision of a directory, the resolution of a path, fresh identifiers and the clock are
  arguments.
\<close>

section \<open>Markers\<close>

definition closed_match :: "char option \<Rightarrow> string \<Rightarrow> nat \<Rightarrow> string option" where
  "closed_match prev s n =
     (if boundary prev (head_opt s) \<and> boundary (Some (s ! (n - 1))) (head_opt (drop n s))
      then Some (take n s) else None)"

fun startswith_ci :: "string \<Rightarrow> string \<Rightarrow> bool" where
  "startswith_ci s [] = True"
| "startswith_ci [] (c # p) = False"
| "startswith_ci (x # s) (c # p) = (if lower_char x = c then startswith_ci s p else False)"

text \<open>\<open>\\bLIT\\b\<close>, without and with \<open>re.IGNORECASE\<close> (\<open>lit\<close> in lower case there).\<close>

definition re_lit :: "string \<Rightarrow> regex" where
  "re_lit lit prev s = (if startswith s lit then closed_match prev s (length lit) else None)"

definition re_lit_ci :: "string \<Rightarrow> regex" where
  "re_lit_ci lit prev s = (if startswith_ci s lit then closed_match prev s (length lit) else None)"

text \<open>\<open>\\b\\d+\\s+failed\\b\<close>.\<close>

definition re_n_failed :: regex where
  "re_n_failed prev s =
     (let ds = takeWhile is_ascii_digit s; r = drop (length ds) s;
          sp = takeWhile is_space r; r' = drop (length sp) r
      in if ds \<noteq> [] \<and> sp \<noteq> [] \<and> startswith r' ''failed''
         then closed_match prev s (length ds + length sp + 6) else None)"

text \<open>\<open>\\bfailed=\\d+(?![\\d.])\<close>.\<close>

definition re_failed_eq :: regex where
  "re_failed_eq prev s =
     (if startswith s ''failed='' \<and> boundary prev (head_opt s)
      then (let ds = takeWhile is_ascii_digit (drop 7 s) in
            if ds \<noteq> [] \<and> head_opt (drop (7 + length ds) s) \<noteq> Some (CHR ''.'')
            then Some (take (7 + length ds) s) else None)
      else None)"

definition FAILURE_MARKERS :: "regex list" where
  "FAILURE_MARKERS =
     [re_lit ''FAILED'', re_n_failed, re_failed_eq,
      re_lit ''Traceback (most recent call last)'', re_lit_ci ''build failed'',
      re_lit_ci ''error while importing'']"

definition ZERO_RUN_MARKERS :: "regex list" where
  "ZERO_RUN_MARKERS =
     [re_lit_ci ''no tests ran'', re_lit_ci ''no tests collected'', re_lit ''nothing to do'',
      re_lit ''0 passed'', re_lit_ci ''skipped all'']"

definition detect_failure_markers :: "string \<Rightarrow> string list" where
  "detect_failure_markers text =
     concat (map (\<lambda>p. case re_search p None text of Some m \<Rightarrow> [strip m] | None \<Rightarrow> [])
       FAILURE_MARKERS)"

definition detect_zero_run :: "string \<Rightarrow> bool" where
  "detect_zero_run text = list_ex (\<lambda>p. re_search p None text \<noteq> None) ZERO_RUN_MARKERS"

section \<open>Records\<close>

record validation_row =
  vr_id :: string
  vr_project :: string
  vr_session :: "string option"
  vr_kind :: string
  vr_command :: string
  vr_result :: string
  vr_summary :: string
  vr_detail :: string
  vr_artifact :: "string option"
  vr_created :: string

definition VALIDATION_KINDS :: "string list" where
  "VALIDATION_KINDS = [''test'', ''lint'', ''typecheck'', ''build'', ''schema'', ''manual'', ''custom'']"

definition VALIDATION_RESULTS :: "string list" where
  "VALIDATION_RESULTS = [''passed'', ''failed'', ''error'', ''skipped'']"

abbreviation MAX_SUMMARY_LEN :: nat where "MAX_SUMMARY_LEN \<equiv> 500"
abbreviation MAX_DETAIL_LEN :: nat where "MAX_DETAIL_LEN \<equiv> 8000"

definition clean_text :: "string \<Rightarrow> nat \<Rightarrow> string" where
  "clean_text value n = take n (strip value)"

definition nl :: string where "nl = [CHR 0x0A]"

datatype verify_error =
    UnknownKind string
  | UnknownResult string
  | BadDirectory string
  | ClaimedTaskNotFound string
  | DuplicateRecord string

definition val_insert :: "validation_row \<Rightarrow> validation_row list \<Rightarrow> verify_error + validation_row list" where
  "val_insert row R =
     (if vr_id row \<in> vr_id ` set R then Inl (DuplicateRecord (vr_id row)) else Inr (R @ [row]))"

abbreviation record_key :: "validation_row \<Rightarrow> string \<times> string" where
  "record_key r \<equiv> (vr_created r, vr_id r)"

text \<open>\<open>ORDER BY created_at DESC, id DESC LIMIT max(1, min(limit, 500))\<close>.\<close>

definition val_list ::
  "validation_row list \<Rightarrow> string \<Rightarrow> string list option \<Rightarrow> nat \<Rightarrow> validation_row list" where
  "val_list R proot kinds n =
     take (max 1 (min n 500))
       (rev (sort_key record_key
          (filter (\<lambda>r. vr_project r = proot \<and>
             (case kinds of None \<Rightarrow> True | Some ks \<Rightarrow> ks = [] \<or> vr_kind r \<in> set ks)) R)))"

definition record_validation ::
  "string \<Rightarrow> string \<Rightarrow> validation_row list \<Rightarrow> string \<Rightarrow> string \<Rightarrow> string \<Rightarrow> string \<Rightarrow> string \<Rightarrow> string \<Rightarrow>
     string option \<Rightarrow> string option \<Rightarrow> verify_error + validation_row list" where
  "record_validation new_id now R proot raw_kind raw_result command summary detail artifact session =
     (let kind = lower (strip raw_kind); result = lower (strip raw_result) in
      if kind \<notin> set VALIDATION_KINDS then Inl (UnknownKind kind)
      else if result \<notin> set VALIDATION_RESULTS then Inl (UnknownResult result)
      else val_insert
        \<lparr>vr_id = new_id, vr_project = proot, vr_session = session, vr_kind = kind,
         vr_command = strip command, vr_result = result,
         vr_summary = (let s = clean_text summary MAX_SUMMARY_LEN in
                       if s \<noteq> [] then s
                       else kind @ '' '' @ result @ '' ('' @
                            (if strip command \<noteq> [] then strip command else ''manual check'') @ '')''),
         vr_detail = clean_text detail MAX_DETAIL_LEN, vr_artifact = artifact,
         vr_created = now\<rparr> R)"

definition record_text :: "validation_row \<Rightarrow> string" where
  "record_text r = vr_summary r @ nl @ vr_detail r"

definition is_false_success :: "validation_row \<Rightarrow> bool" where
  "is_false_success r =
     (if lower (vr_result r) \<noteq> ''passed'' then False
      else detect_failure_markers (record_text r) \<noteq> [] \<or> detect_zero_run (record_text r))"

text \<open>The last record of each kind in the order of \<open>(created_at, id)\<close>.\<close>

definition latest_by_kind :: "validation_row list \<Rightarrow> (string \<times> validation_row) list" where
  "latest_by_kind records =
     foldl (\<lambda>d r. if vr_kind r \<noteq> [] then dict_set (vr_kind r) r d else d) []
       (sort_key record_key records)"

section \<open>The gate\<close>

datatype gate_outcome =
    OUTCOME_DONE
  | OUTCOME_IMPLEMENTED_UNVERIFIED
  | OUTCOME_PARTIAL
  | OUTCOME_BLOCKED
  | OUTCOME_FAILED

record gate_evidence =
  ge_id :: string
  ge_kind :: string
  ge_result :: string
  ge_summary :: string
  ge_false_success :: bool
  ge_created :: string

record GateDecision =
  outcome :: gate_outcome
  reasons :: "string list"
  gate_evidence :: "gate_evidence list"

text \<open>A done-when report with the title and identifier the service adds to it.\<close>

record task_claim =
  tc_title :: string
  tc_id :: string
  tc_report :: done_report

definition group_blockers :: "string \<Rightarrow> string \<Rightarrow> group_report \<Rightarrow> string list" where
  "group_blockers ttl grp info =
     map (\<lambda>txt. ttl @ '' ('' @ grp @ ''): '' @ take 60 txt) (take 2 (gr_missing info))"

definition claim_blockers :: "task_claim \<Rightarrow> string list" where
  "claim_blockers tc =
     (let ttl = (if tc_title tc \<noteq> [] then tc_title tc
                 else if tc_id tc \<noteq> [] then tc_id tc else ''task'');
          rep = tc_report tc
      in (if can_complete rep then [] else [ttl]) @
         group_blockers ttl ''acceptance'' (dr_acceptance rep) @
         group_blockers ttl ''implementation'' (dr_implementation rep) @
         group_blockers ttl ''validation'' (dr_validation rep) @
         group_blockers ttl ''scope'' (dr_scope rep) @
         map (\<lambda>item. ttl @ '' unresolved: '' @ take 60 item) (take 2 (dr_unresolved rep)))"

definition task_blockers :: "task_claim list \<Rightarrow> string list" where
  "task_blockers ts = concat (map claim_blockers ts)"

definition record_failed :: "validation_row \<Rightarrow> bool" where
  "record_failed r =
     (lower (vr_result r) = ''failed'' \<or> lower (vr_result r) = ''error'' \<or> is_false_success r)"

definition failure_detail :: "validation_row \<Rightarrow> string" where
  "failure_detail r =
     (if is_false_success r
      then (let ms = detect_failure_markers (record_text r);
                markers = (if ms \<noteq> [] then ms
                           else if detect_zero_run (record_text r) then [''nothing ran''] else [])
            in '' false-success markers: '' @ join '', '' (take 3 markers))
      else [])"

definition failed_kinds :: "(string \<times> validation_row) list \<Rightarrow> string list \<Rightarrow> string list" where
  "failed_kinds by_kind kinds =
     concat (map (\<lambda>k. case dict_get by_kind k of
                        None \<Rightarrow> []
                      | Some r \<Rightarrow> if record_failed r then [k @ failure_detail r] else []) kinds)"

definition evidence_rows :: "(string \<times> validation_row) list \<Rightarrow> string list \<Rightarrow> gate_evidence list" where
  "evidence_rows by_kind kinds =
     concat (map (\<lambda>k. case dict_get by_kind k of
                        None \<Rightarrow> []
                      | Some r \<Rightarrow> [\<lparr>ge_id = vr_id r, ge_kind = k, ge_result = vr_result r,
                                    ge_summary = vr_summary r,
                                    ge_false_success = is_false_success r,
                                    ge_created = vr_created r\<rparr>]) kinds)"

definition effective_kinds :: "validation_row list \<Rightarrow> string list \<Rightarrow> string list" where
  "effective_kinds records required =
     (if required = [] then sort (map fst (latest_by_kind records)) else required)"

definition evaluate_gate ::
  "validation_row list \<Rightarrow> string list \<Rightarrow> string list \<Rightarrow> string option \<Rightarrow> task_claim list \<Rightarrow> bool \<Rightarrow>
     GateDecision" where
  "evaluate_gate records required unres blocked_reason tasks require_evidence =
     (let by_kind = latest_by_kind records;
          generic = (required = []);
          kinds = effective_kinds records required;
          ev = evidence_rows by_kind kinds;
          failed = failed_kinds by_kind kinds;
          missing = filter (\<lambda>k. dict_get by_kind k = None) kinds
      in if blocked_reason \<noteq> None \<and> blocked_reason \<noteq> Some []
         then \<lparr>outcome = OUTCOME_BLOCKED,
               reasons = [''blocked: '' @ strip (the blocked_reason)], gate_evidence = ev\<rparr>
         else if unres \<noteq> [] \<or> failed \<noteq> []
         then \<lparr>outcome = OUTCOME_FAILED,
               reasons =
                 (if failed \<noteq> [] then [''failed or false-successful: '' @ join '', '' failed] else []) @
                 (if unres \<noteq> []
                  then [''unresolved failures: '' @ join '', '' (map strip unres)] else []),
               gate_evidence = ev\<rparr>
         else if require_evidence \<and> (missing \<noteq> [] \<or> generic) \<and> records = []
         then \<lparr>outcome = OUTCOME_IMPLEMENTED_UNVERIFIED,
               reasons = [''no validation evidence recorded; implementation may exist but was not demonstrated''],
               gate_evidence = ev\<rparr>
         else if missing \<noteq> []
         then \<lparr>outcome = OUTCOME_PARTIAL,
               reasons = [''missing required evidence: '' @ join '', '' missing], gate_evidence = ev\<rparr>
         else if task_blockers tasks \<noteq> []
         then \<lparr>outcome = OUTCOME_PARTIAL,
               reasons = [''task done-when unsatisfied: '' @ join '', '' (take 6 (task_blockers tasks))],
               gate_evidence = ev\<rparr>
         else \<lparr>outcome = OUTCOME_DONE,
               reasons = [''all required kinds passed: '' @ join '', '' kinds], gate_evidence = ev\<rparr>)"

section \<open>The service\<close>

definition REVISION_PREFIX :: string where
  "REVISION_PREFIX = ''rinari-workspace-revision:''"

text \<open>\<open>root_of\<close> resolves a path to an existing directory; \<open>rev_of\<close> is \<open>revision\<close>.\<close>

definition verify_record ::
  "(string \<Rightarrow> string option) \<Rightarrow> (string \<Rightarrow> string option) \<Rightarrow> string \<Rightarrow> string \<Rightarrow> validation_row list \<Rightarrow>
     string \<Rightarrow> string \<Rightarrow> string \<Rightarrow> string \<Rightarrow> string \<Rightarrow> string \<Rightarrow> verify_error + validation_row list" where
  "verify_record root_of rev_of new_id now R path kind result command summary detail =
     (case root_of path of
        None \<Rightarrow> Inl (BadDirectory path)
      | Some proot \<Rightarrow>
          (let marker = (case rev_of proot of Some v \<Rightarrow> (if v \<noteq> [] then v else ''unknown'')
                                            | None \<Rightarrow> ''unknown'')
           in record_validation new_id now R proot kind result command summary
                (REVISION_PREFIX @ marker @ nl @ detail) None None))"

definition first_line :: "string \<Rightarrow> string" where
  "first_line s = takeWhile (\<lambda>c. c \<noteq> CHR 0x0A) s"

definition fresh_records :: "string option \<Rightarrow> validation_row list \<Rightarrow> validation_row list" where
  "fresh_records current rs =
     filter (\<lambda>r. case current of
                   None \<Rightarrow> False
                 | Some v \<Rightarrow> v \<noteq> [] \<and> first_line (vr_detail r) = REVISION_PREFIX @ v) rs"

fun claims_of :: "table \<Rightarrow> string list \<Rightarrow> verify_error + task_claim list" where
  "claims_of T [] = Inr []"
| "claims_of T (tid # tids) =
     (case repo_get T tid of
        None \<Rightarrow> Inl (ClaimedTaskNotFound tid)
      | Some t \<Rightarrow>
          (case claims_of T tids of
             Inl e \<Rightarrow> Inl e
           | Inr cs \<Rightarrow> Inr (\<lparr>tc_title = (if title t \<noteq> [] then title t else tid), tc_id = task_id t,
                            tc_report = done_when_report t\<rparr> # cs)))"

definition verify_evaluate ::
  "(string \<Rightarrow> string option) \<Rightarrow> (string \<Rightarrow> string option) \<Rightarrow> table \<Rightarrow> validation_row list \<Rightarrow> string \<Rightarrow>
     string list \<Rightarrow> string list \<Rightarrow> string option \<Rightarrow> string list \<Rightarrow> bool \<Rightarrow> string list option \<Rightarrow>
     verify_error + GateDecision" where
  "verify_evaluate root_of rev_of T R path required unres blocked_reason task_ids
     require_evidence record_ids =
     (case root_of path of
        None \<Rightarrow> Inl (BadDirectory path)
      | Some proot \<Rightarrow>
          (case claims_of T task_ids of
             Inl e \<Rightarrow> Inl e
           | Inr tasks \<Rightarrow>
               (let recorded = val_list R proot None 200;
                    fresh = fresh_records (rev_of proot) recorded
                in case record_ids of
                     None \<Rightarrow> Inr (evaluate_gate fresh required unres blocked_reason tasks
                                     require_evidence)
                   | Some ids \<Rightarrow>
                       (let own = filter (\<lambda>r. vr_id r \<in> set ids) fresh in
                        if own = [] \<and> list_ex (\<lambda>r. vr_id r \<in> set ids) recorded
                        then Inr \<lparr>outcome = OUTCOME_IMPLEMENTED_UNVERIFIED,
                               reasons = [''stale evidence: the workspace changed after the checks recorded this turn; run them again''],
                               gate_evidence = []\<rparr>
                        else Inr (evaluate_gate own required unres blocked_reason tasks
                                    require_evidence)))))"

section \<open>The latest record of a kind\<close>

lemma latest_fold:
  "dict_get (foldl (\<lambda>d r. if vr_kind r \<noteq> [] then dict_set (vr_kind r) r d else d) es rs) k =
     (case find_first (\<lambda>r. vr_kind r = k \<and> k \<noteq> []) (rev rs) of Some r \<Rightarrow> Some r | None \<Rightarrow> dict_get es k)"
  by (induction rs arbitrary: es) (auto simp: find_first_append split: option.splits)

lemma find_first_sorted:
  assumes "sorted_wrt (\<lambda>x y. f y \<le> f x) xs" and "find_first p xs = Some x" and "y \<in> set xs" and "p y"
  shows "f y \<le> (f x :: 'b :: order)"
  using assms by (induction xs) (auto split: if_splits)

lemma descending: "sorted_wrt (\<lambda>x y. f y \<le> f x) (rev (sort_key f xs))"
  using sorted_sort_key [of f xs] by (simp add: sorted_wrt_rev sorted_map)

lemma latest_by_kind_get:
  "dict_get (latest_by_kind rs) k =
     find_first (\<lambda>r. vr_kind r = k \<and> k \<noteq> []) (rev (sort_key record_key rs))"
  by (simp add: latest_by_kind_def latest_fold split: option.splits)

lemma latest_by_kind_Some:
  assumes "dict_get (latest_by_kind rs) k = Some r"
  shows "r \<in> set rs" and "vr_kind r = k"
    and "\<And>r'. r' \<in> set rs \<Longrightarrow> vr_kind r' = k \<Longrightarrow> record_key r' \<le> record_key r"
proof -
  from assms have ff: "find_first (\<lambda>r. vr_kind r = k \<and> k \<noteq> []) (rev (sort_key record_key rs)) = Some r"
    by (simp add: latest_by_kind_get)
  then show "r \<in> set rs" and "vr_kind r = k" by (auto dest: find_first_Some)
  fix r' assume "r' \<in> set rs" "vr_kind r' = k"
  with find_first_sorted [OF descending ff, of r'] find_first_Some [OF ff]
  show "record_key r' \<le> record_key r" by simp
qed

text \<open>Nothing newer than a listed record is cut off by the limit.\<close>

lemma take_descending:
  assumes "sorted_wrt (\<lambda>x y. f y \<le> f x) xs" and "x \<in> set (take n xs)" and "y \<in> set xs"
    and "\<not> (f y \<le> (f x :: 'b :: order))"
  shows "y \<in> set (take n xs)"
proof (rule ccontr)
  assume "y \<notin> set (take n xs)"
  moreover have "set xs = set (take n xs) \<union> set (drop n xs)"
    by (metis append_take_drop_id set_append)
  ultimately have "y \<in> set (drop n xs)" using assms(3) by auto
  moreover have "sorted_wrt (\<lambda>x y. f y \<le> f x) (take n xs @ drop n xs)" using assms(1) by simp
  ultimately have "f y \<le> f x" using assms(2) unfolding sorted_wrt_append by blast
  with assms(4) show False by simp
qed

lemma val_list_newer:
  assumes "x \<in> set (val_list R proot None n)" and "y \<in> set R" and "vr_project y = proot"
    and "\<not> record_key y \<le> record_key x"
  shows "y \<in> set (val_list R proot None n)"
  using assms take_descending [OF descending, where f = record_key]
  unfolding val_list_def by simp

lemma val_list_in: "x \<in> set (val_list R proot ks n) \<Longrightarrow> x \<in> set R \<and> vr_project x = proot"
  by (auto simp: val_list_def dest: in_set_takeD)

section \<open>When the gate says done\<close>

lemma failed_kinds_Nil:
  "failed_kinds bk ks = [] \<longleftrightarrow> (\<forall>k \<in> set ks. \<forall>r. dict_get bk k = Some r \<longrightarrow> \<not> record_failed r)"
  by (auto simp: failed_kinds_def split: option.splits)

lemma gate_done_iff:
  "outcome (evaluate_gate rs required unres blocked ts need) = OUTCOME_DONE \<longleftrightarrow>
     (blocked = None \<or> blocked = Some []) \<and> unres = [] \<and> (required = [] \<and> need \<longrightarrow> rs \<noteq> []) \<and>
     (\<forall>k \<in> set (effective_kinds rs required).
        \<exists>r. dict_get (latest_by_kind rs) k = Some r \<and> \<not> record_failed r) \<and>
     task_blockers ts = []"
proof -
  let ?bk = "latest_by_kind rs" and ?ks = "effective_kinds rs required"
  have "outcome (evaluate_gate rs required unres blocked ts need) = OUTCOME_DONE \<longleftrightarrow>
     (blocked = None \<or> blocked = Some []) \<and> unres = [] \<and> (required = [] \<and> need \<longrightarrow> rs \<noteq> []) \<and>
     failed_kinds ?bk ?ks = [] \<and> filter (\<lambda>k. dict_get ?bk k = None) ?ks = [] \<and> task_blockers ts = []"
    by (cases "blocked = None \<or> blocked = Some []"; cases "unres = []";
        cases "failed_kinds ?bk ?ks = []"; cases "filter (\<lambda>k. dict_get ?bk k = None) ?ks = []")
      (auto simp only: evaluate_gate_def Let_def simp_thms if_True if_False GateDecision.simps
        gate_outcome.distinct split: if_split_asm if_split)
  moreover have "failed_kinds ?bk ?ks = [] \<and> filter (\<lambda>k. dict_get ?bk k = None) ?ks = [] \<longleftrightarrow>
     (\<forall>k \<in> set ?ks. \<exists>r. dict_get ?bk k = Some r \<and> \<not> record_failed r)"
    unfolding failed_kinds_Nil filter_empty_conv by auto
  ultimately show ?thesis by argo
qed

lemma gate_failed_iff:
  "outcome (evaluate_gate rs required unres blocked ts need) = OUTCOME_FAILED \<longleftrightarrow>
     (blocked = None \<or> blocked = Some []) \<and>
     (unres \<noteq> [] \<or> (\<exists>k \<in> set (effective_kinds rs required).
        \<exists>r. dict_get (latest_by_kind rs) k = Some r \<and> record_failed r))"
  using failed_kinds_Nil [of "latest_by_kind rs" "effective_kinds rs required"]
  by (auto simp: evaluate_gate_def Let_def)

lemma claims_of_Inr:
  assumes "claims_of T tids = Inr cs" and "tid \<in> set tids"
  shows "\<exists>t \<in> set T. task_id t = tid \<and> (\<exists>c \<in> set cs. tc_report c = done_when_report t)"
  using assms
  by (induction tids arbitrary: cs)
    (fastforce simp: repo_get_def split: option.splits sum.splits dest: find_first_Some)+

lemma task_blockers_complete:
  "task_blockers cs = [] \<Longrightarrow> c \<in> set cs \<Longrightarrow> can_complete (tc_report c)"
  by (auto simp: task_blockers_def claim_blockers_def Let_def split: if_splits)

section \<open>Evidence of the current revision\<close>

text \<open>A record \<open>evaluate\<close> may use: of the project, of its current revision, of the turn.\<close>

definition usable :: "string \<Rightarrow> string \<Rightarrow> string list option \<Rightarrow> validation_row \<Rightarrow> bool" where
  "usable proot v ids r \<longleftrightarrow> vr_project r = proot \<and> first_line (vr_detail r) = REVISION_PREFIX @ v \<and>
     (case ids of None \<Rightarrow> True | Some xs \<Rightarrow> vr_id r \<in> set xs)"

definition gate_input ::
  "(string \<Rightarrow> string option) \<Rightarrow> validation_row list \<Rightarrow> string \<Rightarrow> string list option \<Rightarrow> validation_row list" where
  "gate_input rev_of R proot ids =
     filter (\<lambda>r. case ids of None \<Rightarrow> True | Some xs \<Rightarrow> vr_id r \<in> set xs)
       (fresh_records (rev_of proot) (val_list R proot None 200))"

lemma gate_input_usable:
  assumes "r \<in> set (gate_input rev_of R proot ids)"
  obtains v where "rev_of proot = Some v" and "r \<in> set R" and "usable proot v ids r"
  using assms
  by (auto simp: gate_input_def fresh_records_def usable_def split: option.splits dest: val_list_in)

lemma gate_input_newer:
  assumes "r \<in> set (gate_input rev_of R proot ids)" and "rev_of proot = Some v" and "r' \<in> set R"
    and "usable proot v ids r'" and "\<not> record_key r' \<le> record_key r"
  shows "r' \<in> set (gate_input rev_of R proot ids)"
proof -
  have "v \<noteq> []" and "r \<in> set (val_list R proot None 200)"
    using assms(1,2) by (auto simp: gate_input_def fresh_records_def)
  then show ?thesis
    using assms val_list_newer [of r R proot 200 r']
    by (simp add: gate_input_def fresh_records_def usable_def)
qed

lemma verify_evaluate_done:
  assumes "verify_evaluate root_of rev_of T R path required unres blocked task_ids need ids = Inr d"
    and "outcome d = OUTCOME_DONE"
  obtains proot cs where "root_of path = Some proot" and "claims_of T task_ids = Inr cs"
    and "outcome (evaluate_gate (gate_input rev_of R proot ids) required unres blocked cs need) = OUTCOME_DONE"
  using assms
  by (auto simp: verify_evaluate_def gate_input_def Let_def split: option.splits sum.splits if_splits)

text \<open>
  C24. When \<open>evaluate\<close> answers DONE, every required kind has a record of the project made at
  its current revision that is not failed, not an error and not a false success, and no other
  usable record of that kind is newer; and every claimed task exists and meets its done-when
  contract.
\<close>

theorem done_rests_on_fresh_evidence:
  assumes "verify_evaluate root_of rev_of T R path required unres blocked task_ids need ids = Inr d"
    and "outcome d = OUTCOME_DONE"
  shows "unres = [] \<and>
    (\<forall>k \<in> set required. \<exists>proot v. root_of path = Some proot \<and> rev_of proot = Some v \<and>
       (\<exists>r \<in> set R. usable proot v ids r \<and> vr_kind r = k \<and>
          lower (vr_result r) \<noteq> ''failed'' \<and> lower (vr_result r) \<noteq> ''error'' \<and> \<not> is_false_success r \<and>
          (\<forall>r' \<in> set R. usable proot v ids r' \<and> vr_kind r' = k \<longrightarrow> record_key r' \<le> record_key r))) \<and>
    (\<forall>tid \<in> set task_ids. \<exists>t \<in> set T. task_id t = tid \<and> completion_blockers t = [])"
proof -
  obtain proot cs where root: "root_of path = Some proot" and cs: "claims_of T task_ids = Inr cs"
    and gate: "outcome (evaluate_gate (gate_input rev_of R proot ids) required unres blocked cs need)
      = OUTCOME_DONE"
    using verify_evaluate_done [OF assms] by blast
  note gate = gate [unfolded gate_done_iff]
  let ?rs = "gate_input rev_of R proot ids"
  have "\<exists>proot v. root_of path = Some proot \<and> rev_of proot = Some v \<and>
       (\<exists>r \<in> set R. usable proot v ids r \<and> vr_kind r = k \<and>
          lower (vr_result r) \<noteq> ''failed'' \<and> lower (vr_result r) \<noteq> ''error'' \<and> \<not> is_false_success r \<and>
          (\<forall>r' \<in> set R. usable proot v ids r' \<and> vr_kind r' = k \<longrightarrow> record_key r' \<le> record_key r))"
    if k: "k \<in> set required" for k
  proof -
    have "k \<in> set (effective_kinds ?rs required)" using k by (auto simp: effective_kinds_def)
    then obtain r where r: "dict_get (latest_by_kind ?rs) k = Some r" and ok: "\<not> record_failed r"
      using gate by blast
    note latest = latest_by_kind_Some [OF r]
    obtain v where v: "rev_of proot = Some v" "r \<in> set R" "usable proot v ids r"
      using gate_input_usable [OF latest(1)] by blast
    have "record_key r' \<le> record_key r" if "r' \<in> set R" "usable proot v ids r'" "vr_kind r' = k" for r'
      using gate_input_newer [OF latest(1) v(1) that(1,2)] latest(3) [OF _ that(3)] by blast
    with root v ok latest(2) show ?thesis unfolding record_failed_def by blast
  qed
  moreover have "\<exists>t \<in> set T. task_id t = tid \<and> completion_blockers t = []" if "tid \<in> set task_ids" for tid
    using claims_of_Inr [OF cs that] task_blockers_complete gate completion_contract by metis
  ultimately show ?thesis using gate by blast
qed

definition sample_record :: "string \<Rightarrow> string \<Rightarrow> string \<Rightarrow> string \<Rightarrow> string \<Rightarrow> validation_row" where
  "sample_record rid kind result summary rv =
     \<lparr>vr_id = rid, vr_project = ''/p'', vr_session = None, vr_kind = kind, vr_command = ''pytest'',
      vr_result = result, vr_summary = summary, vr_detail = REVISION_PREFIX @ rv,
      vr_artifact = None, vr_created = rid\<rparr>"

theorem done_rests_on_fresh_evidence_witness:
  "\<exists>t \<in> set [sample_task ''a'' ''/p'' []]. task_id t = ''a'' \<and> completion_blockers t = []"
proof -
  let ?T = "[sample_task ''a'' ''/p'' []]"
  let ?R = "[sample_record ''1'' ''test'' ''failed'' ''boom'' ''r0'', sample_record ''2'' ''test'' ''passed'' ''3 passed'' ''r1'']"
  define res where "res = verify_evaluate Some (\<lambda>_. Some ''r1'') ?T ?R ''/p'' [''test''] [] None [''a''] True None"
  have "(case res of Inl _ \<Rightarrow> False | Inr d \<Rightarrow> outcome d = OUTCOME_DONE)"
    unfolding res_def by code_simp
  then obtain d where "res = Inr d" "outcome d = OUTCOME_DONE" by (cases res) auto
  then have "\<forall>tid \<in> set [''a'']. \<exists>t \<in> set ?T. task_id t = tid \<and> completion_blockers t = []"
    using done_rests_on_fresh_evidence [of Some "\<lambda>_. Some ''r1''" ?T ?R "''/p''" "[''test'']" "[]" None
        "[''a'']" True None d] unfolding res_def by blast
  then show ?thesis by simp
qed

text \<open>The marker \<open>record\<close> writes survives trimming and cutting, so a check recorded at a revision
  counts for that revision.\<close>

lemma rstrip_keeps:
  assumes "xs \<noteq> []" and "\<not> p (last xs)"
  shows "\<exists>ys'. rstrip p (xs @ ys) = xs @ ys' \<and> (\<exists>zs. ys = ys' @ zs)"
proof -
  have "dropWhile p (rev ys @ rev xs) = dropWhile p (rev ys) @ rev xs"
  proof (cases "dropWhile p (rev ys) = []")
    case True
    then have "\<forall>y \<in> set (rev ys). p y" by (simp only: dropWhile_eq_Nil_conv)
    then have "dropWhile p (rev ys @ rev xs) = dropWhile p (rev xs)"
      by (intro dropWhile_append2) blast
    moreover have "dropWhile p (rev xs) = rev xs" using assms by (simp add: dropWhile_id hd_rev)
    ultimately show ?thesis using True by simp
  next
    case False
    then show ?thesis by (metis dropWhile_append1 dropWhile_eq_Nil_conv)
  qed
  then have "rstrip p (xs @ ys) = xs @ rev (dropWhile p (rev ys))"
    by (simp add: rstrip_def)
  moreover have "ys = rev (dropWhile p (rev ys)) @ rev (takeWhile p (rev ys))"
    by (metis rev_append rev_rev_ident takeWhile_dropWhile_id)
  ultimately show ?thesis by blast
qed

definition hex_digest :: "string \<Rightarrow> bool" where
  "hex_digest v \<longleftrightarrow> length v = 64 \<and> list_all (\<lambda>c. c \<in> set ''0123456789abcdef'') v"

lemma marker_survives:
  assumes "hex_digest v"
  shows "first_line (clean_text (REVISION_PREFIX @ v @ nl @ detail) MAX_DETAIL_LEN) = REVISION_PREFIX @ v"
proof -
  let ?m = "REVISION_PREFIX @ v"
  have v: "length v = 64" "\<forall>c \<in> set v. c \<in> set ''0123456789abcdef''"
    using assms by (simp_all add: hex_digest_def list_all_iff)
  have "v \<noteq> []" using v(1) by auto
  then have "last v \<in> set v" by simp
  have hex: "list_all (\<lambda>c. \<not> is_space c \<and> c \<noteq> CHR 0x0A) ''0123456789abcdef''"
    by code_simp
  have "\<not> is_space (last v)"
    using hex v(2) \<open>last v \<in> set v\<close> unfolding list_all_iff by blast
  then have "\<not> is_space (last ?m)" using \<open>v \<noteq> []\<close> by simp
  then obtain ys zs where ys: "rstrip is_space (?m @ nl @ detail) = ?m @ ys" "nl @ detail = ys @ zs"
    using rstrip_keeps [of ?m is_space "nl @ detail"] by (auto simp: REVISION_PREFIX_def)
  have "strip (?m @ nl @ detail) = ?m @ ys"
    unfolding strip_def ys(1) by (simp add: lstrip_def REVISION_PREFIX_def is_space_def)
  moreover have len: "length ?m = 90" using v(1) by (simp add: REVISION_PREFIX_def)
  ultimately have "clean_text (?m @ nl @ detail) MAX_DETAIL_LEN = ?m @ take (MAX_DETAIL_LEN - 90) ys"
    by (simp add: clean_text_def)
  moreover have "\<forall>c \<in> set v. c \<noteq> CHR 0x0A"
    using hex v(2) unfolding list_all_iff by blast
  moreover have "\<forall>c \<in> set REVISION_PREFIX. c \<noteq> CHR 0x0A"
    by (simp add: REVISION_PREFIX_def)
  moreover have "ys = [] \<or> hd ys = CHR 0x0A"
    using ys(2) by (cases ys) (auto simp: nl_def)
  ultimately show ?thesis
    by (cases ys) (auto simp: first_line_def takeWhile_append)
qed

lemma sorted_newest:
  assumes "r \<in> set rs" and "\<And>r'. r' \<in> set rs \<Longrightarrow> r' \<noteq> r \<Longrightarrow> record_key r' < record_key r"
    and "distinct rs"
  shows "\<exists>ys. rev (sort_key record_key rs) = r # ys"
proof (cases "rev (sort_key record_key rs)")
  case Nil
  then have "set rs = {}" by (metis set_empty set_rev set_sort)
  with assms(1) show ?thesis by simp
next
  case (Cons x xs)
  then have x: "x \<in> set rs" by (metis list.set_intros(1) set_rev set_sort)
  have "sorted_wrt (\<lambda>x y. record_key y \<le> record_key x) (x # xs)"
    unfolding Cons [symmetric] by (rule descending)
  moreover have "r \<in> set (x # xs)" unfolding Cons [symmetric] using assms(1) by simp
  ultimately have "r = x \<or> record_key r \<le> record_key x" by auto
  with assms(2) [OF x] have "x = r" by (metis leD)
  with Cons show ?thesis by simp
qed

text \<open>
  C22. A failed check blocks completion: after a check of a required kind is recorded with the
  result failed or error at the current revision, as the newest record of its project, an
  evaluation of the same revision that is not blocked and covers that kind answers FAILED.
\<close>

theorem failed_check_fails_the_gate:
  assumes "verify_record root_of rev_of new_id now R path kind result command summary detail = Inr R'"
    and "root_of path = Some proot" and "rev_of proot = Some v" and "hex_digest v"
    and "lower (strip result) = ''failed'' \<or> lower (strip result) = ''error''"
    and "distinct R" and "list_all (\<lambda>r. (vr_created r, vr_id r) < (now, new_id)) R"
    and "lower (strip kind) \<in> set required" and "blocked = None \<or> blocked = Some []"
    and "claims_of T task_ids = Inr cs"
  shows "map_sum id outcome (verify_evaluate root_of rev_of T R' path required unres blocked task_ids need None)
    = Inr OUTCOME_FAILED"
proof -
  have v: "v \<noteq> []" using assms(4) by (auto simp: hex_digest_def)
  obtain row where R': "R' = R @ [row]" and row: "vr_id row = new_id" "vr_created row = now"
      "vr_project row = proot" "vr_kind row = lower (strip kind)" "vr_result row = lower (strip result)"
      "vr_detail row = clean_text (REVISION_PREFIX @ v @ nl @ detail) MAX_DETAIL_LEN"
      "vr_kind row \<in> set VALIDATION_KINDS"
    using assms(1-3) v
    by (auto simp: verify_record_def record_validation_def val_insert_def Let_def split: if_splits)
  let ?P = "filter (\<lambda>r. vr_project r = proot) R'"
  have older: "record_key r' < record_key row" if "r' \<in> set R'" "r' \<noteq> row" for r'
    using assms(7) that row by (auto simp: R' list_all_iff)
  have "row \<notin> set R" using assms(7) row by (force simp: list_all_iff)
  then have "distinct R'" using assms(6) by (simp add: R')
  then obtain ys where ys: "rev (sort_key record_key ?P) = row # ys"
    using sorted_newest [of row ?P] older row by (auto simp: R')
  let ?rs = "gate_input rev_of R' proot None"
  have "?rs = row # filter (\<lambda>r. first_line (vr_detail r) = REVISION_PREFIX @ v) (take 199 ys)"
    using marker_survives [OF assms(4), of detail] v
    by (simp add: gate_input_def fresh_records_def val_list_def assms(3) row ys)
  then have "row \<in> set ?rs" by simp
  have sub: "set ?rs \<subseteq> set R'"
    by (auto simp: gate_input_def fresh_records_def dest: val_list_in)
  have "vr_kind row \<noteq> []" using row(7) by (auto simp: VALIDATION_KINDS_def)
  then obtain r where r: "dict_get (latest_by_kind ?rs) (vr_kind row) = Some r"
    using \<open>row \<in> set ?rs\<close>
    by (cases "dict_get (latest_by_kind ?rs) (vr_kind row)") (auto simp: latest_by_kind_get find_first_None)
  have "r = row"
    using latest_by_kind_Some [OF r] \<open>row \<in> set ?rs\<close> older sub by (metis leD subsetD)
  have "lower (lower s) = lower s" for s by (simp add: lower_def lower_char_idem)
  then have "record_failed row" using assms(5) row(5) by (auto simp: record_failed_def)
  moreover have "vr_kind row \<in> set (effective_kinds ?rs required)"
    using assms(8) row(4) by (auto simp: effective_kinds_def)
  ultimately have "outcome (evaluate_gate ?rs required unres blocked cs need) = OUTCOME_FAILED"
    unfolding gate_failed_iff using r \<open>r = row\<close> assms(9) by blast
  then show ?thesis
    using assms(2,10) by (simp add: verify_evaluate_def gate_input_def Let_def)
qed

theorem failed_check_fails_the_gate_witness:
  "case verify_record Some (\<lambda>_. Some (replicate 64 CHR ''a'')) ''v2'' ''2027''
          [sample_record ''1'' ''test'' ''passed'' ''ok'' (replicate 64 CHR ''a'')]
          ''/p'' ''test'' ''failed'' ''pytest'' ''boom'' ''trace'' of
     Inl e \<Rightarrow> False
   | Inr R' \<Rightarrow> map_sum id outcome (verify_evaluate Some (\<lambda>_. Some (replicate 64 CHR ''a'')) [] R' ''/p''
                [''test''] [] None [] True None) = Inr OUTCOME_FAILED"
proof -
  let ?v = "replicate 64 CHR ''a''" and ?R = "[sample_record ''1'' ''test'' ''passed'' ''ok'' (replicate 64 CHR ''a'')]"
  define res where "res = verify_record Some (\<lambda>_. Some ?v) ''v2'' ''2027'' ?R ''/p'' ''test'' ''failed'' ''pytest'' ''boom'' ''trace''"
  have "\<not> isl res" unfolding res_def by code_simp
  then obtain R' where R': "res = Inr R'" by (cases res) auto
  have hyps: "hex_digest ?v" "lower (strip ''failed'') = ''failed'' \<or> lower (strip ''failed'') = ''error''"
    "distinct ?R" "list_all (\<lambda>r. (vr_created r, vr_id r) < (''2027'', ''v2'')) ?R"
    "lower (strip ''test'') \<in> set [''test'']" "(None :: string option) = None \<or> None = Some ([] :: string)"
    "claims_of [] [] = Inr []" "Some ''/p'' = Some ''/p''" "Some ?v = Some ?v"
    by code_simp+
  show ?thesis
    using failed_check_fails_the_gate [OF R' [unfolded res_def] hyps(8,9,1-7), of "[]" True] R'
    unfolding res_def by simp
qed

section \<open>What the gate misreads\<close>

text \<open>
  C18. A skipped check counts as a passed one: the gate answers DONE, and says all required
  kinds passed, on a single test record whose result is skipped.
\<close>

theorem skipped_check_is_done:
  "(let d = evaluate_gate [sample_record ''1'' ''test'' ''skipped'' ''not run'' ''r''] [''test''] [] None [] True in
      outcome d = OUTCOME_DONE \<and> reasons d = [''all required kinds passed: test''])"
  by code_simp

text \<open>
  C19. The markers misread clean and failing output: a passing run that prints \<open>0 failed\<close> is a
  false success, and a Python traceback is not a failure marker, since the closing \<open>\\b\<close> of its
  pattern needs a word character after the parenthesis and Python prints a colon.
\<close>

theorem markers_misread_output:
  "detect_failure_markers ''5 passed; 0 failed'' = [''0 failed''] \<and>
   detect_failure_markers ''Traceback (most recent call last):'' = [] \<and>
   outcome (evaluate_gate [sample_record ''1'' ''test'' ''passed'' ''5 passed; 0 failed'' ''r'']
     [''test''] [] None [] True) = OUTCOME_FAILED"
  by code_simp

end
