(* ===== verification/Pattern.thy ===== *)
theory Pattern
  imports Rinari_Prelude
begin

text \<open>
  Regular expressions as Python's \<open>re\<close> runs them, for the patterns of the permission policy
  (\<^verbatim>\<open>src/src/rinari/policy/engine.py\<close>): greedy backtracking over characters, alternatives in order,
  word boundaries, anchors without \<open>MULTILINE\<close>, a one-character look-behind and capture groups.

  A place in the text is a \<open>cursor\<close>: the character before it, the text from it on and the groups
  captured so far. \<open>rx_run\<close> lists every cursor at which a match may end, in the order in which
  the backtracking tries them; the first is Python's match. \<open>rx_spec\<close> is the usual
  declarative reading, and \<open>rx_run_iff\<close> shows that the search finds exactly what it allows. A
  pattern with \<open>IGNORECASE\<close> is written with classes that ignore case.
\<close>

section \<open>Patterns\<close>

text \<open>Character classes; \<open>CiChars\<close> is a class under \<open>IGNORECASE\<close>.\<close>

datatype char_class =
  Chars string | CiChars string | SpaceC | WordC | LetterC | DigitC | Outside char_class | Either char_class char_class

definition is_letter :: "char \<Rightarrow> bool" where
  "is_letter c = (let n = cp (lower_char c) in cp c < 128 \<and> 97 \<le> n \<and> n \<le> 122)"

primrec in_class :: "char_class \<Rightarrow> char \<Rightarrow> bool" where
  "in_class (Chars cs) c = (c \<in> set cs)"
| "in_class (CiChars cs) c = (lower_char c \<in> set (map lower_char cs))"
| "in_class SpaceC c = is_space c"
| "in_class WordC c = is_word_char c"
| "in_class LetterC c = is_letter c"
| "in_class DigitC c = is_ascii_digit c"
| "in_class (Outside k) c = (\<not> in_class k c)"
| "in_class (Either j k) c = (in_class j c \<or> in_class k c)"

datatype rx =
    Eps
  | Cls char_class
  | Seq rx rx
  | Alt rx rx
  | Star rx
  | WordB
  | Bos
  | Eos
  | NotBehind char_class
  | Grp nat rx

type_synonym spot = "char option \<times> string"
type_synonym cursor = "spot \<times> (nat \<times> string) list"

abbreviation rest :: "cursor \<Rightarrow> string" where "rest c \<equiv> snd (fst c)"

text \<open>One more round of a repetition, as long as the text gets shorter: an empty round ends it.\<close>

fun star_run :: "(cursor \<Rightarrow> cursor list) \<Rightarrow> nat \<Rightarrow> cursor \<Rightarrow> cursor list" where
  "star_run f 0 c = [c]"
| "star_run f (Suc n) c =
     concat (map (\<lambda>d. if length (rest d) < length (rest c) then star_run f n d else []) (f c)) @ [c]"

primrec rx_run :: "rx \<Rightarrow> cursor \<Rightarrow> cursor list" where
  "rx_run Eps c = [c]"
| "rx_run (Cls p) c = (case rest c of [] \<Rightarrow> [] | x # xs \<Rightarrow> if in_class p x then [((Some x, xs), snd c)] else [])"
| "rx_run (Seq r s) c = concat (map (rx_run s) (rx_run r c))"
| "rx_run (Alt r s) c = rx_run r c @ rx_run s c"
| "rx_run (Star r) c = star_run (rx_run r) (length (rest c)) c"
| "rx_run WordB c = (if boundary (fst (fst c)) (head_opt (rest c)) then [c] else [])"
| "rx_run Bos c = (if fst (fst c) = None then [c] else [])"
| "rx_run Eos c = (if rest c = [] \<or> rest c = [char_of (10::nat)] then [c] else [])"
| "rx_run (NotBehind p) c = (case fst (fst c) of None \<Rightarrow> [c] | Some x \<Rightarrow> if in_class p x then [] else [c])"
| "rx_run (Grp n r) c =
     map (\<lambda>d. (fst d, dict_set n (take (length (rest c) - length (rest d)) (rest c)) (snd d))) (rx_run r c)"

section \<open>Searching\<close>

text \<open>\<open>pattern.match(text)\<close>, and \<open>fullmatch\<close> as a predicate.\<close>

definition rx_match :: "rx \<Rightarrow> string \<Rightarrow> cursor option" where
  "rx_match r s = head_opt (rx_run r ((None, s), []))"

definition rx_fullmatch :: "rx \<Rightarrow> string \<Rightarrow> bool" where
  "rx_fullmatch r s = list_ex (\<lambda>d. rest d = []) (rx_run r ((None, s), []))"

text \<open>\<open>bool(pattern.search(text))\<close> from a place on.\<close>

fun search_from :: "rx \<Rightarrow> char option \<Rightarrow> string \<Rightarrow> bool" where
  "search_from r prev [] = (rx_run r ((prev, []), []) \<noteq> [])"
| "search_from r prev (x # xs) =
     (if rx_run r ((prev, x # xs), []) \<noteq> [] then True else search_from r (Some x) xs)"

definition rx_search :: "rx \<Rightarrow> string \<Rightarrow> bool" where
  "rx_search r s = search_from r None s"

text \<open>
  The matches of a pattern that never matches the empty text, each with the text skipped before
  it, and the text after the last one: what \<open>finditer\<close>, \<open>findall\<close>, \<open>split\<close> and \<open>sub\<close> walk over.
\<close>

fun scan_from :: "rx \<Rightarrow> nat \<Rightarrow> char option \<Rightarrow> string \<Rightarrow> string \<Rightarrow> (string \<times> string \<times> (nat \<times> string) list) list \<times> string" where
  "scan_from r 0 prev skipped s = ([], rev skipped @ s)"
| "scan_from r (Suc n) prev skipped s =
     (case rx_run r ((prev, s), []) of
        d # ds \<Rightarrow>
          if length (rest d) < length s
          then (let (ms, t) = scan_from r n (fst (fst d)) [] (rest d)
                in ((rev skipped, take (length s - length (rest d)) s, snd d) # ms, t))
          else (case s of [] \<Rightarrow> ([], rev skipped) | x # xs \<Rightarrow> scan_from r n (Some x) (x # skipped) xs)
      | [] \<Rightarrow> (case s of [] \<Rightarrow> ([], rev skipped) | x # xs \<Rightarrow> scan_from r n (Some x) (x # skipped) xs))"

definition rx_scan :: "rx \<Rightarrow> string \<Rightarrow> (string \<times> string \<times> (nat \<times> string) list) list \<times> string" where
  "rx_scan r s = scan_from r (Suc (length s)) None [] s"

text \<open>\<open>finditer\<close>: the text and the groups of each match; \<open>split\<close>; \<open>sub("", text)\<close>.\<close>

definition rx_finditer :: "rx \<Rightarrow> string \<Rightarrow> (string \<times> (nat \<times> string) list) list" where
  "rx_finditer r s = map snd (fst (rx_scan r s))"

definition rx_split :: "rx \<Rightarrow> string \<Rightarrow> string list" where
  "rx_split r s = (let (ms, t) = rx_scan r s in map fst ms @ [t])"

definition rx_remove :: "rx \<Rightarrow> string \<Rightarrow> string" where
  "rx_remove r s = concat (rx_split r s)"

section \<open>Building patterns\<close>

definition chr_is :: "char \<Rightarrow> rx" where
  "chr_is c = Cls (Chars [c])"

text \<open>A letter under \<open>IGNORECASE\<close>.\<close>

definition chr_ci :: "char \<Rightarrow> rx" where
  "chr_ci c = Cls (CiChars [c])"

definition any_of :: "string \<Rightarrow> rx" where
  "any_of cs = Cls (Chars cs)"

definition none_of :: "string \<Rightarrow> rx" where
  "none_of cs = Cls (Outside (Chars cs))"

primrec seqs :: "rx list \<Rightarrow> rx" where
  "seqs [] = Eps"
| "seqs (r # rs) = (if rs = [] then r else Seq r (seqs rs))"

primrec alts :: "rx list \<Rightarrow> rx" where
  "alts [] = Cls (Chars [])"
| "alts (r # rs) = (if rs = [] then r else Alt r (alts rs))"

definition lit :: "string \<Rightarrow> rx" where
  "lit s = seqs (map chr_is s)"

definition lit_ci :: "string \<Rightarrow> rx" where
  "lit_ci s = seqs (map chr_ci s)"

definition opt_rx :: "rx \<Rightarrow> rx" where
  "opt_rx r = Alt r Eps"

definition plus_rx :: "rx \<Rightarrow> rx" where
  "plus_rx r = Seq r (Star r)"

definition rx_space :: rx where "rx_space = Cls SpaceC"
definition spaces0 :: rx where "spaces0 = Star rx_space"
definition spaces1 :: rx where "spaces1 = plus_rx rx_space"
definition rx_letter :: rx where "rx_letter = Cls LetterC"
definition rx_word :: rx where "rx_word = Cls WordC"

text \<open>The separators \<open>(?:^|[;&|]\s*)\<close> the shell patterns start with.\<close>

definition cmd_start :: rx where
  "cmd_start = Alt Bos (Seq (any_of '';&|'') spaces0)"

section \<open>The declarative reading\<close>

text \<open>A pattern relates the place where a match starts to the places where it may end.\<close>

primrec rx_spec :: "rx \<Rightarrow> (spot \<times> spot) set" where
  "rx_spec Eps = Id"
| "rx_spec (Cls p) = {((b, x # xs), (Some x, xs)) | b x xs. in_class p x}"
| "rx_spec (Seq r s) = rx_spec r O rx_spec s"
| "rx_spec (Alt r s) = rx_spec r \<union> rx_spec s"
| "rx_spec (Star r) = (rx_spec r)\<^sup>*"
| "rx_spec WordB = {(c, c) | c. boundary (fst c) (head_opt (snd c))}"
| "rx_spec Bos = {(c, c) | c. fst c = None}"
| "rx_spec Eos = {(c, c) | c. snd c = [] \<or> snd c = [char_of (10::nat)]}"
| "rx_spec (NotBehind p) = {(c, c) | c. \<not> (\<exists>x. fst c = Some x \<and> in_class p x)}"
| "rx_spec (Grp n r) = rx_spec r"

text \<open>A match only moves forward, and stands still only at the same place.\<close>

definition forward :: "(spot \<times> spot) set" where
  "forward = {(c, d). length (snd d) < length (snd c) \<or> d = c}"

lemma forward_trans: "trans forward"
  by (auto simp: forward_def trans_def)

lemma rx_spec_forward: "rx_spec r \<subseteq> forward"
proof (induction r)
  case (Seq r s)
  then have "rx_spec r O rx_spec s \<subseteq> forward O forward" by (rule relcomp_mono)
  also have "\<dots> \<subseteq> forward" using forward_trans by (rule trans_O_subset)
  finally show ?case by simp
next
  case (Star r)
  have "(rx_spec r)\<^sup>* \<subseteq> forward\<^sup>*" using Star by (rule rtrancl_mono)
  also have "\<dots> = forward\<^sup>=" using forward_trans by (simp add: rtrancl_trancl_reflcl)
  also have "\<dots> = forward" by (auto simp: forward_def)
  finally show ?case by simp
qed (auto simp: forward_def)

lemma star_run_iff:
  assumes f: "\<And>c. fst ` set (f c) = R `` {fst c}" and "R \<subseteq> forward" and "length (rest c) \<le> n"
  shows "fst ` set (star_run f n c) = R\<^sup>* `` {fst c}"
  using assms(3)
proof (induction n arbitrary: c)
  case 0
  have "p = fst c" if "(fst c, p) \<in> R\<^sup>*" for p
    using that
  proof (induction rule: rtrancl_induct)
    case (step y z)
    then have "(fst c, z) \<in> forward" using assms(2) by auto
    with 0 show ?case by (auto simp: forward_def)
  qed simp
  then show ?case by auto
next
  case (Suc n)
  let ?step = "\<lambda>d. if length (rest d) < length (rest c) then star_run f n d else []"
  have IH: "fst ` set (?step d) = (if length (rest d) < length (rest c) then R\<^sup>* `` {fst d} else {})" for d
    using Suc by simp
  have "fst ` set (star_run f (Suc n) c) = insert (fst c) (\<Union>d \<in> set (f c). fst ` set (?step d))"
    by (auto simp: image_iff)
  also have "\<dots> = insert (fst c) (\<Union>d \<in> set (f c). if length (rest d) < length (rest c) then R\<^sup>* `` {fst d} else {})"
    by (simp only: IH)
  also have "\<dots> = insert (fst c) (\<Union>p \<in> fst ` set (f c). if length (snd p) < length (rest c) then R\<^sup>* `` {p} else {})"
    by (simp only: image_image UN_simps)
  also have "\<dots> = insert (fst c) (\<Union>p \<in> R `` {fst c}. if length (snd p) < length (rest c) then R\<^sup>* `` {p} else {})"
    by (simp only: f)
  also have "\<dots> = R\<^sup>* `` {fst c}"
  proof (rule set_eqI)
    fix q
    show "q \<in> insert (fst c) (\<Union>p \<in> R `` {fst c}. if length (snd p) < length (rest c) then R\<^sup>* `` {p} else {})
        \<longleftrightarrow> q \<in> R\<^sup>* `` {fst c}" (is "?l \<longleftrightarrow> ?r")
    proof
      assume ?l
      then show ?r by (auto intro: converse_rtrancl_into_rtrancl split: if_splits)
    next
      assume ?r
      then have "(fst c, q) \<in> (R - Id)\<^sup>*" by (simp add: rtrancl_r_diff_Id)
      then show ?l
      proof (cases rule: converse_rtranclE)
        case (step p)
        then have "(fst c, p) \<in> R" "p \<noteq> fst c" "(p, q) \<in> R\<^sup>*" by (auto simp: rtrancl_r_diff_Id)
        moreover from this assms(2) have "length (snd p) < length (rest c)" by (auto simp: forward_def)
        ultimately show ?thesis by auto
      qed simp
    qed
  qed
  finally show ?case .
qed

text \<open>The backtracking search finds exactly the ends of the declarative reading.\<close>

lemma rx_run_iff: "fst ` set (rx_run r c) = rx_spec r `` {fst c}"
proof (induction r arbitrary: c)
  case (Seq r s)
  have "fst ` set (rx_run (Seq r s) c) = (\<Union>d \<in> set (rx_run r c). fst ` set (rx_run s d))"
    by auto
  also have "\<dots> = (\<Union>p \<in> fst ` set (rx_run r c). rx_spec s `` {p})"
    unfolding Seq(2) by blast
  also have "\<dots> = rx_spec (Seq r s) `` {fst c}" unfolding Seq(1) by auto
  finally show ?case .
next
  case (Star r)
  show ?case by (simp add: star_run_iff [OF Star rx_spec_forward])
next
  case (Alt r s)
  then show ?case by (simp add: image_Un Un_Image)
next
  case (Grp n r)
  then show ?case by (simp add: image_image)
qed (cases c; force split: list.splits option.splits)+

definition occurs :: "rx \<Rightarrow> string \<Rightarrow> bool" where
  "occurs r s = (\<exists>u v. s = u @ v \<and> (\<exists>q. ((if u = [] then None else Some (last u), v), q) \<in> rx_spec r))"

lemma run_nonempty_iff: "rx_run r (p, g) \<noteq> [] \<longleftrightarrow> (\<exists>q. (p, q) \<in> rx_spec r)"
proof -
  have "rx_run r (p, g) \<noteq> [] \<longleftrightarrow> fst ` set (rx_run r (p, g)) \<noteq> {}" by simp
  also have "\<dots> \<longleftrightarrow> rx_spec r `` {p} \<noteq> {}" by (simp only: rx_run_iff fst_conv)
  finally show ?thesis by (auto simp: Image_def)
qed

lemma search_from_iff:
  "search_from r prev s \<longleftrightarrow>
     (\<exists>u v. s = u @ v \<and> (\<exists>q. ((if u = [] then prev else Some (last u), v), q) \<in> rx_spec r))"
proof (induction r prev s rule: search_from.induct)
  case (1 r prev)
  show ?case by (simp add: run_nonempty_iff)
next
  case (2 r prev x xs)
  have split: "(\<exists>u v. x # xs = u @ v \<and> P u v) \<longleftrightarrow> P [] (x # xs) \<or> (\<exists>u v. xs = u @ v \<and> P (x # u) v)" for P
    unfolding Cons_eq_append_conv by blast
  show ?case
  proof (cases "rx_run r ((prev, x # xs), []) = []")
    case True
    then have "\<not> (\<exists>q. ((prev, x # xs), q) \<in> rx_spec r)" using run_nonempty_iff by blast
    with 2 True show ?thesis unfolding split by (simp add: if_distrib cong: if_cong)
  next
    case False
    then show ?thesis unfolding split by (simp add: run_nonempty_iff)
  qed
qed

text \<open>\<open>search\<close> succeeds exactly when the pattern occurs somewhere in the text.\<close>

lemma rx_search_iff: "rx_search r s \<longleftrightarrow> occurs r s"
  by (simp add: rx_search_def occurs_def search_from_iff)

end
