(* ===== verification/Paths.thy ===== *)
theory Paths
  imports Rinari_Prelude
begin

text \<open>
  Paths (the part of \<open>pathlib.PurePosixPath\<close> the policy uses) and the filesystem sandbox
  (\<^verbatim>\<open>src/src/rinari/policy/sandbox.py\<close>).

  A path is its anchor (empty, \<open>/\<close> or \<open>//\<close>) and its components, as \<open>pathlib\<close> keeps it: empty
  components and \<open>.\<close> are gone, \<open>..\<close> stays. What the operating system decides is a record of
  parameters: \<open>resolve\<close> is \<open>Path.resolve\<close> on a path somebody named, \<open>None\<close> when it raises;
  \<open>folder\<close> is the same call on a folder of the session (its root, its home, its working folders),
  which exists; \<open>expand_user\<close> is \<open>Path.expanduser\<close>, which raises when there is no such home, and
  \<open>expand_text\<close> is \<open>os.path.expanduser(os.path.expandvars(s))\<close>, which does not.
\<close>

section \<open>Pure paths\<close>

datatype ppath = PPath (anchor: string) (tail: "string list")

definition path_of :: "string \<Rightarrow> ppath" where
  "path_of s =
     PPath (if startswith s ''//'' \<and> \<not> startswith s ''///'' then ''//''
            else if startswith s ''/'' then ''/'' else [])
       (filter (\<lambda>x. x \<noteq> [] \<and> x \<noteq> ''.'') (split_on (CHR ''/'') s))"

definition str_path :: "ppath \<Rightarrow> string" where
  "str_path p = (if anchor p = [] \<and> tail p = [] then ''.'' else anchor p @ join ''/'' (tail p))"

definition path_name :: "ppath \<Rightarrow> string" where
  "path_name p = (if tail p = [] then [] else last (tail p))"

definition path_parts :: "ppath \<Rightarrow> string list" where
  "path_parts p = (if anchor p = [] then tail p else anchor p # tail p)"

definition is_absolute :: "ppath \<Rightarrow> bool" where
  "is_absolute p = (anchor p \<noteq> [])"

text \<open>\<open>base / candidate\<close>.\<close>

definition join_path :: "ppath \<Rightarrow> ppath \<Rightarrow> ppath" where
  "join_path base cand = (if is_absolute cand then cand else PPath (anchor base) (tail base @ tail cand))"

text \<open>\<open>root in path.parents\<close>, and \<open>path == root or root in path.parents\<close>.\<close>

definition in_parents :: "ppath \<Rightarrow> ppath \<Rightarrow> bool" where
  "in_parents r p =
     (anchor r = anchor p \<and> length (tail r) < length (tail p) \<and> take (length (tail r)) (tail p) = tail r)"

definition at_or_under :: "ppath \<Rightarrow> ppath \<Rightarrow> bool" where
  "at_or_under r p = (p = r \<or> in_parents r p)"

text \<open>The paths \<open>pathlib\<close> builds: an anchor of its own and no component that is empty, \<open>.\<close> or
  holds a slash.\<close>

definition path_ok :: "ppath \<Rightarrow> bool" where
  "path_ok p = (anchor p \<in> {[], ''/'', ''//''} \<and>
     list_all (\<lambda>x. x \<noteq> [] \<and> x \<noteq> ''.'' \<and> CHR ''/'' \<notin> set x) (tail p))"

lemma path_ok_path_of: "path_ok (path_of s)"
  by (auto simp: path_ok_def path_of_def list_all_iff dest: split_on_no_sep)

lemma path_ok_join: "path_ok b \<Longrightarrow> path_ok c \<Longrightarrow> path_ok (join_path b c)"
  by (auto simp: path_ok_def join_path_def is_absolute_def)

lemma filter_split_join:
  assumes "list_all (\<lambda>x. x \<noteq> [] \<and> x \<noteq> ''.'' \<and> CHR ''/'' \<notin> set x) xs"
  shows "filter (\<lambda>x. x \<noteq> [] \<and> x \<noteq> ''.'') (split_on (CHR ''/'') (join ''/'' xs)) = xs"
proof (cases "xs = []")
  case False
  then have "split_on (CHR ''/'') (join ''/'' xs) = xs"
    using assms by (intro split_on_join) (auto simp: list_all_iff)
  then show ?thesis using assms by (simp add: list_all_iff)
qed simp

lemma join_slash_start:
  assumes "list_all (\<lambda>x. x \<noteq> [] \<and> x \<noteq> ''.'' \<and> CHR ''/'' \<notin> set x) xs"
  shows "\<not> startswith (join ''/'' xs) ''/''"
  using assms by (induction "''/''" xs rule: join.induct) (auto simp: startswith_iff Cons_eq_append_conv append_eq_Cons_conv)

text \<open>Reading back the text of a path gives the path.\<close>

lemma path_of_str_path [simp]:
  assumes "path_ok p"
  shows "path_of (str_path p) = p"
proof (cases p)
  case (PPath a xs)
  have xs: "list_all (\<lambda>x. x \<noteq> [] \<and> x \<noteq> ''.'' \<and> CHR ''/'' \<notin> set x) xs" and a: "a \<in> {[], ''/'', ''//''}"
    using assms PPath by (simp_all add: path_ok_def)
  note fs = filter_split_join [OF xs] and js = join_slash_start [OF xs]
  consider "a = []" "xs = []" | "a = []" "xs \<noteq> []" | "a = ''/''" | "a = ''//''" using a by blast
  then show ?thesis
  proof cases
    case 1
    then show ?thesis using PPath by (simp add: path_of_def str_path_def startswith_code)
  next
    case 2
    then show ?thesis using PPath fs js
      by (auto simp: path_of_def str_path_def startswith_iff)
  next
    case 3
    then show ?thesis using PPath fs js
      by (auto simp: path_of_def str_path_def startswith_code startswith_iff)
  next
    case 4
    then show ?thesis using PPath fs js
      by (auto simp: path_of_def str_path_def startswith_code startswith_iff)
  qed
qed

text \<open>\<open>at_or_under\<close> is a preorder on paths: a folder of a folder.\<close>

lemma at_or_under_refl [simp]: "at_or_under p p"
  by (simp add: at_or_under_def)

lemma at_or_under_iff: "at_or_under r p \<longleftrightarrow> anchor r = anchor p \<and> (\<exists>xs. tail p = tail r @ xs)"
proof
  assume "at_or_under r p"
  then show "anchor r = anchor p \<and> (\<exists>xs. tail p = tail r @ xs)"
    by (auto simp: at_or_under_def in_parents_def) (metis append_take_drop_id)
next
  assume "anchor r = anchor p \<and> (\<exists>xs. tail p = tail r @ xs)"
  then obtain xs where "anchor r = anchor p" "tail p = tail r @ xs" by blast
  then show "at_or_under r p"
    by (cases r; cases p; cases xs) (auto simp: at_or_under_def in_parents_def)
qed

lemma at_or_under_trans: "at_or_under r q \<Longrightarrow> at_or_under q p \<Longrightarrow> at_or_under r p"
  by (auto simp: at_or_under_iff)

section \<open>What the operating system answers\<close>

record os_env =
  resolve :: "ppath \<Rightarrow> ppath option"
  folder :: "ppath \<Rightarrow> ppath"
  expand_user :: "ppath \<Rightarrow> ppath option"
  expand_text :: "string \<Rightarrow> string"

section \<open>The sandbox\<close>

datatype sandbox_error = SandboxViolationError string | ResolveFailed

record FilesystemSandbox =
  sb_read_root :: "ppath option"
  sb_write_roots :: "ppath list"
  sb_unrestricted :: bool
  approved_read_roots :: "ppath list"
  unrestricted_reads :: bool

definition new_sandbox ::
  "os_env \<Rightarrow> ppath option \<Rightarrow> ppath list \<Rightarrow> bool \<Rightarrow> ppath list \<Rightarrow> bool \<Rightarrow> FilesystemSandbox" where
  "new_sandbox os read_root write_roots unr approved unr_reads =
     \<lparr>sb_read_root = map_option (folder os) read_root, sb_write_roots = map (folder os) write_roots,
      sb_unrestricted = unr, approved_read_roots = map (folder os) approved, unrestricted_reads = unr_reads\<rparr>"

definition sandbox_resolve :: "os_env \<Rightarrow> string \<Rightarrow> ppath option \<Rightarrow> sandbox_error + ppath" where
  "sandbox_resolve os p base =
     (case base of
        None \<Rightarrow> Inl (SandboxViolationError ''Cannot resolve a path without a base directory'')
      | Some b \<Rightarrow>
          (case resolve os (join_path b (path_of p)) of
             None \<Rightarrow> Inl ResolveFailed
           | Some q \<Rightarrow> Inr q))"

definition assert_readable :: "os_env \<Rightarrow> FilesystemSandbox \<Rightarrow> ppath \<Rightarrow> sandbox_error + unit" where
  "assert_readable os sb p =
     (case resolve os p of
        None \<Rightarrow> Inl ResolveFailed
      | Some q \<Rightarrow>
          if sb_unrestricted sb \<or> unrestricted_reads sb then Inr ()
          else if list_ex (\<lambda>r. at_or_under r q) (approved_read_roots sb) then Inr ()
          else
            (case sb_read_root sb of
               None \<Rightarrow> Inl (SandboxViolationError ''No read root granted for this session'')
             | Some r \<Rightarrow>
                 if \<not> at_or_under r q
                 then Inl (SandboxViolationError (''Path is outside the readable root ('' @ str_path q @ '')''))
                 else Inr ()))"

definition assert_writable :: "FilesystemSandbox \<Rightarrow> ppath \<Rightarrow> sandbox_error + unit" where
  "assert_writable sb p =
     (if sb_unrestricted sb then Inr ()
      else if sb_write_roots sb = []
      then Inl (SandboxViolationError ''No write root granted for this session'')
      else if list_ex (\<lambda>r. at_or_under r p) (sb_write_roots sb) then Inr ()
      else Inl (SandboxViolationError (''Path is outside every writable root ('' @ str_path p @ '')'')))"

definition keep_root :: "os_env \<Rightarrow> ppath option \<Rightarrow> ppath option \<Rightarrow> ppath list \<Rightarrow> ppath list" where
  "keep_root os home r roots =
     (case r of
        None \<Rightarrow> roots
      | Some p \<Rightarrow>
          (let q = folder os p in
           if Some q \<noteq> home \<and> q \<notin> set roots then roots @ [q] else roots))"

definition working_roots :: "os_env \<Rightarrow> ppath option \<Rightarrow> ppath option \<Rightarrow> ppath list \<Rightarrow> ppath option \<Rightarrow> ppath list" where
  "working_roots os project_root cwd extra user_home =
     fold (keep_root os (map_option (folder os) user_home))
       ((if project_root \<noteq> None then project_root else cwd) # map Some extra) []"

end
