(* ===== verification/Shell_Text.thy ===== *)
theory Shell_Text
  imports Pattern Paths "HOL-Library.Word"
begin

text \<open>
  What the permission policy reads in the text of a command and in a path or a host: the first half
  of \<^verbatim>\<open>src/src/rinari/policy/engine.py\<close> (the patterns, \<open>catastrophic\<close>, \<open>is_system_secret\<close>,
  \<open>is_local_host\<close>, \<open>engine_home_targets\<close>, \<open>classify_git_remote\<close>, \<open>_segments\<close>, \<open>detect_test_runner\<close>,
  \<open>remote_actions\<close>, \<open>classify_shell_risk\<close> and their helpers).

  The patterns are terms of \<open>Pattern\<close>. \<open>_segments\<close> rests on \<open>shlex.shlex\<close> of the standard library,
  modelled here as it is set up there: POSIX rules, no escape character, \<open>;&|\<close> as punctuation, and
  \<open>#\<close> as a comment sign, its default. Paths are POSIX paths. What the operating system answers is
  \<^typ>\<open>os_env\<close>; \<open>ipaddress.ip_address\<close> is an argument, an address being a word of 32 or 128 bits.
\<close>

section \<open>Characters and text\<close>

abbreviation dq :: char where "dq \<equiv> CHR 0x22"
abbreviation sq :: char where "sq \<equiv> CHR 0x27"
abbreviation bslash :: char where "bslash \<equiv> CHR 0x5C"
abbreviation newline :: char where "newline \<equiv> CHR 0x0A"

text \<open>\<open>s.replace(a, b)\<close> for characters.\<close>

definition replace_char :: "char \<Rightarrow> char \<Rightarrow> string \<Rightarrow> string" where
  "replace_char a b s = map (\<lambda>c. if c = a then b else c) s"

abbreviation opt_quote :: rx where "opt_quote \<equiv> opt_rx (any_of [dq, sq])"
abbreviation space_or_end :: rx where "space_or_end \<equiv> Alt rx_space Eos"
abbreviation slash_either :: rx where "slash_either \<equiv> any_of [bslash, CHR ''/'']"
abbreviation not_sep :: rx where "not_sep \<equiv> none_of ''|;&''"
abbreviation not_sep_nl :: rx where "not_sep_nl \<equiv> none_of (''|;&'' @ [newline])"

section \<open>The catastrophic list\<close>

definition ROOT_TARGET :: rx where
  "ROOT_TARGET = alts [
     lit ''/'', lit ''/*'', Seq (lit ''~'') (opt_rx (lit ''/'')), Seq (lit ''$HOME'') (opt_rx (lit ''/'')),
     seqs [rx_letter, lit '':'', opt_rx slash_either, opt_rx (lit ''*'')],
     seqs [rx_letter, lit '':'', slash_either, opt_rx (lit ''.'')]]"

definition rx_rm_root :: rx where
  "rx_rm_root = seqs [WordB, lit ''rm'', spaces1,
     Star (seqs [lit ''-'', Star rx_letter, spaces1]),
     lit ''-'', Star rx_letter, any_of ''rR'', Star rx_letter, spaces1,
     Star (seqs [lit ''-'', plus_rx (Cls (Either LetterC (Chars ''-''))), spaces1]),
     opt_quote, ROOT_TARGET, opt_quote, space_or_end]"

definition rx_delete_drive :: rx where
  "rx_delete_drive = seqs [WordB,
     alts (map lit_ci [''Remove-Item'', ''rm'', ''del'', ''rd'', ''rmdir'', ''ri'']), WordB,
     Star not_sep_nl, alts [lit_ci ''-Recurse'', lit_ci ''/s''], Star not_sep_nl,
     rx_space, opt_quote, rx_letter, lit '':'', opt_rx slash_either, opt_rx (lit ''*''), opt_quote, space_or_end]"

definition rx_raw_disk :: "string list \<Rightarrow> rx" where
  "rx_raw_disk names = seqs [lit ''/dev/'', alts (map lit names), Star rx_word]"

definition CATASTROPHIC :: "(rx \<times> string) list" where
  "CATASTROPHIC = [
     (rx_rm_root, ''deletes the system root or the home folder''),
     (rx_delete_drive, ''deletes a whole drive''),
     (seqs [WordB, lit ''mkfs'', opt_rx (Seq (lit ''.'') (plus_rx rx_word)), WordB], ''formats a disk''),
     (seqs [cmd_start, lit_ci ''format'', opt_rx (lit_ci ''.com''), spaces1, rx_letter, lit '':''],
      ''formats a drive''),
     (alts [seqs [WordB, lit_ci ''Format-Volume'', WordB], seqs [WordB, lit_ci ''Clear-Disk'', WordB],
            seqs [WordB, lit_ci ''Initialize-Disk'', WordB]], ''formats or wipes a disk''),
     (seqs [WordB, lit_ci ''diskpart'', WordB], ''repartitions disks''),
     (seqs [WordB, lit ''dd'', WordB, Star not_sep_nl, WordB, lit ''of='',
            rx_raw_disk [''sd'', ''hd'', ''nvme'', ''disk'', ''rdisk'', ''mmcblk'', ''xvd'', ''vd'']],
      ''writes straight to a physical disk''),
     (seqs [lit ''>'', spaces0, rx_raw_disk [''sd'', ''hd'', ''nvme'', ''disk'', ''rdisk'', ''mmcblk'']],
      ''writes straight to a physical disk''),
     (seqs [lit ([bslash, bslash] @ ''.'' @ [bslash]), lit_ci ''PhysicalDrive'', Cls DigitC],
      ''writes straight to a physical disk''),
     (seqs [lit '':'', spaces0, lit ''('', spaces0, lit '')'', spaces0, lit ''{'', spaces0, lit '':'', spaces0,
            lit ''|'', spaces0, lit '':'', spaces0, lit ''&'', spaces0, lit ''}'', spaces0, lit '';'', spaces0,
            lit '':''], ''is a fork bomb'')]"

definition catastrophic :: "string \<Rightarrow> string option" where
  "catastrophic command = map_option snd (find_first (\<lambda>(r, why). rx_search r command) CATASTROPHIC)"

section \<open>Secrets\<close>

abbreviation rx_any :: rx where "rx_any \<equiv> none_of [newline]"

definition SENSITIVE_FILE :: rx where
  "SENSITIVE_FILE = alts [
     seqs [lit_ci ''.env'', opt_rx (Seq (lit ''.'') (plus_rx rx_any)), Eos],
     seqs [alts [Bos, lit ''/''], lit_ci ''.env.'', plus_rx rx_any, Eos],
     seqs [lit_ci ''.pem'', Eos], seqs [lit_ci ''.p12'', Eos], seqs [lit_ci ''.pfx'', Eos], seqs [lit_ci ''.key'', Eos],
     seqs [lit_ci ''id_rsa'', Star rx_any], seqs [lit_ci ''.netrc'', Eos], seqs [lit_ci ''.npmrc'', Eos],
     seqs [lit_ci ''credentials'', opt_rx (lit_ci ''.json'')],
     seqs [lit_ci ''secret'', opt_rx (lit_ci ''s''), lit ''.'',
           alts [lit_ci ''json'', seqs [lit_ci ''y'', opt_rx (lit_ci ''a''), lit_ci ''ml''], lit_ci ''toml''], Eos]]"

definition is_sensitive_file :: "ppath \<Rightarrow> bool" where
  "is_sensitive_file p = (rx_search SENSITIVE_FILE (path_name p) \<or> rx_search SENSITIVE_FILE (str_path p))"

definition PRIVATE_KEY :: rx where
  "PRIVATE_KEY = alts [
     seqs [lit_ci ''.pem'', Eos], seqs [lit_ci ''.p12'', Eos], seqs [lit_ci ''.pfx'', Eos],
     seqs [lit_ci ''.ppk'', Eos], seqs [lit_ci ''.key'', Eos],
     seqs [alts [Bos, slash_either], lit_ci ''id_'', alts (map lit_ci [''rsa'', ''dsa'', ''ecdsa'', ''ed25519'']),
           opt_rx (Seq (lit ''.'') (Star (none_of [bslash, CHR ''/'']))), Eos]]"

definition SECRET_FILE_NAMES :: "string list" where
  "SECRET_FILE_NAMES = [''.netrc'', ''_netrc'', ''.git-credentials'', ''.npmrc'', ''.pypirc'', ''.pgpass'']"

definition SECRET_DIRS :: "string list" where
  "SECRET_DIRS = [''.ssh'', ''.gnupg'', ''.aws'', ''.azure'', ''.kube'', ''.docker'']"

definition SECRET_PATH_FRAGMENTS :: "string list" where
  "SECRET_PATH_FRAGMENTS = [
     ''/.config/gcloud/'', ''/google/chrome/user data/'', ''/microsoft/edge/user data/'',
     ''/bravesoftware/brave-browser/user data/'', ''/mozilla/firefox/profiles/'', ''/.mozilla/firefox/'',
     ''/.config/google-chrome/'', ''/microsoft/credentials/'', ''/microsoft/protect/'', ''/microsoft/vault/'',
     ''/library/keychains/'']"

definition is_system_secret :: "ppath \<Rightarrow> bool" where
  "is_system_secret p =
     (let txt = ''/'' @ lstrip (\<lambda>c. c = CHR ''/'') (lower (replace_char bslash (CHR ''/'') (str_path p))) @ ''/'' in
      if lower (path_name p) \<in> set SECRET_FILE_NAMES \<or> rx_search PRIVATE_KEY (path_name p) then True
      else if list_ex (\<lambda>part. lower part \<in> set SECRET_DIRS) (butlast (path_parts p)) then True
      else list_ex (\<lambda>fragment. contains_sub txt fragment) SECRET_PATH_FRAGMENTS)"

section \<open>Hosts\<close>

datatype ip = IPv4 "32 word" | IPv6 "128 word"

definition LOCAL_SUFFIXES :: "string list" where
  "LOCAL_SUFFIXES = [''.localhost'', ''.local'', ''.lan'', ''.internal'', ''.home.arpa'']"

text \<open>Membership in a network given by its address and prefix length; \<open>is_loopback\<close>, \<open>is_link_local\<close>.\<close>

definition in_network :: "'w::len word \<Rightarrow> nat \<Rightarrow> 'w word \<Rightarrow> bool" where
  "in_network net len a = (drop_bit (LENGTH('w) - len) a = drop_bit (LENGTH('w) - len) net)"

fun is_loopback :: "ip \<Rightarrow> bool" where
  "is_loopback (IPv4 a) = in_network 0x7F000000 8 a"
| "is_loopback (IPv6 a) = (a = 1)"

fun is_link_local :: "ip \<Rightarrow> bool" where
  "is_link_local (IPv4 a) = in_network 0xA9FE0000 16 a"
| "is_link_local (IPv6 a) = in_network 0xFE800000000000000000000000000000 10 a"

fun in_local_networks :: "ip \<Rightarrow> bool" where
  "in_local_networks (IPv4 a) =
     (in_network 0x0A000000 8 a \<or> in_network 0xAC100000 12 a \<or> in_network 0xC0A80000 16 a \<or> in_network 0x64400000 10 a)"
| "in_local_networks (IPv6 a) = in_network 0xFC000000000000000000000000000000 7 a"

definition is_local_host :: "(string \<Rightarrow> ip option) \<Rightarrow> string option \<Rightarrow> bool" where
  "is_local_host ip_address host =
     (case host of
        None \<Rightarrow> False
      | Some h0 \<Rightarrow>
          if h0 = [] then False
          else
            (let h = rstrip (\<lambda>c. c = CHR ''.'') (lower h0) in
             if h = ''localhost'' \<or> list_ex (endswith h) LOCAL_SUFFIXES \<or> CHR ''.'' \<notin> set h then True
             else
               (case ip_address h of
                  None \<Rightarrow> False
                | Some a \<Rightarrow> if is_loopback a \<or> is_link_local a then True else in_local_networks a)))"

section \<open>Commands that send data\<close>

abbreviation verbs_ci :: "string list \<Rightarrow> rx" where "verbs_ci ws \<equiv> alts (map lit_ci ws)"

definition SHELL_SENDS :: rx where
  "SHELL_SENDS = Seq WordB (alts [
     seqs [lit_ci ''curl'', WordB, Star not_sep, rx_space,
           alts [lit ''-d'', Seq (lit_ci ''--data'') (Star (Cls (Either WordC (Chars ''-'')))), lit ''-F'',
                 lit_ci ''--form'', lit ''-T'', lit_ci ''--upload-file'',
                 seqs [lit ''-X'', spaces0, verbs_ci [''POST'', ''PUT'', ''PATCH'', ''DELETE'']]], WordB],
     seqs [lit_ci ''wget'', WordB, Star not_sep, rx_space, lit_ci ''--post-'', verbs_ci [''data'', ''file''], WordB],
     seqs [verbs_ci [''invoke-webrequest'', ''invoke-restmethod'', ''iwr'', ''irm''], WordB, Star not_sep,
           lit_ci ''-method'', spaces1, verbs_ci [''post'', ''put'', ''patch'', ''delete''], WordB],
     seqs [lit_ci ''scp'', rx_space],
     seqs [lit_ci ''rsync'', rx_space, Star not_sep, plus_rx (Cls (Outside SpaceC)), lit '':'']])"

definition shell_sends_data :: "string \<Rightarrow> bool" where
  "shell_sends_data command = rx_search SHELL_SENDS command"

section \<open>The session\<close>

datatype PermissionProfile = READ_ONLY | WORKSPACE | FULL_ACCESS

definition normalize_profile :: "string option \<Rightarrow> PermissionProfile" where
  "normalize_profile name =
     (if name = Some ''read-only'' \<or> name = Some ''safe'' then READ_ONLY
      else if name = Some ''full-access'' then FULL_ACCESS
      else WORKSPACE)"

text \<open>\<open>worktree\<close> is the guard's \<open>classify\<close>, when the session has a guard.\<close>

record SessionScope =
  sc_kind :: string
  sc_root :: "ppath option"
  sc_cwd :: ppath
  profile :: PermissionProfile
  user_home :: "ppath option"
  worktree :: "(ppath \<Rightarrow> string option) option"
  private_roots :: "ppath list"
  external_content :: bool
  ask_new_destinations :: bool
  external_origins :: "string list"
  command_cwd :: "ppath option"
  extra_roots :: "ppath list"
  engine_home :: "ppath option"
  engine_home_open :: "ppath list"
  engine_home_readable :: "ppath list"

definition foreign_content :: "SessionScope \<Rightarrow> string \<Rightarrow> bool" where
  "foreign_content sc orig =
     (if \<not> external_content sc then False
      else if external_origins sc = [] then True
      else list_ex (\<lambda>seen. seen \<noteq> orig) (external_origins sc))"

definition inside_any :: "os_env \<Rightarrow> ppath \<Rightarrow> ppath list \<Rightarrow> bool" where
  "inside_any os p roots = list_ex (\<lambda>r. at_or_under (folder os r) p) roots"

section \<open>The engine's home in a command\<close>

definition PIECES :: rx where
  "PIECES = plus_rx (Cls (Either SpaceC (Chars ([sq, dq] @ ''`;|&<>(){}[],=''))))"

definition QUOTED :: rx where
  "QUOTED = alts [
     seqs [chr_is dq, Grp 1 (Star (none_of [dq])), chr_is dq],
     seqs [chr_is sq, Grp 2 (Star (none_of [sq])), chr_is sq]]"

definition looks_path :: "string \<Rightarrow> bool" where
  "looks_path piece =
     (if contains_sub piece ''://'' \<or> startswith piece ''//'' \<or> startswith piece [bslash, bslash] then False
      else CHR ''/'' \<in> set piece \<or> bslash \<in> set piece \<or> piece = ''.'' \<or> piece = ''..'' \<or>
           startswith piece ''~'' \<or> startswith piece ''$'' \<or> startswith piece ''%'')"

definition expand_piece :: "os_env \<Rightarrow> string \<Rightarrow> string" where
  "expand_piece os piece =
     expand_text os (if startswith (lower piece) ''$env:'' then ''$'' @ drop 5 piece else piece)"

text \<open>\<open>note\<close>: a place of the home, once.\<close>

definition note_place :: "os_env \<Rightarrow> ppath \<Rightarrow> ppath \<Rightarrow> ppath \<Rightarrow> ppath list \<Rightarrow> ppath list" where
  "note_place os home base raw found =
     (case resolve os (join_path base raw) of
        None \<Rightarrow> found
      | Some p \<Rightarrow> if at_or_under home p \<and> p \<notin> set found then found @ [p] else found)"

definition note_piece :: "os_env \<Rightarrow> ppath \<Rightarrow> ppath \<Rightarrow> string \<Rightarrow> ppath list \<Rightarrow> ppath list" where
  "note_piece os home base raw found =
     (let piece = strip raw in
      if piece = [] \<or> \<not> looks_path piece then found
      else
        (let found1 = note_place os home base (path_of (expand_piece os piece)) found in
         if bslash \<in> set piece
         then note_place os home base (path_of (expand_piece os (replace_char bslash (CHR ''/'') piece))) found1
         else found1))"

definition engine_home_targets :: "os_env \<Rightarrow> string \<Rightarrow> SessionScope \<Rightarrow> ppath list" where
  "engine_home_targets os command sc =
     (case engine_home sc of
        None \<Rightarrow> []
      | Some h \<Rightarrow>
          (let home = folder os h;
               base = (case command_cwd sc of Some c \<Rightarrow> c | None \<Rightarrow> sc_cwd sc);
               quoted = map (\<lambda>(m, gs). snd (hd gs)) (rx_finditer QUOTED command)
           in fold (note_piece os home base) (quoted @ rx_split PIECES command)
                (note_place os home base base [])))"

section \<open>Git pushes\<close>

definition rx_git_push :: rx where
  "rx_git_push = seqs [Bos, spaces0, opt_rx (Seq (lit ''env'') spaces1), lit ''git'', spaces1, lit ''push'', WordB]"

definition rx_force :: rx where
  "rx_force = seqs [rx_space, alts [Seq (lit ''--force'') WordB, Seq (lit ''-f'') WordB,
     Seq (lit ''--force-with-lease'') WordB]]"

datatype git_remote = Force | Remote

fun classify_segments :: "string list \<Rightarrow> git_remote option" where
  "classify_segments [] = None"
| "classify_segments (raw # segs) =
     (let segment = strip raw in
      if rx_match rx_git_push segment = None then classify_segments segs
      else if rx_search rx_force segment then Some Force
      else Some Remote)"

definition classify_git_remote :: "string \<Rightarrow> git_remote option" where
  "classify_git_remote command = classify_segments (rx_split (plus_rx (any_of '';|&'')) command)"

section \<open>Verbs of a command\<close>

definition rx_sudo :: rx where
  "rx_sudo = opt_rx (Seq (lit_ci ''sudo'') spaces1)"

definition MUTATING_SHELL :: rx where
  "MUTATING_SHELL = seqs [cmd_start, rx_sudo,
     verbs_ci [''cp'', ''mv'', ''rm'', ''mkdir'', ''touch'', ''install'', ''tee'', ''copy'', ''move'', ''del'', ''erase'',
       ''md'', ''rd'', ''rmdir'', ''set-content'', ''add-content'', ''out-file'', ''new-item'', ''remove-item'',
       ''move-item'', ''copy-item'', ''rename-item''], WordB]"

definition DESTRUCTIVE_SHELL :: rx where
  "DESTRUCTIVE_SHELL = seqs [cmd_start, rx_sudo,
     verbs_ci [''rm'', ''del'', ''erase'', ''rd'', ''rmdir'', ''remove-item''], WordB]"

definition CMD_SWITCH_VERBS :: "string list" where
  "CMD_SWITCH_VERBS = [''copy'', ''move'', ''del'', ''erase'', ''md'', ''rd'', ''rmdir'', ''mkdir'', ''xcopy'', ''robocopy'']"

definition INSPECTION_SHELL :: rx where
  "INSPECTION_SHELL = seqs [Bos, spaces0, alts [
     verbs_ci [''ls'', ''dir'', ''pwd'', ''cat'', ''type'', ''head'', ''tail'', ''wc'', ''stat'', ''file'', ''tree'', ''where'',
       ''which'', ''rg'', ''grep'', ''findstr'', ''get-childitem'', ''get-content'', ''get-item'', ''get-location'',
       ''resolve-path'', ''test-path''],
     seqs [lit_ci ''git'', spaces1, verbs_ci [''status'', ''log'', ''diff'', ''show'', ''branch'', ''rev-parse'',
       ''remote'', ''ls-files'', ''blame'']]], WordB, space_or_end]"

definition CHAINING :: rx where
  "CHAINING = alts [any_of '';&|`'', lit ''$('', lit ''>'']"

text \<open>\<open>"([^"]+)"|'([^']+)'|([^\s;&|]+)\<close>.\<close>

definition rx_token :: rx where
  "rx_token = alts [
     seqs [chr_is dq, Grp 1 (plus_rx (none_of [dq])), chr_is dq],
     seqs [chr_is sq, Grp 2 (plus_rx (none_of [sq])), chr_is sq],
     Grp 3 (plus_rx (Cls (Outside (Either SpaceC (Chars '';&|'')))))]"

definition REDIRECT_TARGET :: rx where
  "REDIRECT_TARGET = seqs [NotBehind (Chars ''>''), lit ''>'', opt_rx (lit ''>''), spaces0, rx_token]"

definition group_values :: "rx \<Rightarrow> string \<Rightarrow> string list" where
  "group_values r s = map (\<lambda>(m, gs). snd (hd gs)) (rx_finditer r s)"

definition COPY_VERBS :: "string list" where
  "COPY_VERBS = [''cp'', ''copy'', ''xcopy'', ''robocopy'', ''copy-item'', ''cpi'']"

fun named_destination :: "string list \<Rightarrow> string option" where
  "named_destination [] = None"
| "named_destination (token # ts) =
     (let lowered = lower token in
      if lowered \<in> {''-destination'', ''-t'', ''--target-directory''} \<and> ts \<noteq> [] then Some (hd ts)
      else if startswith lowered ''--target-directory='' then Some (snd (partition_at (CHR ''='') token))
      else named_destination ts)"

definition copy_destination :: "string \<Rightarrow> string list \<Rightarrow> string list \<Rightarrow> string list" where
  "copy_destination verb raw positional =
     (case named_destination raw of
        Some d \<Rightarrow> [d]
      | None \<Rightarrow>
          if verb = ''robocopy'' then take 1 (drop 1 positional)
          else if (verb = ''copy-item'' \<or> verb = ''cpi'') \<and> 2 \<le> length positional then [positional ! 1]
          else last_n 1 positional)"

definition local_part :: "string \<Rightarrow> string" where
  "local_part command =
     (case rx_match (seqs [Bos, spaces0, lit ''ssh'', WordB, Star (none_of [dq, sq])]) command of
        None \<Rightarrow> command
      | Some d \<Rightarrow> take (length command - length (rest d)) command)"

definition GIT_READ :: rx where
  "GIT_READ = seqs [Bos, spaces0, lit_ci ''git'', spaces1,
     verbs_ci [''status'', ''log'', ''diff'', ''show'', ''rev-parse'', ''ls-files'', ''blame'', ''shortlog''], space_or_end]"

definition GIT_READ_UNSAFE :: rx where
  "GIT_READ_UNSAFE = Seq (lit ''--'') (verbs_ci [''output'', ''ext-diff'', ''textconv''])"

definition git_reads_only :: "string \<Rightarrow> bool" where
  "git_reads_only command =
     (rx_match GIT_READ command \<noteq> None \<and> \<not> rx_search CHAINING command \<and> \<not> rx_search GIT_READ_UNSAFE command)"

definition is_inspection :: "string \<Rightarrow> bool" where
  "is_inspection command =
     (let c = local_part command in rx_match INSPECTION_SHELL c \<noteq> None \<and> \<not> rx_search CHAINING c)"

section \<open>Splitting a command\<close>

text \<open>
  \<open>shlex\<close>'s automaton: between words, in a word, in a run of punctuation, in a quote. The
  word read so far is kept reversed; \<open>quoted\<close> says that it had a quote, so that it counts even
  when empty. \<open>None\<close>: the closing quotation mark is missing, where \<open>shlex\<close> raises.
\<close>

datatype lex_state = LexGap | LexWord | LexPunct | LexQuote char

definition lex_space :: "char \<Rightarrow> bool" where
  "lex_space c = (c \<in> {CHR '' '', CHR 0x09, CHR 0x0D, newline})"

definition lex_punct :: "char \<Rightarrow> bool" where
  "lex_punct c = (c \<in> {CHR '';'', CHR ''&'', CHR ''|''})"

text \<open>The rest of the text after the comment, its end of line included.\<close>

definition skip_line :: "string \<Rightarrow> string" where
  "skip_line s = drop 1 (dropWhile (\<lambda>c. c \<noteq> newline) s)"

definition emit :: "string \<Rightarrow> bool \<Rightarrow> string list option \<Rightarrow> string list option" where
  "emit word quoted out = (if word \<noteq> [] \<or> quoted then map_option ((#) (rev word)) out else out)"

lemma skip_line_length: "length (skip_line s) \<le> length s"
  using length_dropWhile_le [of "\<lambda>c. c \<noteq> newline" s] by (simp add: skip_line_def)

function lex_tokens :: "lex_state \<Rightarrow> string \<Rightarrow> bool \<Rightarrow> string \<Rightarrow> string list option" where
  "lex_tokens (LexQuote q) word quoted [] = None"
| "lex_tokens LexGap word quoted [] = emit word quoted (Some [])"
| "lex_tokens LexWord word quoted [] = emit word quoted (Some [])"
| "lex_tokens LexPunct word quoted [] = emit word quoted (Some [])"
| "lex_tokens LexGap word quoted (c # s) =
     (if lex_space c then lex_tokens LexGap [] False s
      else if c = CHR ''#'' then lex_tokens LexGap [] False (skip_line s)
      else if lex_punct c then lex_tokens LexPunct [c] False s
      else if c = dq \<or> c = sq then lex_tokens (LexQuote c) [] True s
      else lex_tokens LexWord [c] False s)"
| "lex_tokens (LexQuote q) word quoted (c # s) =
     (if c = q then lex_tokens LexWord word True s else lex_tokens (LexQuote q) (c # word) True s)"
| "lex_tokens LexPunct word quoted (c # s) =
     (if lex_space c then emit word quoted (lex_tokens LexGap [] False s)
      else if c = CHR ''#'' then emit word quoted (lex_tokens LexGap [] False (skip_line s))
      else if lex_punct c then lex_tokens LexPunct (c # word) quoted s
      else emit word quoted (lex_tokens LexGap [] False (c # s)))"
| "lex_tokens LexWord word quoted (c # s) =
     (if lex_space c then emit word quoted (lex_tokens LexGap [] False s)
      else if c = CHR ''#'' then emit word quoted (lex_tokens LexGap [] False (skip_line s))
      else if c = dq \<or> c = sq then lex_tokens (LexQuote c) word quoted s
      else if lex_punct c then emit word quoted (lex_tokens LexGap [] False (c # s))
      else lex_tokens LexWord (c # word) quoted s)"
  by pat_completeness auto
termination
  by (relation "measures [\<lambda>(st, w, b, s). length s, \<lambda>(st, w, b, s). if st = LexGap then 0 else 1]")
     (auto simp: le_imp_less_Suc [OF skip_line_length])

text \<open>A token of punctuation alone (or an empty one) starts a new segment; empty segments go.\<close>

fun group_segments :: "string list \<Rightarrow> string list list" where
  "group_segments [] = [[]]"
| "group_segments (t # ts) =
     (if t \<noteq> [] \<and> list_all lex_punct t then [] # group_segments ts
      else (case group_segments ts of [] \<Rightarrow> [[t]] | g # gs \<Rightarrow> (t # g) # gs))"

definition segments :: "string \<Rightarrow> string list list option" where
  "segments command =
     map_option (\<lambda>ts. filter (\<lambda>g. g \<noteq> []) (group_segments ts)) (lex_tokens LexGap [] False command)"

section \<open>Deletes, test runners, other machines\<close>

definition program_of :: "string \<Rightarrow> string" where
  "program_of token =
     (let nm = lower (last (rx_split slash_either token)) in
      if endswith nm ''.exe'' then take (length nm - 4) nm else nm)"

definition drop_wrappers :: "string list \<Rightarrow> string list" where
  "drop_wrappers tokens = dropWhile (\<lambda>t. program_of t \<in> {''sudo'', ''env'', ''nohup'', ''time''}) tokens"

definition DELETE_VERBS :: "string list" where
  "DELETE_VERBS = [''rm'', ''del'', ''erase'', ''rd'', ''rmdir'', ''remove-item'', ''ri'']"

definition RM_FLAGS :: string where "RM_FLAGS = ''rRfivdI''"

definition rx_recursive_flag :: rx where
  "rx_recursive_flag = seqs [rx_space,
     alts [seqs [lit ''-'', Star rx_letter, lit_ci ''r'', Star rx_letter], lit_ci ''--recursive'', lit_ci ''/s'',
           Seq (lit_ci ''-rec'') (Star rx_word)], space_or_end]"

definition recursive_token :: "string \<Rightarrow> bool" where
  "recursive_token token =
     (let lowered = lower token in
      if lowered \<in> {''/s'', ''--recursive'', ''-r''} \<or> startswith lowered ''-rec'' then True
      else rx_fullmatch (seqs [lit ''-'', rx_letter, rx_letter, opt_rx rx_letter, opt_rx rx_letter, opt_rx rx_letter]) token \<and>
           list_all (\<lambda>c. c \<in> set RM_FLAGS) (tl token) \<and> list_ex (\<lambda>c. c = CHR ''r'' \<or> c = CHR ''R'') (tl token))"

definition recursive_delete :: "string \<Rightarrow> bool" where
  "recursive_delete command =
     (case segments (local_part command) of
        None \<Rightarrow> rx_search DESTRUCTIVE_SHELL command \<and> rx_search rx_recursive_flag command
      | Some segs \<Rightarrow>
          list_ex (\<lambda>ts. case drop_wrappers ts of
                          [] \<Rightarrow> False
                        | p # args \<Rightarrow> program_of p \<in> set DELETE_VERBS \<and> list_ex recursive_token args) segs)"

definition rx_env_assignment :: rx where
  "rx_env_assignment = seqs [Bos, Cls (Either LetterC (Chars ''_'')),
     Star (Cls (Either LetterC (Either DigitC (Chars ''_'')))), lit ''='']"

fun after_first :: "'a \<Rightarrow> 'a list \<Rightarrow> 'a list option" where
  "after_first x [] = None"
| "after_first x (y # ys) = (if y = x then Some ys else after_first x ys)"

definition removesuffix :: "string \<Rightarrow> string \<Rightarrow> string" where
  "removesuffix suf s = (if suf \<noteq> [] \<and> endswith s suf then take (length s - length suf) s else s)"

definition runner_of :: "string \<Rightarrow> string list \<Rightarrow> string option" where
  "runner_of program args =
     (let words = filter (\<lambda>t. \<not> startswith t ''-'') args in
      if program \<in> {''python'', ''python3'', ''py''}
      then (case after_first ''-m'' args of
              Some (m # ms) \<Rightarrow> if m = ''pytest'' then Some ''pytest'' else None
            | _ \<Rightarrow> None)
      else if program = ''pytest'' \<or> program = ''uv'' \<and> take 2 words = [''run'', ''pytest''] then Some ''pytest''
      else if program \<in> {''npm'', ''yarn'', ''pnpm''} \<and> (take 1 words = [''test''] \<or> take 2 words = [''run'', ''test''])
      then Some (program @ '' test'')
      else if program = ''npx'' \<and> take 2 words = [''vitest'', ''run''] \<or> program = ''vitest'' \<and> take 1 words = [''run'']
      then Some ''vitest''
      else if program \<in> {''cargo'', ''go'', ''dotnet''} \<and> take 1 words = [''test''] then Some (program @ '' test'')
      else if program \<in> {''mvn'', ''mvnw'', ''gradle'', ''gradlew''} \<and> take 1 words = [''test'']
      then Some (removesuffix ''w'' program @ '' test'')
      else None)"

definition detect_test_runner :: "string \<Rightarrow> string option" where
  "detect_test_runner command =
     (let txt = rx_remove (seqs [spaces1, lit ''2>&1'', spaces0, Eos]) (strip command) in
      if txt = [] \<or> rx_search CHAINING txt then None
      else
        (case segments txt of
           Some [ts] \<Rightarrow>
             (case dropWhile (\<lambda>t. rx_match rx_env_assignment t \<noteq> None) ts of
                [] \<Rightarrow> None
              | p # args \<Rightarrow>
                  (let runner = runner_of (program_of p) (map lower args) in
                   if runner = Some ''pytest'' \<and> list_ex (\<lambda>t. startswith t ''--basetemp'') (map lower args) then None
                   else runner))
         | _ \<Rightarrow> None))"

record RemoteAction =
  ra_kind :: string
  ra_host :: string
  ra_payload :: string

definition SSH_VALUE_OPTIONS :: string where "SSH_VALUE_OPTIONS = ''BbcDEeFIiJLlmOoPpQRSWw''"

definition REMOTE_PATH :: rx where
  "REMOTE_PATH = (let w = Cls (Either WordC (Chars ''.-'')) in
     seqs [Bos, opt_rx (Seq (plus_rx w) (lit ''@'')), plus_rx w, lit '':''])"

definition is_remote_path :: "string \<Rightarrow> bool" where
  "is_remote_path t = (rx_match REMOTE_PATH t \<noteq> None)"

definition is_drive_path :: "string \<Rightarrow> bool" where
  "is_drive_path t = (rx_match (seqs [Bos, rx_letter, lit '':'', slash_either]) t \<noteq> None)"

text \<open>The tokens after the options of \<open>ssh\<close>: the host and what runs there.\<close>

fun skip_ssh_options :: "string list \<Rightarrow> string list" where
  "skip_ssh_options [] = []"
| "skip_ssh_options (t # ts) =
     (if t = ''--'' then ts
      else if startswith t ''-'' \<and> 1 < length t
      then (if last t \<in> set SSH_VALUE_OPTIONS \<and> length t = 2
            then (case ts of [] \<Rightarrow> [] | v # us \<Rightarrow> skip_ssh_options us)
            else skip_ssh_options ts)
      else t # ts)"

definition remote_action :: "string list \<Rightarrow> RemoteAction list" where
  "remote_action tokens =
     (case drop_wrappers tokens of
        [] \<Rightarrow> []
      | p # args \<Rightarrow>
          if program_of p = ''ssh''
          then (case skip_ssh_options args of
                  [] \<Rightarrow> []
                | h # payload \<Rightarrow> [\<lparr>ra_kind = ''exec'', ra_host = h, ra_payload = join '' '' payload\<rparr>])
          else if program_of p = ''scp'' \<or> program_of p = ''rsync''
          then (let paths = filter (\<lambda>t. \<not> startswith t ''-'') args in
                if paths = [] then []
                else if is_remote_path (last paths) \<and> \<not> is_drive_path (last paths)
                then [\<lparr>ra_kind = ''send'', ra_host = fst (partition_at (CHR '':'') (last paths)), ra_payload = []\<rparr>]
                else if list_ex (\<lambda>t. is_remote_path t \<and> \<not> is_drive_path t) (butlast paths)
                then (case find_first is_remote_path (butlast paths) of
                        None \<Rightarrow> []
                      | Some src \<Rightarrow>
                          [\<lparr>ra_kind = ''fetch'', ra_host = fst (partition_at (CHR '':'') src), ra_payload = []\<rparr>])
                else [])
          else [])"

definition rx_names_remote :: rx where
  "rx_names_remote = seqs [alts [Bos, Cls (Either SpaceC (Chars ('';&|/'' @ [bslash])))],
     verbs_ci [''ssh'', ''scp'', ''rsync''], opt_rx (lit_ci ''.exe''), rx_space]"

definition remote_actions :: "string \<Rightarrow> RemoteAction list" where
  "remote_actions command =
     (case segments command of
        None \<Rightarrow>
          if rx_search rx_names_remote command
          then [\<lparr>ra_kind = ''exec'', ra_host = ''?'', ra_payload = command\<rparr>] else []
      | Some segs \<Rightarrow> concat (map remote_action segs))"

section \<open>The risk of a command\<close>

text \<open>What a decision may raise: no home folder behind a \<open>~name\<close>, a path that does not resolve, a
  target that is no host.\<close>

datatype policy_error = NoHomeDirectory | PathNotResolved | HostNotParsed

record ShellRisk =
  local_mutation :: bool
  external_path_targets :: "string list"
  remote_git_mutation :: bool
  destructive :: bool
  sensitive_target :: bool
  private_target :: bool
  confidence :: string

text \<open>The paths a mutating segment writes and those it only reads.\<close>

definition segment_paths :: "string \<Rightarrow> string list \<times> string list" where
  "segment_paths segment =
     (if \<not> rx_search MUTATING_SHELL segment then ([], [])
      else
        (let tokens = group_values rx_token segment;
             cmd_verb = (tokens \<noteq> [] \<and> lower (hd tokens) \<in> set CMD_SWITCH_VERBS);
             is_switch = rx_fullmatch (let q = Cls (Either LetterC (Chars ''?'')) in seqs [lit ''/'', q, opt_rx q]);
             arguments = filter (\<lambda>t. \<not> startswith t ''-'' \<and> \<not> (cmd_verb \<and> is_switch t)) (tl tokens);
             verb = (if tokens = [] then [] else program_of (hd tokens))
         in if verb \<in> set COPY_VERBS
            then (let written = copy_destination verb (tl tokens) arguments
                  in (written, filter (\<lambda>t. t \<notin> set written) arguments))
            else (arguments, [])))"

text \<open>The folder relative paths start from.\<close>

definition risk_base :: "SessionScope \<Rightarrow> ppath" where
  "risk_base sc =
     (case command_cwd sc of
        Some c \<Rightarrow> c
      | None \<Rightarrow> (case sc_root sc of
                   Some r \<Rightarrow> if sc_kind sc = ''PROJECT'' then r else sc_cwd sc
                 | None \<Rightarrow> sc_cwd sc))"

definition inside_workspace :: "os_env \<Rightarrow> SessionScope \<Rightarrow> ppath \<Rightarrow> bool" where
  "inside_workspace os sc p =
     (let r = map_option (folder os) (sc_root sc); h = map_option (folder os) (user_home sc);
          r' = (if r \<noteq> None \<and> r = h then None else r)
      in if list_ex (\<lambda>e. at_or_under (folder os e) p) (filter (\<lambda>e. h = None \<or> Some (folder os e) \<noteq> h) (extra_roots sc))
         then True
         else (case r' of None \<Rightarrow> False | Some q \<Rightarrow> at_or_under q p))"

text \<open>The path a token names: \<open>Inr None\<close> when it is skipped. A \<open>~name\<close> without a home raises.\<close>

definition token_path :: "os_env \<Rightarrow> SessionScope \<Rightarrow> string \<Rightarrow> policy_error + ppath option" where
  "token_path os sc raw =
     (let v = rstrip (\<lambda>c. c \<in> set '',)'') (strip raw) in
      if v = [] \<or> v = ''-'' \<or> v = ''/dev/null'' \<or> lower v = ''nul'' \<or> lower v = ''nul:'' then Inr None
      else
        bindE (if startswith v ''~''
               then (case expand_user os (path_of v) of None \<Rightarrow> Inl NoHomeDirectory | Some p \<Rightarrow> Inr (str_path p))
               else Inr v) (\<lambda>w.
        if \<not> (startswith w ''.'' \<or> startswith w ''/'' \<or> startswith w [bslash] \<or> startswith w ''~'' \<or>
              is_drive_path w \<or> CHR ''/'' \<in> set w \<or> bslash \<in> set w)
        then Inr None
        else Inr (resolve os (join_path (risk_base sc) (path_of w)))))"

text \<open>The loop over the tokens: external targets, whether a secret and whether private data is named.\<close>

fun risk_loop ::
  "os_env \<Rightarrow> SessionScope \<Rightarrow> (string \<times> bool) list \<Rightarrow> string list \<times> bool \<times> bool \<Rightarrow>
     policy_error + string list \<times> bool \<times> bool" where
  "risk_loop os sc [] acc = Inr acc"
| "risk_loop os sc ((raw, writes) # items) (external, sens, priv) =
     bindE (token_path os sc raw) (\<lambda>found.
     case found of
       None \<Rightarrow> risk_loop os sc items (external, sens, priv)
     | Some p \<Rightarrow>
         risk_loop os sc items
           (if writes \<and> \<not> inside_workspace os sc p \<and> str_path p \<notin> set external then external @ [str_path p] else external,
            sens \<or> is_system_secret p, priv \<or> inside_any os p (private_roots sc)))"

definition risk_items :: "string \<Rightarrow> (string \<times> bool) list" where
  "risk_items command =
     (let redirects = group_values REDIRECT_TARGET command;
          mutation = (rx_search MUTATING_SHELL command \<or> rx_search REDIRECT_TARGET command);
          parts = (if mutation then map segment_paths (rx_split (plus_rx (any_of '';&|'')) command) else [])
      in map (\<lambda>t. (t, True)) (redirects @ concat (map fst parts)) @ map (\<lambda>t. (t, False)) (concat (map snd parts)))"

definition classify_shell_risk :: "os_env \<Rightarrow> string \<Rightarrow> SessionScope \<Rightarrow> policy_error + ShellRisk" where
  "classify_shell_risk os whole sc =
     (let command = local_part whole;
          mutation = (rx_search MUTATING_SHELL command \<or> rx_search REDIRECT_TARGET command)
      in bindE (risk_loop os sc (risk_items command) ([], False, False)) (\<lambda>(external, sens, priv).
         Inr \<lparr>local_mutation = mutation, external_path_targets = external,
              remote_git_mutation = (classify_git_remote command \<noteq> None),
              destructive = rx_search DESTRUCTIVE_SHELL command,
              sensitive_target = sens, private_target = priv,
              confidence = (if mutation \<and> list_ex snd (risk_items command) then ''high'' else ''low'')\<rparr>))"

end
