(* ===== verification/Network_Policy.thy ===== *)
theory Network_Policy
  imports Rinari_Prelude
begin

text \<open>
  The gate for outbound connections (\<^verbatim>\<open>src/src/rinari/policy/network.py\<close>): reduction of a target
  to its host, host matching, the decision and the guard that enforces it.

  A target is a string. The part of \<open>urllib.parse.urlparse\<close> the code uses, the \<open>netloc\<close> of a
  URL, is modelled with the errors it raises; whether a host in brackets is a valid IP
  literal, which \<open>ipaddress\<close> decides, is the argument \<open>ip_ok\<close>. A decision reads the rules
  twice; the model takes them as one list.
\<close>

section \<open>Hosts\<close>

definition count_char :: "char \<Rightarrow> string \<Rightarrow> nat" where
  "count_char c s = length (filter (\<lambda>x. x = c) s)"

text \<open>\<open>s.rpartition(c)[2]\<close>: what follows the last \<open>c\<close>, all of \<open>s\<close> when there is none.\<close>

definition after_last :: "char \<Rightarrow> string \<Rightarrow> string" where
  "after_last c s = rev (takeWhile (\<lambda>x. x \<noteq> c) (rev s))"

definition before_first :: "char \<Rightarrow> string \<Rightarrow> string" where
  "before_first c s = takeWhile (\<lambda>x. x \<noteq> c) s"

definition is_ascii_alpha :: "char \<Rightarrow> bool" where
  "is_ascii_alpha c = (let n = cp c in 65 \<le> n \<and> n \<le> 90 \<or> 97 \<le> n \<and> n \<le> 122)"

definition is_scheme_char :: "char \<Rightarrow> bool" where
  "is_scheme_char c = (is_ascii_alpha c \<or> is_ascii_digit c \<or> c \<in> set ''+-.'')"

text \<open>\<open>urlsplit\<close> up to the \<open>netloc\<close>: control characters and spaces at the front are dropped, tab,
  carriage return and line feed anywhere, then the scheme, then what stands between \<open>//\<close> and the
  next slash, question mark or hash. Brackets that do not pair raise \<open>ValueError\<close> (\<open>None\<close>).\<close>

definition url_rest :: "string \<Rightarrow> string" where
  "url_rest u =
     (let i = length (before_first (CHR '':'') u) in
      if CHR '':'' \<in> set u \<and> 0 < i \<and> is_ascii_alpha (hd u) \<and> list_all is_scheme_char (take i u)
      then drop (Suc i) u else u)"

definition urlparse_netloc :: "(string \<Rightarrow> bool) \<Rightarrow> string \<Rightarrow> string option" where
  "urlparse_netloc ip_ok url =
     (let u = filter (\<lambda>c. cp c \<noteq> 9 \<and> cp c \<noteq> 10 \<and> cp c \<noteq> 13) (dropWhile (\<lambda>c. cp c \<le> 32) url);
          rest = url_rest u
      in if \<not> startswith rest ''//'' then Some []
         else (let netloc = takeWhile (\<lambda>c. c \<notin> set ''/?#'') (drop 2 rest);
                   opens = CHR ''['' \<in> set netloc; closes = CHR '']'' \<in> set netloc
               in if opens \<noteq> closes then None
                  else if opens \<and> \<not> ip_ok netloc then None
                  else Some netloc))"

definition is_network_char :: "char \<Rightarrow> bool" where
  "is_network_char c = (c \<in> set ''abcdefghijklmnopqrstuvwxyz0123456789.-'')"

text \<open>The part of \<open>normalize_host\<close> after the \<open>netloc\<close> is known.\<close>

definition bare_host :: "string \<Rightarrow> string option" where
  "bare_host raw =
     (let t1 = (if CHR ''@'' \<in> set raw then after_last (CHR ''@'') raw else raw);
          t2 = rstrip (\<lambda>c. c = CHR ''.'') (strip t1)
      in if CHR ''['' \<in> set t2 \<or> CHR '']'' \<in> set t2 then None
         else (let t3 = (if count_char (CHR '':'') t2 = 1 then before_first (CHR '':'') t2 else t2);
                   t4 = lower t3
               in if t4 = [] \<or> \<not> list_all is_network_char t4 then None else Some t4))"

text \<open>\<open>normalize_host\<close>: the left side is a \<open>ValueError\<close> of \<open>urlparse\<close>.\<close>

definition normalize_host :: "(string \<Rightarrow> bool) \<Rightarrow> string \<Rightarrow> unit + string option" where
  "normalize_host ip_ok value =
     (let text = strip value in
      if text = [] then Inr None
      else if contains_sub text ''://''
      then (case urlparse_netloc ip_ok text of
              None \<Rightarrow> Inl ()
            | Some netloc \<Rightarrow> Inr (if netloc = [] then None else bare_host netloc))
      else Inr (bare_host text))"

definition or_empty :: "string option \<Rightarrow> string" where
  "or_empty x = (case x of None \<Rightarrow> [] | Some s \<Rightarrow> s)"

definition host_matches :: "(string \<Rightarrow> bool) \<Rightarrow> string \<Rightarrow> string \<Rightarrow> unit + bool" where
  "host_matches ip_ok rule_host target_host =
     (case normalize_host ip_ok rule_host of
        Inl e \<Rightarrow> Inl e
      | Inr r \<Rightarrow>
          (case normalize_host ip_ok target_host of
             Inl e \<Rightarrow> Inl e
           | Inr t \<Rightarrow>
               (let rl = or_empty r; tgt = or_empty t in
                Inr (if rl = [] \<or> tgt = [] then False else tgt = rl \<or> endswith tgt (''.'' @ rl)))))"

section \<open>The decision\<close>

datatype PolicyAction = ALLOW | ASK | DENY

datatype network_mode = MODE_OFF | MODE_ASK | MODE_ALLOW | MODE_AUTO

datatype rule_decision = DECISION_ALLOW | DECISION_DENY

record NetworkRule =
  nr_host :: string
  nr_decision :: rule_decision
  nr_scope :: string
  nr_reason :: string

record NetworkDecision =
  nd_action :: PolicyAction
  nd_host :: "string option"
  nd_reason :: string
  nd_rule :: "NetworkRule option"
  nd_target :: string

text \<open>The first rule of a kind that matches; a rule whose host raises stops the scan.\<close>

fun first_match ::
  "(string \<Rightarrow> bool) \<Rightarrow> rule_decision \<Rightarrow> string \<Rightarrow> NetworkRule list \<Rightarrow> unit + NetworkRule option" where
  "first_match ip_ok d host [] = Inr None"
| "first_match ip_ok d host (r # rs) =
     (if nr_decision r = d
      then (case host_matches ip_ok (nr_host r) host of
              Inl e \<Rightarrow> Inl e
            | Inr b \<Rightarrow> if b then Inr (Some r) else first_match ip_ok d host rs)
      else first_match ip_ok d host rs)"

definition network_decide ::
  "(string \<Rightarrow> bool) \<Rightarrow> network_mode \<Rightarrow> NetworkRule list \<Rightarrow> string \<Rightarrow> unit + NetworkDecision" where
  "network_decide ip_ok mode rules target =
     (case normalize_host ip_ok target of
        Inl e \<Rightarrow> Inl e
      | Inr None \<Rightarrow>
          Inr \<lparr>nd_action = DENY, nd_host = None,
               nd_reason = ''network target could not be resolved to a host'',
               nd_rule = None, nd_target = take 200 target\<rparr>
      | Inr (Some host) \<Rightarrow>
          (case first_match ip_ok DECISION_DENY host rules of
             Inl e \<Rightarrow> Inl e
           | Inr (Some r) \<Rightarrow>
               Inr \<lparr>nd_action = DENY, nd_host = Some host,
                    nd_reason = ''host '' @ host @ '' is denied by rule ('' @ nr_host r @ '')'' @
                      (if nr_reason r \<noteq> [] then '': '' @ nr_reason r else []),
                    nd_rule = Some r, nd_target = host\<rparr>
           | Inr None \<Rightarrow>
               if mode = MODE_OFF
               then Inr \<lparr>nd_action = DENY, nd_host = Some host,
                         nd_reason = ''network is disabled (network.mode=off)'',
                         nd_rule = None, nd_target = host\<rparr>
               else (case first_match ip_ok DECISION_ALLOW host rules of
                   Inl e \<Rightarrow> Inl e
                 | Inr (Some r) \<Rightarrow>
                     Inr \<lparr>nd_action = ALLOW, nd_host = Some host,
                          nd_reason = ''host '' @ host @ '' matches allow rule ('' @ nr_host r @ '')'',
                          nd_rule = Some r, nd_target = host\<rparr>
                 | Inr None \<Rightarrow>
                     Inr (case mode of
                        MODE_ALLOW \<Rightarrow>
                          \<lparr>nd_action = ALLOW, nd_host = Some host,
                           nd_reason = ''network.mode=allow (no matching deny rule)'',
                           nd_rule = None, nd_target = host\<rparr>
                      | MODE_AUTO \<Rightarrow>
                          \<lparr>nd_action = ALLOW, nd_host = Some host,
                           nd_reason = ''network.mode=auto (the permission profile decides)'',
                           nd_rule = None, nd_target = host\<rparr>
                      | _ \<Rightarrow>
                          \<lparr>nd_action = ASK, nd_host = Some host,
                           nd_reason = ''outbound network requires approval (network.mode=ask)'',
                           nd_rule = None, nd_target = host\<rparr>))))"

text \<open>\<open>NetworkGuard.assert_reachable\<close>: \<open>Inl None\<close> is a \<open>ValueError\<close>, \<open>Inl (Some why)\<close> the violation.\<close>

definition assert_reachable ::
  "(string \<Rightarrow> bool) \<Rightarrow> network_mode \<Rightarrow> NetworkRule list \<Rightarrow> string \<Rightarrow> string option + string" where
  "assert_reachable ip_ok mode rules target =
     (case network_decide ip_ok mode rules target of
        Inl e \<Rightarrow> Inl None
      | Inr d \<Rightarrow> if nd_action d = DENY then Inl (Some (''network blocked: '' @ nd_reason d))
                 else Inr (or_empty (nd_host d)))"

section \<open>Hosts and labels\<close>

lemma network_char_facts:
  assumes "is_network_char c"
  shows "\<not> is_space c" "c \<notin> set ''@[]:''" "lower_char c = c"
proof -
  have "list_all (\<lambda>c. \<not> is_space c \<and> c \<notin> set ''@[]:'' \<and> lower_char c = c)
      ''abcdefghijklmnopqrstuvwxyz0123456789.-''"
    by code_simp
  with assms show "\<not> is_space c" "c \<notin> set ''@[]:''" "lower_char c = c"
    unfolding is_network_char_def list_all_iff by blast+
qed

lemma strip_no_space: "list_all (\<lambda>c. \<not> is_space c) s \<Longrightarrow> strip s = s"
proof -
  assume s: "list_all (\<lambda>c. \<not> is_space c) s"
  then have "dropWhile is_space (rev s) = rev s" and "dropWhile is_space s = s"
    by (auto intro!: dropWhile_id simp: list_all_iff hd_rev)
  then show ?thesis by (simp add: strip_def lstrip_def rstrip_def)
qed

lemma normalize_host_chars:
  assumes "normalize_host ip_ok v = Inr (Some h)"
  shows "h \<noteq> [] \<and> list_all is_network_char h"
  using assms
  by (auto simp: normalize_host_def bare_host_def Let_def split: if_splits option.splits)

definition undotted :: "string \<Rightarrow> string" where
  "undotted h = rstrip (\<lambda>c. c = CHR ''.'') h"

lemma set_undotted: "set (undotted h) \<subseteq> set h"
  by (auto simp: undotted_def rstrip_def dest: set_dropWhileD)

lemma contains_sub_set: "contains_sub s p \<Longrightarrow> set p \<subseteq> set s"
  by (auto simp: contains_sub_def list_ex_iff startswith_iff dest: in_set_dropD)
    (metis Un_iff in_set_dropD set_append)

text \<open>Normalising a host again only drops trailing dots.\<close>

lemma normalize_host_again:
  assumes "h \<noteq> []" and "list_all is_network_char h"
  shows "normalize_host ip_ok h = Inr (if undotted h = [] then None else Some (undotted h))"
proof -
  have no: "c \<notin> set ''@[]:''" "\<not> is_space c" "lower_char c = c" if "c \<in> set h" for c
    using network_char_facts assms(2) that by (auto simp: list_all_iff)
  then have h: "strip h = h" by (intro strip_no_space) (simp add: list_all_iff)
  have "CHR '':'' \<notin> set h" "CHR ''@'' \<notin> set h" "CHR ''['' \<notin> set h" "CHR '']'' \<notin> set h"
    using no(1) by auto
  moreover have "\<not> contains_sub h ''://''"
    using contains_sub_set [of h "''://''"] \<open>CHR '':'' \<notin> set h\<close> by auto
  moreover have "CHR '':'' \<notin> set (undotted h)" "CHR ''['' \<notin> set (undotted h)" "CHR '']'' \<notin> set (undotted h)"
    using set_undotted calculation(1,3,4) by blast+
  moreover have "count_char (CHR '':'') (undotted h) = 0"
    using \<open>CHR '':'' \<notin> set (undotted h)\<close> by (auto simp: count_char_def filter_empty_conv)
  moreover have "lower (undotted h) = undotted h"
    using no(3) set_undotted by (fastforce simp: lower_def intro!: map_idI)
  moreover have "list_all is_network_char (undotted h)"
    using assms(2) set_undotted by (auto simp: list_all_iff)
  ultimately show ?thesis
    using assms(1) h by (simp add: normalize_host_def bare_host_def Let_def undotted_def [symmetric])
qed

lemma label_suffix:
  "tgt = rl \<or> endswith tgt (''.'' @ rl) \<longleftrightarrow>
     (\<exists>pre. split_on (CHR ''.'') tgt = pre @ split_on (CHR ''.'') rl)"
proof
  assume "tgt = rl \<or> endswith tgt (''.'' @ rl)"
  then consider "tgt = rl" | x where "tgt = x @ CHR ''.'' # rl" by (auto simp: endswith_iff)
  then show "\<exists>pre. split_on (CHR ''.'') tgt = pre @ split_on (CHR ''.'') rl"
    by cases (auto simp: split_on_append)
next
  assume "\<exists>pre. split_on (CHR ''.'') tgt = pre @ split_on (CHR ''.'') rl"
  then obtain pre where pre: "split_on (CHR ''.'') tgt = pre @ split_on (CHR ''.'') rl" ..
  have "tgt = join ''.'' (split_on (CHR ''.'') tgt)" by simp
  also have "\<dots> = join ''.'' (pre @ split_on (CHR ''.'') rl)" by (simp only: pre)
  finally have "tgt = (if pre = [] then rl else join ''.'' pre @ ''.'' @ rl)"
    by (auto simp: join_append)
  then show "tgt = rl \<or> endswith tgt (''.'' @ rl)" by (auto simp: endswith_iff split: if_splits)
qed

text \<open>
  C21. Host matching is by labels: a rule covers a target exactly when the labels of the rule's
  host are the last labels of the target's host, so \<open>github.com\<close> covers \<open>api.github.com\<close> and not
  \<open>evil-github.com\<close>.
\<close>

theorem host_matches_labels:
  assumes "normalize_host ip_ok rule_host = Inr (Some rl)" and "normalize_host ip_ok target = Inr (Some tgt)"
  shows "host_matches ip_ok rule_host target =
    Inr (\<exists>pre. split_on (CHR ''.'') tgt = pre @ split_on (CHR ''.'') rl)"
  using assms normalize_host_chars label_suffix [of tgt rl]
  by (auto simp: host_matches_def or_empty_def)

theorem host_matches_labels_witness:
  "host_matches (\<lambda>_. True) ''https://GitHub.com/'' ''api.github.com:443'' =
     Inr (\<exists>pre. split_on (CHR ''.'') ''api.github.com'' = pre @ split_on (CHR ''.'') ''github.com'') \<and>
   host_matches (\<lambda>_. True) ''github.com'' ''evil-github.com'' =
     Inr (\<exists>pre. split_on (CHR ''.'') ''evil-github.com'' = pre @ split_on (CHR ''.'') ''github.com'')"
  by (rule conjI; rule host_matches_labels) code_simp+

section \<open>The decision\<close>

definition covered :: "(string \<Rightarrow> bool) \<Rightarrow> NetworkRule list \<Rightarrow> string \<Rightarrow> rule_decision \<Rightarrow> bool" where
  "covered ip_ok rules host d =
     list_ex (\<lambda>r. nr_decision r = d \<and> host_matches ip_ok (nr_host r) host = Inr True) rules"

lemma first_match_covered:
  "first_match ip_ok d host rs = Inr m \<Longrightarrow> covered ip_ok rs host d \<longleftrightarrow> m \<noteq> None"
  unfolding covered_def by (induction rs) (auto split: sum.splits if_splits)

lemma first_match_none:
  "first_match ip_ok d host rs = Inr None \<longleftrightarrow>
     list_all (\<lambda>r. if nr_decision r = d then host_matches ip_ok (nr_host r) host = Inr False else True) rs"
  by (induction rs) (auto split: sum.splits)

text \<open>The documented order: deny rules, mode off, allow rules, then the mode.\<close>

definition documented_action ::
  "(string \<Rightarrow> bool) \<Rightarrow> network_mode \<Rightarrow> NetworkRule list \<Rightarrow> string \<Rightarrow> PolicyAction" where
  "documented_action ip_ok mode rules host =
     (if covered ip_ok rules host DECISION_DENY then DENY
      else if mode = MODE_OFF then DENY
      else if covered ip_ok rules host DECISION_ALLOW then ALLOW
      else if mode = MODE_ASK then ASK else ALLOW)"

lemma network_decide_host:
  "network_decide ip_ok mode rules target = Inr d \<Longrightarrow> normalize_host ip_ok target = Inr (nd_host d)"
  by (auto simp: network_decide_def split: sum.splits option.splits if_splits network_mode.splits)

text \<open>
  C24. The decision follows the documented order: an unresolvable target is denied, a matching
  deny rule beats the mode and every allow rule, mode off denies the rest, then allow rules,
  then the mode.
\<close>

theorem network_decide_order:
  assumes "network_decide ip_ok mode rules target = Inr d"
  shows "\<exists>h. normalize_host ip_ok target = Inr h \<and> nd_host d = h \<and>
    nd_action d = (case h of None \<Rightarrow> DENY | Some host \<Rightarrow> documented_action ip_ok mode rules host)"
proof -
  obtain h where h: "normalize_host ip_ok target = Inr h"
    using assms by (auto simp: network_decide_def split: sum.splits)
  show ?thesis
  proof (cases h)
    case None
    with assms h show ?thesis by (auto simp: network_decide_def)
  next
    case (Some host)
    with assms h obtain m where m: "first_match ip_ok DECISION_DENY host rules = Inr m"
      by (auto simp: network_decide_def split: sum.splits)
    note deny = first_match_covered [OF m]
    show ?thesis
    proof (cases "m \<noteq> None \<or> mode = MODE_OFF")
      case True
      with assms h Some m deny show ?thesis
        by (cases m) (auto simp: network_decide_def documented_action_def)
    next
      case False
      with assms h Some m obtain n where n: "first_match ip_ok DECISION_ALLOW host rules = Inr n"
        by (auto simp: network_decide_def split: sum.splits)
      with assms h Some m deny False first_match_covered [OF n] show ?thesis
        by (cases n; cases mode) (auto simp: network_decide_def documented_action_def)
    qed
  qed
qed

text \<open>
  C26. What the guard lets through: the network is not off, the target reduces to a non-empty
  host of host characters, and no deny rule matches that host.
\<close>

theorem guard_enforces_denies:
  assumes "assert_reachable ip_ok mode rules target = Inr h"
  shows "mode \<noteq> MODE_OFF \<and> normalize_host ip_ok target = Inr (Some h) \<and> h \<noteq> [] \<and>
    list_all is_network_char h \<and>
    list_all (\<lambda>r. if nr_decision r = DECISION_DENY then host_matches ip_ok (nr_host r) h = Inr False else True) rules"
proof -
  obtain d where d: "network_decide ip_ok mode rules target = Inr d" "nd_action d \<noteq> DENY" "h = or_empty (nd_host d)"
    using assms by (auto simp: assert_reachable_def split: sum.splits if_splits)
  then obtain host where host: "normalize_host ip_ok target = Inr (Some host)"
      "first_match ip_ok DECISION_DENY host rules = Inr None" "mode \<noteq> MODE_OFF"
    by (auto simp: network_decide_def split: sum.splits option.splits if_splits)
  then have "nd_host d = Some host"
    using network_decide_host [OF d(1)] by simp
  with d(3) have "h = host" by (simp add: or_empty_def)
  then show ?thesis
    using host normalize_host_chars [OF host(1)] unfolding first_match_none by blast
qed

definition sample_rules :: "NetworkRule list" where
  "sample_rules =
     [\<lparr>nr_host = ''evil.com'', nr_decision = DECISION_DENY, nr_scope = ''global'', nr_reason = []\<rparr>,
      \<lparr>nr_host = ''a.evil.com'', nr_decision = DECISION_ALLOW, nr_scope = ''global'', nr_reason = []\<rparr>]"

theorem network_decide_order_witness:
  "map_sum id nd_action (network_decide (\<lambda>_. True) MODE_ALLOW sample_rules ''https://u@a.evil.com.:8443/x'') = Inr DENY"
proof -
  let ?d = "network_decide (\<lambda>_. True) MODE_ALLOW sample_rules ''https://u@a.evil.com.:8443/x''"
  have "\<not> isl ?d" by code_simp
  then obtain d where d: "?d = Inr d" by (cases ?d) auto
  have "normalize_host (\<lambda>_. True) ''https://u@a.evil.com.:8443/x'' = Inr (Some ''a.evil.com.'')"
    "documented_action (\<lambda>_. True) MODE_ALLOW sample_rules ''a.evil.com.'' = DENY" by code_simp+
  with network_decide_order [OF d] show ?thesis by (auto simp: d)
qed

theorem guard_enforces_denies_witness:
  "list_all is_network_char ''good.org'' \<and> isl (assert_reachable (\<lambda>_. True) MODE_AUTO sample_rules ''a.evil.com'')"
proof -
  have "assert_reachable (\<lambda>_. True) MODE_AUTO sample_rules ''http://good.org/p'' = Inr ''good.org''"
    by code_simp
  note guard_enforces_denies [OF this]
  moreover have "isl (assert_reachable (\<lambda>_. True) MODE_AUTO sample_rules ''a.evil.com'')" by code_simp
  ultimately show ?thesis by simp
qed


end
