(* ===== verification/Policy_Engine.thy ===== *)
theory Policy_Engine
  imports Shell_Text Network_Policy
begin

text \<open>
  The permission policy: whether a tool's action is allowed, asked about or denied
  (\<^verbatim>\<open>src/src/rinari/policy/engine.py\<close>, class \<open>PolicyEngine\<close>, with \<^verbatim>\<open>policy/mcp_tools.py\<close>). What it reads
  in commands, paths and hosts is \<open>Shell_Text\<close>; the network rules are \<open>Network_Policy\<close>.

  The engine keeps no state of its own: \<open>decide\<close> is a function of the session (\<^typ>\<open>SessionScope\<close>), the
  capability and the request. It can raise (a \<open>~name\<close> without a home, a path that does not resolve, a
  target that is no host), so its result is a sum. \<open>repr\<close> of a capability's name is a parameter.
\<close>

section \<open>MCP tools\<close>

abbreviation MCP_ALLOW :: string where "MCP_ALLOW \<equiv> ''allow''"
abbreviation MCP_ASK :: string where "MCP_ASK \<equiv> ''ask''"
abbreviation MCP_DENY :: string where "MCP_DENY \<equiv> ''deny''"

definition MCP_DECISIONS :: "string list" where
  "MCP_DECISIONS = [MCP_ALLOW, MCP_ASK, MCP_DENY]"

definition ANNOTATION_KEYS :: "string list" where
  "ANNOTATION_KEYS = [''readOnlyHint'', ''destructiveHint'', ''openWorldHint'']"

record McpToolFacts =
  mf_server :: string
  mf_tool :: string
  mf_read_only :: bool
  mf_destructive :: bool
  mf_open_world :: "bool option"
  mf_decision :: "string option"
  mf_decision_source :: string

definition mcp_origin :: "string \<Rightarrow> string" where
  "mcp_origin server = ''mcp:'' @ server"

definition sends_out :: "McpToolFacts \<Rightarrow> bool" where
  "sends_out f = (\<not> mf_read_only f \<and> mf_open_world f \<noteq> Some False)"

fun as_bool :: "json \<Rightarrow> bool option" where
  "as_bool (JBool b) = Some b"
| "as_bool _ = None"

text \<open>The hints that count; an absent dictionary is an empty one.\<close>

definition effective_annotations :: "(string \<times> json) list \<Rightarrow> (string \<times> json) list \<Rightarrow> (string \<times> bool option) list" where
  "effective_annotations server_annotations corrections =
     (let merged = map (\<lambda>k. (k, case as_bool (obj_get corrections k) of
                                   Some b \<Rightarrow> Some b
                                 | None \<Rightarrow> as_bool (obj_get server_annotations k))) ANNOTATION_KEYS
      in if obj_get corrections ''destructiveHint'' = JBool True \<and> dict_get corrections ''readOnlyHint'' = None
         then dict_set ''readOnlyHint'' (Some False) merged
         else merged)"

definition hint :: "(string \<times> bool option) list \<Rightarrow> string \<Rightarrow> bool option" where
  "hint ann k = (case dict_get ann k of Some v \<Rightarrow> v | None \<Rightarrow> None)"

definition facts_for ::
  "string \<Rightarrow> string \<Rightarrow> (string \<times> bool option) list \<Rightarrow> string option \<Rightarrow> string \<Rightarrow> McpToolFacts" where
  "facts_for server tool_name ann dec src =
     (let ro = (hint ann ''readOnlyHint'' = Some True);
          known = (case dec of Some d \<Rightarrow> d \<in> set MCP_DECISIONS | None \<Rightarrow> False)
      in \<lparr>mf_server = server, mf_tool = tool_name, mf_read_only = ro,
          mf_destructive = (\<not> ro \<and> hint ann ''destructiveHint'' = Some True),
          mf_open_world = hint ann ''openWorldHint'',
          mf_decision = (if known then dec else None),
          mf_decision_source = (if known then src else ''mode'')\<rparr>)"

section \<open>Decisions\<close>

record PolicyDecision =
  pd_action :: PolicyAction
  pd_capability :: string
  pd_reason :: string
  pd_target :: "string option"
  pd_risk :: string
  pd_risk_class :: string
  pd_rule_id :: string
  pd_reusable :: bool
  pd_choices :: "string list"
  pd_binding_mode :: string

definition CHOICES_HARD :: "string list" where
  "CHOICES_HARD = [''deny'', ''allow_once'']"

definition CHOICES_SESSION :: "string list" where
  "CHOICES_SESSION = [''deny'', ''allow_once'', ''allow_session'']"

definition CHOICES_LASTING :: "string list" where
  "CHOICES_LASTING = [''deny'', ''allow_once'', ''allow_session'', ''allow_project'']"

text \<open>\<open>PolicyDecision(...)\<close> with the dataclass's defaults for what is not given.\<close>

definition plain_decision :: "PolicyAction \<Rightarrow> string \<Rightarrow> string \<Rightarrow> string option \<Rightarrow> string \<Rightarrow> string \<Rightarrow> PolicyDecision" where
  "plain_decision act cap reason target risk risk_class =
     \<lparr>pd_action = act, pd_capability = cap, pd_reason = reason, pd_target = target, pd_risk = risk,
      pd_risk_class = risk_class, pd_rule_id = ''default'', pd_reusable = True, pd_choices = CHOICES_SESSION,
      pd_binding_mode = ''capability''\<rparr>"

abbreviation allow_decision :: "string \<Rightarrow> string \<Rightarrow> string option \<Rightarrow> string \<Rightarrow> string \<Rightarrow> PolicyDecision" where
  "allow_decision \<equiv> plain_decision ALLOW"

definition deny_decision :: "string \<Rightarrow> string \<Rightarrow> string option \<Rightarrow> string \<Rightarrow> string \<Rightarrow> string \<Rightarrow> PolicyDecision" where
  "deny_decision cap reason target risk risk_class rule =
     (plain_decision DENY cap reason target risk risk_class)
       \<lparr>pd_rule_id := rule, pd_reusable := False, pd_choices := [''deny'']\<rparr>"

definition ask_decision ::
  "string \<Rightarrow> string \<Rightarrow> string option \<Rightarrow> string \<Rightarrow> string \<Rightarrow> string \<Rightarrow> string list \<Rightarrow> string \<Rightarrow> PolicyDecision" where
  "ask_decision cap reason target risk risk_class rule offered binding =
     (plain_decision ASK cap reason target risk risk_class)
       \<lparr>pd_rule_id := rule, pd_reusable := (offered \<noteq> CHOICES_HARD), pd_choices := offered,
        pd_binding_mode := binding\<rparr>"

definition hard_decision :: "SessionScope \<Rightarrow> string \<Rightarrow> string \<Rightarrow> string option \<Rightarrow> string \<Rightarrow> string \<Rightarrow> string \<Rightarrow> PolicyDecision" where
  "hard_decision sc cap reason target rule risk risk_class =
     (if profile sc = FULL_ACCESS then allow_decision cap (''full-access: '' @ reason) target risk risk_class
      else ask_decision cap reason target risk risk_class rule CHOICES_HARD ''capability'')"

definition secret_decision :: "SessionScope \<Rightarrow> string \<Rightarrow> ppath \<Rightarrow> bool \<Rightarrow> PolicyDecision" where
  "secret_decision sc cap resolved write =
     (let risk = (if write then ''critical'' else ''high'') in
      if profile sc = FULL_ACCESS
      then allow_decision cap ''full-access: a system secret'' (Some (str_path resolved)) risk ''credential''
      else ask_decision cap ''system secret (SSH/GPG/cloud keys or a credential store)'' (Some (str_path resolved))
             risk ''credential'' ''system_secret'' CHOICES_SESSION ''exact'')"

definition outbound ::
  "SessionScope \<Rightarrow> string \<Rightarrow> string \<Rightarrow> string option \<Rightarrow> string \<Rightarrow> string \<Rightarrow> string \<Rightarrow> string \<Rightarrow> bool \<Rightarrow> PolicyDecision" where
  "outbound sc cap reason target risk risk_class rule binding trusted =
     (let full = (profile sc = FULL_ACCESS) in
      if external_content sc \<and> (\<not> full \<or> (ask_new_destinations sc \<and> \<not> trusted))
      then ask_decision cap (reason @ '', after reading external content in this turn'') target ''high'' risk_class
             ''external_content_send'' CHOICES_SESSION binding
      else if full then allow_decision cap (''full-access: '' @ reason) target risk risk_class
      else ask_decision cap reason target risk risk_class rule CHOICES_LASTING binding)"

section \<open>MCP calls\<close>

definition mcp_tool :: "SessionScope \<Rightarrow> string \<Rightarrow> McpToolFacts \<Rightarrow> string \<Rightarrow> string \<Rightarrow> PolicyDecision" where
  "mcp_tool sc cap f risk0 risk_class0 =
     (let nm = mf_server f @ ''/'' @ mf_tool f;
          by = (if mf_decision_source f = ''tool'' then ''for this tool'' else ''for this server'')
      in
      if mf_decision f = Some MCP_DENY
      then deny_decision cap (''the owner blocked '' @ nm @ '' ('' @ by @ '') in Settings'') (Some nm) risk0 risk_class0
             ''mcp_tool_blocked''
      else if profile sc = READ_ONLY
      then deny_decision cap ''read-only profile does not call MCP tools'' (Some nm) risk0 risk_class0 ''default''
      else
        (let risk = (if mf_destructive f then ''high'' else risk0);
             risk_class = (if mf_destructive f then ''remote-destructive'' else risk_class0)
         in
         if profile sc = FULL_ACCESS
         then allow_decision cap (''full-access: '' @ nm @ '', a server the owner registered'') None risk risk_class
         else
           (let guard = (sends_out f \<and> external_content sc \<and> foreign_content sc (mcp_origin (mf_server f)));
                asks = (mf_decision f = Some MCP_ASK \<or> (mf_destructive f \<and> mf_decision f \<noteq> Some MCP_ALLOW));
                reason = (if mf_decision f = Some MCP_ASK
                          then ''the owner asked to be asked before '' @ nm @ '' ('' @ by @ '')''
                          else nm @ '' says it is destructive (deletes or overwrites)'')
            in
            if guard
            then ask_decision cap ((if asks then reason @ ''; '' else nm @ '' can send data out; '') @
                     ''after reading external content from another source in this turn'') (Some nm) ''high''
                   (if mf_destructive f then risk_class else ''communication'') ''external_content_send''
                   CHOICES_SESSION ''exact''
            else if asks
            then ask_decision cap reason (Some nm) (if mf_destructive f then ''high'' else risk) risk_class
                   (if mf_decision f = Some MCP_ASK then ''mcp_tool_ask'' else ''mcp_destructive'')
                   CHOICES_LASTING ''exact''
            else if mf_decision f = Some MCP_ALLOW
            then allow_decision cap (''the owner allowed '' @ nm @ '' ('' @ by @ '')'') None risk risk_class
            else allow_decision cap (if mf_read_only f then ''a read-only MCP call''
                             else ''a tool from an MCP server the owner registered'') None risk risk_class)))"

section \<open>Requests\<close>

record policy_env =
  pe_os :: os_env
  ip_address :: "string \<Rightarrow> ip option"
  repr_of :: "string \<Rightarrow> string"

record NetworkPolicy =
  np_ip_ok :: "string \<Rightarrow> bool"
  np_mode :: network_mode
  np_rules :: "NetworkRule list"

record action_request =
  aq_path :: "string option"
  aq_command :: "string option"
  aq_host :: "string option"
  aq_risk :: string
  aq_risk_class :: string
  aq_target :: "string option"
  aq_network_mode :: string
  aq_cost_basis :: "string option"
  aq_mcp :: "McpToolFacts option"

abbreviation CAPABILITY_FS_READ :: string where "CAPABILITY_FS_READ \<equiv> ''fs.read''"
abbreviation CAPABILITY_FS_WRITE :: string where "CAPABILITY_FS_WRITE \<equiv> ''fs.write''"
abbreviation CAPABILITY_SHELL :: string where "CAPABILITY_SHELL \<equiv> ''shell.exec''"
abbreviation CAPABILITY_GIT_LOCAL :: string where "CAPABILITY_GIT_LOCAL \<equiv> ''git.local''"
abbreviation CAPABILITY_PROCESS_LOCAL :: string where "CAPABILITY_PROCESS_LOCAL \<equiv> ''process.local''"
abbreviation CAPABILITY_NETWORK :: string where "CAPABILITY_NETWORK \<equiv> ''network.outbound''"
abbreviation CAPABILITY_STATE_READ :: string where "CAPABILITY_STATE_READ \<equiv> ''state.read''"
abbreviation CAPABILITY_STATE_WRITE :: string where "CAPABILITY_STATE_WRITE \<equiv> ''state.write''"
abbreviation CAPABILITY_BROWSER_READ :: string where "CAPABILITY_BROWSER_READ \<equiv> ''browser.read''"
abbreviation CAPABILITY_BROWSER_WRITE :: string where "CAPABILITY_BROWSER_WRITE \<equiv> ''browser.mutate''"
abbreviation CAPABILITY_MCP_READ :: string where "CAPABILITY_MCP_READ \<equiv> ''mcp.read''"
abbreviation CAPABILITY_MCP_WRITE :: string where "CAPABILITY_MCP_WRITE \<equiv> ''mcp.call''"

section \<open>Where a path lies\<close>

definition resolve_target :: "policy_env \<Rightarrow> SessionScope \<Rightarrow> string \<Rightarrow> policy_error + ppath" where
  "resolve_target env sc p =
     (let base = (case sc_root sc of
                    Some r \<Rightarrow> if sc_kind sc = ''PROJECT'' then r else sc_cwd sc
                  | None \<Rightarrow> sc_cwd sc)
      in case resolve (pe_os env) (join_path base (path_of p)) of
           None \<Rightarrow> Inl PathNotResolved
         | Some q \<Rightarrow> Inr q)"

definition inside_root :: "policy_env \<Rightarrow> ppath \<Rightarrow> ppath option \<Rightarrow> bool" where
  "inside_root env p r = (case r of None \<Rightarrow> False | Some q \<Rightarrow> at_or_under (folder (pe_os env) q) p)"

definition is_home_itself :: "policy_env \<Rightarrow> ppath \<Rightarrow> SessionScope \<Rightarrow> bool" where
  "is_home_itself env p sc =
     (case user_home sc of None \<Rightarrow> False | Some h \<Rightarrow> folder (pe_os env) p = folder (pe_os env) h)"

definition is_home :: "policy_env \<Rightarrow> ppath \<Rightarrow> SessionScope \<Rightarrow> bool" where
  "is_home env p sc =
     (case user_home sc of None \<Rightarrow> False
      | Some h \<Rightarrow> at_or_under (folder (pe_os env) h) (folder (pe_os env) p))"

definition inside_extra_root :: "policy_env \<Rightarrow> ppath \<Rightarrow> SessionScope \<Rightarrow> bool" where
  "inside_extra_root env p sc =
     list_ex (\<lambda>e. inside_root env p (Some e) \<and> \<not> is_home_itself env e sc) (extra_roots sc)"

definition command_cwd_outside :: "policy_env \<Rightarrow> SessionScope \<Rightarrow> string option" where
  "command_cwd_outside env sc =
     (case (command_cwd sc, sc_root sc) of
        (Some c, Some r) \<Rightarrow>
          if is_home_itself env r sc then None
          else if inside_root env (folder (pe_os env) c) (Some r) \<or> inside_extra_root env (folder (pe_os env) c) sc
          then None
          else Some (str_path (folder (pe_os env) c))
      | _ \<Rightarrow> None)"

section \<open>Network\<close>

definition network_decision :: "policy_env \<Rightarrow> NetworkPolicy \<Rightarrow> SessionScope \<Rightarrow> action_request \<Rightarrow> policy_error + PolicyDecision" where
  "network_decision env np sc q =
     (case network_decide (np_ip_ok np) (np_mode np) (np_rules np) (or_empty (aq_host q)) of
        Inl e \<Rightarrow> Inl HostNotParsed
      | Inr net \<Rightarrow>
          (let target = (if nd_target net = [] then None else Some (nd_target net));
               sending = (aq_network_mode q = ''send'');
               local_host = is_local_host (ip_address env) (nd_host net);
               to = (case nd_host net of None \<Rightarrow> ''None'' | Some h \<Rightarrow> h);
               send = outbound sc CAPABILITY_NETWORK (''sending data to '' @ to) target (aq_risk q) (aq_risk_class q)
                        ''network_send'' ''exact'' False
           in Inr (
            if nd_action net = DENY
            then (plain_decision DENY CAPABILITY_NETWORK (nd_reason net) target
                    (if aq_risk q \<in> {''high'', ''critical''} then aq_risk q else ''high'') (aq_risk_class q))
                   \<lparr>pd_reusable := False, pd_choices := [''deny'']\<rparr>
            else if sending \<and> profile sc = READ_ONLY
            then deny_decision CAPABILITY_NETWORK ''read-only profile does not send data out'' target
                   (aq_risk q) (aq_risk_class q) ''default''
            else if sending \<and> external_content sc \<and> \<not> local_host then send
            else if nd_rule net \<noteq> None \<or> np_mode np = MODE_ALLOW
            then allow_decision CAPABILITY_NETWORK (nd_reason net) target (aq_risk q) (aq_risk_class q)
            else if np_mode np = MODE_ASK
            then ask_decision CAPABILITY_NETWORK ''outbound network requires approval (network.mode=ask)'' target
                   (aq_risk q) (aq_risk_class q) ''network_host'' CHOICES_LASTING ''exact''
            else if \<not> sending \<or> local_host
            then allow_decision CAPABILITY_NETWORK
                   (if local_host then ''local network'' else ''reading from the internet'') target
                   (aq_risk q) (aq_risk_class q)
            else send)))"

section \<open>Files\<close>

definition private_denial :: "string \<Rightarrow> string \<Rightarrow> ppath \<Rightarrow> PolicyDecision" where
  "private_denial cap reason p =
     deny_decision cap reason (Some (str_path p)) ''critical'' ''private-runtime-state'' ''private_change_snapshot''"

definition fs_read :: "policy_env \<Rightarrow> SessionScope \<Rightarrow> action_request \<Rightarrow> string \<Rightarrow> policy_error + PolicyDecision" where
  "fs_read env sc q cap =
     (case aq_path q of
        None \<Rightarrow>
          Inr (if cap = CAPABILITY_GIT_LOCAL
               then plain_decision ALLOW cap ''local Git inspection on the session repository'' None (aq_risk q) (aq_risk_class q)
               else plain_decision DENY CAPABILITY_FS_READ ''read without an explicit path is not allowed'' None
                      (aq_risk q) (aq_risk_class q))
      | Some p \<Rightarrow>
          bindE (resolve_target env sc p) (\<lambda>resolved. Inr (
            if inside_any (pe_os env) resolved (private_roots sc)
            then private_denial CAPABILITY_FS_READ ''private restoration data is never model-readable'' resolved
            else if is_system_secret resolved then secret_decision sc CAPABILITY_FS_READ resolved False
            else allow_decision CAPABILITY_FS_READ
                   (if inside_root env resolved (sc_root sc) then ''inside the '' @ sc_kind sc @ '' session root''
                    else ''reads are free outside the root too (system secrets excepted)'')
                   (Some (str_path resolved)) (aq_risk q) (aq_risk_class q))))"

definition fs_write :: "policy_env \<Rightarrow> SessionScope \<Rightarrow> action_request \<Rightarrow> policy_error + PolicyDecision" where
  "fs_write env sc q =
     (case aq_path q of
        None \<Rightarrow>
          Inr (plain_decision DENY CAPABILITY_FS_WRITE ''write without an explicit path is not allowed'' None
                 (aq_risk q) (aq_risk_class q))
      | Some p \<Rightarrow>
          bindE (resolve_target env sc p) (\<lambda>resolved.
            let target = Some (str_path resolved); full = (profile sc = FULL_ACCESS);
                home_root = (case sc_root sc of None \<Rightarrow> False | Some r \<Rightarrow> is_home_itself env r sc);
                dirty = (case worktree sc of Some classify \<Rightarrow> if full then None else classify resolved | None \<Rightarrow> None)
            in Inr (
            if inside_any (pe_os env) resolved (private_roots sc)
            then private_denial CAPABILITY_FS_WRITE ''private restoration data cannot be modified by tools'' resolved
            else if is_system_secret resolved then secret_decision sc CAPABILITY_FS_WRITE resolved True
            else if profile sc = READ_ONLY
            then deny_decision CAPABILITY_FS_WRITE ''read-only profile cannot write'' target ''low'' ''none'' ''default''
            else
              (case dirty of
                 Some cls \<Rightarrow>
                   ask_decision CAPABILITY_FS_WRITE
                     (''file has uncommitted user changes from before this session ('' @ cls @ '')'') target ''medium''
                     ''local-destructive'' ''preexisting_user_work'' CHOICES_SESSION ''capability''
               | None \<Rightarrow>
                   if inside_extra_root env resolved sc
                   then allow_decision CAPABILITY_FS_WRITE ''inside a project folder'' target (aq_risk q) (aq_risk_class q)
                   else if inside_root env resolved (sc_root sc) \<and> \<not> home_root
                   then allow_decision CAPABILITY_FS_WRITE
                          (if sc_kind sc = ''PROJECT'' then ''inside the project root''
                           else ''inside the directory opened for this chat'') target (aq_risk q) (aq_risk_class q)
                   else if full
                   then allow_decision CAPABILITY_FS_WRITE ''full-access: writes outside the root'' target
                          (aq_risk q) (aq_risk_class q)
                   else ask_decision CAPABILITY_FS_WRITE ''write outside the project root'' target
                          (aq_risk q) (aq_risk_class q) ''write_outside_root'' CHOICES_LASTING ''capability''))))"

section \<open>Commands\<close>

text \<open>\<open>dict.fromkeys(xs)\<close>: the first of each, in order.\<close>

definition fromkeys :: "'a list \<Rightarrow> 'a list" where
  "fromkeys xs = rev (remdups (rev xs))"

abbreviation shell_ask :: "string \<Rightarrow> string option \<Rightarrow> string \<Rightarrow> string \<Rightarrow> string \<Rightarrow> string list \<Rightarrow> string \<Rightarrow> PolicyDecision" where
  "shell_ask \<equiv> ask_decision CAPABILITY_SHELL"

text \<open>What a command does on other machines; \<open>None\<close>: the local rules go on.\<close>

definition machines_decision :: "SessionScope \<Rightarrow> action_request \<Rightarrow> PolicyDecision option" where
  "machines_decision sc q =
     (let machines = remote_actions (or_empty (aq_command q));
          hosts = join '', '' (fromkeys (map ra_host machines));
          sends = list_ex (\<lambda>a. ra_kind a = ''send'') machines
      in
      if machines = [] then None
      else
        (case find_first (\<lambda>a. ra_payload a \<noteq> [] \<and> catastrophic (ra_payload a) \<noteq> None) machines of
           Some a \<Rightarrow>
             Some (deny_decision CAPABILITY_SHELL
               (''on the catastrophic list on '' @ ra_host a @ '': the command '' @ the (catastrophic (ra_payload a)))
               (aq_command q) ''critical'' ''remote-destructive'' ''catastrophic'')
         | None \<Rightarrow>
             if list_ex (\<lambda>a. ra_payload a \<noteq> [] \<and> rx_search DESTRUCTIVE_SHELL (ra_payload a)) machines
             then Some (hard_decision sc CAPABILITY_SHELL (''deletes on another machine ('' @ hosts @ '')'') (aq_command q)
                         ''remote_destructive'' ''critical'' ''remote-destructive'')
             else if profile sc \<noteq> FULL_ACCESS
             then Some (shell_ask
                    (if sends then ''copies files to another machine ('' @ hosts @ '')''
                     else if list_all (\<lambda>a. ra_kind a = ''fetch'') machines
                     then ''copies files from another machine ('' @ hosts @ '')''
                     else ''runs a command on another machine ('' @ hosts @ '')'')
                    (aq_command q) ''high'' (if sends then ''communication'' else ''remote-reversible'')
                    ''shell_remote'' CHOICES_LASTING ''capability'')
             else if sends \<and> external_content sc
             then Some (outbound sc CAPABILITY_SHELL ''command sends data out'' (aq_command q) ''high'' ''communication''
                         ''shell_send'' ''capability'' False)
             else None))"

text \<open>The rules for what runs on this machine.\<close>

definition local_decision :: "policy_env \<Rightarrow> SessionScope \<Rightarrow> action_request \<Rightarrow> ShellRisk \<Rightarrow> PolicyDecision" where
  "local_decision env sc q sr =
     (let command = or_empty (aq_command q);
          named = join '', '' (take 3 (external_path_targets sr));
          outside = command_cwd_outside env sc
      in
      if destructive sr \<and> external_path_targets sr \<noteq> []
      then hard_decision sc CAPABILITY_SHELL (''deletes outside the project: '' @ named) (aq_command q)
             ''delete_outside_root'' ''critical'' ''local-destructive''
      else if classify_git_remote command = Some Remote
      then outbound sc CAPABILITY_SHELL ''git push publishes to a remote'' (aq_command q) ''high'' ''remote-reversible''
             ''git_remote_mutation'' ''capability'' True
      else if external_content sc \<and> shell_sends_data command
      then outbound sc CAPABILITY_SHELL ''command sends data out'' (aq_command q) ''high'' ''communication''
             ''shell_send'' ''capability'' False
      else if profile sc = FULL_ACCESS
      then allow_decision CAPABILITY_SHELL ''full-access: local command'' None (aq_risk q) (aq_risk_class q)
      else if local_mutation sr \<and> external_path_targets sr \<noteq> []
      then shell_ask (''command writes outside the workspace: '' @ named) (aq_command q) (aq_risk q) (aq_risk_class q)
             ''shell_external_mutation'' CHOICES_LASTING ''capability''
      else if outside \<noteq> None \<and> \<not> is_inspection command
      then shell_ask (''command runs outside the workspace (in '' @ the outside @ '')'') (aq_command q)
             (aq_risk q) (aq_risk_class q) ''shell_cwd_outside'' CHOICES_LASTING ''capability''
      else if destructive sr \<and> recursive_delete command
      then shell_ask ''deletes a folder and everything in it'' (aq_command q) ''high'' ''local-destructive''
             ''delete_recursive'' CHOICES_SESSION ''exact''
      else allow_decision CAPABILITY_SHELL ''local command in the workspace'' None (aq_risk q) (aq_risk_class q))"

definition shell_decision :: "policy_env \<Rightarrow> SessionScope \<Rightarrow> action_request \<Rightarrow> policy_error + PolicyDecision" where
  "shell_decision env sc q =
     (let command = or_empty (aq_command q) in
      case catastrophic command of
        Some why \<Rightarrow>
          Inr (deny_decision CAPABILITY_SHELL
                 (''on the catastrophic list: the command '' @ why @ ''; Rinari never runs it'') (aq_command q)
                 ''critical'' ''local-destructive'' ''catastrophic'')
      | None \<Rightarrow>
          if classify_git_remote command = Some Force
          then Inr (hard_decision sc CAPABILITY_SHELL ''force push rewrites remote history'' (aq_command q)
                      ''git_force_push'' ''critical'' ''remote-destructive'')
          else bindE (classify_shell_risk (pe_os env) command sc) (\<lambda>sr. Inr (
            if private_target sr
            then deny_decision CAPABILITY_SHELL ''command targets private restoration data'' (aq_command q)
                   ''critical'' ''private-runtime-state'' ''private_change_snapshot''
            else if sensitive_target sr \<and> profile sc \<noteq> FULL_ACCESS
            then shell_ask ''command targets a system secret'' (aq_command q) ''critical'' ''credential''
                   ''system_secret'' CHOICES_SESSION ''exact''
            else if profile sc = READ_ONLY
            then deny_decision CAPABILITY_SHELL ''read-only profile cannot execute commands'' (aq_command q)
                   ''low'' ''none'' ''default''
            else (case machines_decision sc q of Some d \<Rightarrow> d | None \<Rightarrow> local_decision env sc q sr))))"

section \<open>Rinari's own home\<close>

definition home_allows :: "policy_env \<Rightarrow> SessionScope \<Rightarrow> ppath list \<Rightarrow> ppath list \<Rightarrow> bool" where
  "home_allows env sc targets writes =
     (case engine_home sc of
        None \<Rightarrow> True
      | Some h \<Rightarrow>
          (let home = folder (pe_os env) h in
           list_all (\<lambda>p. \<not> at_or_under home p \<or> inside_any (pe_os env) p (engine_home_open sc) \<or>
                         inside_any (pe_os env) p (engine_home_readable sc)) targets \<and>
           list_all (\<lambda>p. \<not> at_or_under home p \<or> inside_any (pe_os env) p (engine_home_open sc)) writes))"

definition engine_home_guard ::
  "policy_env \<Rightarrow> SessionScope \<Rightarrow> string \<Rightarrow> action_request \<Rightarrow> policy_error + PolicyDecision option" where
  "engine_home_guard env sc cap q =
     (if engine_home sc = None then Inr None
      else if cap = CAPABILITY_FS_READ \<or> cap = CAPABILITY_GIT_LOCAL \<or> cap = CAPABILITY_FS_WRITE
      then
        (case aq_path q of
           None \<Rightarrow> Inr None
         | Some p \<Rightarrow>
             bindE (resolve_target env sc p) (\<lambda>target. Inr (
               if home_allows env sc [target] (if cap = CAPABILITY_FS_WRITE then [target] else []) then None
               else Some (deny_decision cap ''Rinari's own data folder is off limits to an Agency agent''
                           (Some (str_path target)) ''critical'' ''private-runtime-state'' ''engine_home''))))
      else if cap = CAPABILITY_SHELL
      then
        (let command = or_empty (aq_command q); targets = engine_home_targets (pe_os env) command sc in
         if targets = [] then Inr None
         else bindE (classify_shell_risk (pe_os env) command sc) (\<lambda>sr. Inr (
           if home_allows env sc targets (map path_of (external_path_targets sr)) then None
           else Some (deny_decision cap
                  ''the command reaches Rinari's own data folder, off limits to an Agency agent'' (aq_command q)
                  ''critical'' ''private-runtime-state'' ''engine_home''))))
      else Inr None)"

section \<open>The decision\<close>

definition NO_EXTRA_COST :: "string list" where
  "NO_EXTRA_COST = [''included'', ''local'']"

text \<open>A command in read-only mode that is more than one of git's reads: asked, given what project mode
  would say of it.\<close>

definition read_only_command :: "policy_env \<Rightarrow> SessionScope \<Rightarrow> string \<Rightarrow> action_request \<Rightarrow> PolicyDecision \<Rightarrow> PolicyDecision" where
  "read_only_command env sc cap q usual =
     (let is_hard = (pd_action usual = DENY \<or> (pd_action usual = ASK \<and> \<not> pd_reusable usual)) in
      case detect_test_runner (or_empty (aq_command q)) of
        Some runner \<Rightarrow>
          if pd_action usual = ALLOW \<and> command_cwd_outside env sc = None
          then ask_decision cap (''read-only mode: running the tests ('' @ runner @ '') could change files'')
                 (aq_command q) (aq_risk q) (aq_risk_class q) (''read_only_tests:'' @ runner) CHOICES_SESSION ''capability''
          else ask_decision cap ''read-only mode: a command could change files, so each one is asked'' (aq_command q)
                 (aq_risk q) (aq_risk_class q) ''read_only_command''
                 (if is_hard then CHOICES_HARD else CHOICES_SESSION) ''exact''
      | None \<Rightarrow>
          ask_decision cap ''read-only mode: a command could change files, so each one is asked'' (aq_command q)
            (aq_risk q) (aq_risk_class q) ''read_only_command''
            (if is_hard then CHOICES_HARD else CHOICES_SESSION) ''exact'')"

text \<open>The capabilities that reach neither a file, a command nor a host.\<close>

definition other_capability :: "policy_env \<Rightarrow> SessionScope \<Rightarrow> string \<Rightarrow> action_request \<Rightarrow> PolicyDecision" where
  "other_capability env sc cap q =
     (let ro = (profile sc = READ_ONLY); risk = aq_risk q; rc = aq_risk_class q in
      if cap \<in> {CAPABILITY_BROWSER_READ, CAPABILITY_BROWSER_WRITE, CAPABILITY_MCP_READ}
      then
        (if ro then deny_decision cap ''read-only profile does not drive a browser or call MCP tools'' None risk rc ''default''
         else if cap = CAPABILITY_BROWSER_WRITE \<and> rc = ''communication''
         then outbound sc cap ''uploading a local file through the browser'' None risk rc ''browser_upload'' ''capability'' False
         else if cap = CAPABILITY_BROWSER_WRITE \<and> rc = ''remote-reversible'' \<and> profile sc = WORKSPACE
         then ask_decision cap ''interacting with a web page can act on the site'' (aq_target q) risk rc
                ''browser_interact'' CHOICES_LASTING ''capability''
         else allow_decision cap ''browsing and read-only MCP calls (navigation is network-gated)'' None risk rc)
      else if cap = CAPABILITY_MCP_WRITE
      then
        (if ro then deny_decision cap ''read-only profile cannot call external MCP tools'' None risk rc ''default''
         else allow_decision cap ''a tool from an MCP server the owner registered'' None risk rc)
      else if cap = ''project.instructions.propose''
      then allow_decision cap ''a proposal the owner saves or discards'' None risk rc
      else if cap = ''media.generate''
      then
        (if profile sc = FULL_ACCESS then allow_decision cap ''creating images'' (aq_target q) risk rc
         else if \<not> ro \<and> (case aq_cost_basis q of Some b \<Rightarrow> b \<in> set NO_EXTRA_COST | None \<Rightarrow> False)
         then allow_decision cap ''creating images at no extra cost'' (aq_target q) risk rc
         else ask_decision cap ''creating or editing an image with a service (it may cost money)'' (aq_target q) risk rc
                ''media_generate'' CHOICES_LASTING ''capability'')
      else if cap = ''file.present''
      then allow_decision cap ''presenting a result to the owner has no side effects'' None risk rc
      else if cap \<in> {''channel.send_attachment'', ''channel.reply'', ''channel.delivery_get''}
      then plain_decision (if \<not> ro \<or> cap = ''channel.delivery_get'' then ALLOW else DENY) cap
             ''Host-bound reply to the originating owner conversation'' None risk rc
      else if ro
      then deny_decision cap (''capability '' @ repr_of env cap @ '' is not available in read-only'') None risk rc ''default''
      else if profile sc = FULL_ACCESS
      then allow_decision cap (''full-access: '' @ repr_of env cap @ '' has no stricter rule'') None risk rc
      else ask_decision cap (''capability '' @ repr_of env cap @ '' is not covered by a built-in rule'') None risk rc
             ''unknown_capability'' CHOICES_LASTING ''capability'')"

definition harness_capability :: "SessionScope \<Rightarrow> string \<Rightarrow> action_request \<Rightarrow> PolicyDecision option" where
  "harness_capability sc cap q =
     (let risk = aq_risk q; rc = aq_risk_class q in
      if cap \<in> {CAPABILITY_PROCESS_LOCAL, CAPABILITY_STATE_READ, ''state.mutate'', ''state.evidence''}
      then Some (allow_decision cap ''local harness bookkeeping'' None risk rc)
      else if cap = ''agent.delegate''
      then Some (allow_decision cap ''delegating within this profile'' None risk rc)
      else if cap = CAPABILITY_STATE_WRITE
      then Some (if profile sc = READ_ONLY
                 then deny_decision cap ''read-only profile does not record validation state'' None risk rc ''default''
                 else allow_decision cap ''local validation evidence'' None risk rc)
      else None)"

definition decide_rest ::
  "policy_env \<Rightarrow> NetworkPolicy \<Rightarrow> string \<Rightarrow> SessionScope \<Rightarrow> action_request \<Rightarrow> policy_error + PolicyDecision" where
  "decide_rest env np cap sc q =
     (if profile sc = READ_ONLY \<and> cap = CAPABILITY_FS_WRITE
      then Inr (deny_decision cap ''read-only execution cannot write files''
                  (if aq_path q \<noteq> None then aq_path q else aq_command q) (aq_risk q) (aq_risk_class q) ''default'')
      else if cap = CAPABILITY_NETWORK then network_decision env np sc q
      else if cap = CAPABILITY_FS_READ \<or> cap = CAPABILITY_GIT_LOCAL then fs_read env sc q cap
      else
        (case harness_capability sc cap q of
           Some d \<Rightarrow> Inr d
         | None \<Rightarrow>
             if cap = CAPABILITY_FS_WRITE then fs_write env sc q
             else if (cap = CAPABILITY_MCP_READ \<or> cap = CAPABILITY_MCP_WRITE) \<and> aq_mcp q \<noteq> None
             then Inr (mcp_tool sc cap (the (aq_mcp q)) (aq_risk q) (aq_risk_class q))
             else if cap = CAPABILITY_SHELL then shell_decision env sc q
             else Inr (other_capability env sc cap q)))"

text \<open>In read-only mode a command is judged as project mode would first.\<close>

function decide ::
  "policy_env \<Rightarrow> NetworkPolicy \<Rightarrow> string \<Rightarrow> SessionScope \<Rightarrow> action_request \<Rightarrow> policy_error + PolicyDecision" where
  "decide env np cap sc q =
     (case engine_home_guard env sc cap q of
        Inl e \<Rightarrow> Inl e
      | Inr (Some d) \<Rightarrow> Inr d
      | Inr None \<Rightarrow>
          if profile sc = READ_ONLY \<and> cap = CAPABILITY_SHELL
          then
            (if git_reads_only (or_empty (aq_command q)) \<and> command_cwd_outside env sc = None
             then Inr (allow_decision cap ''read-only: git only reads'' (aq_command q) (aq_risk q) (aq_risk_class q))
             else
               (case decide env np cap (sc\<lparr>profile := WORKSPACE\<rparr>)
                       (q\<lparr>aq_host := None, aq_network_mode := ''read'', aq_cost_basis := None, aq_mcp := None\<rparr>) of
                  Inl e \<Rightarrow> Inl e
                | Inr usual \<Rightarrow> Inr (read_only_command env sc cap q usual)))
          else decide_rest env np cap sc q)"
  by pat_completeness auto
termination
  by (relation "measure (\<lambda>(env, np, cap, sc, q). if profile sc = READ_ONLY then 1 else 0)") auto

declare decide.simps [simp del]

section \<open>What a decision says\<close>

lemma decision_action [simp]:
  "pd_action (plain_decision a cap reason target risk rc) = a"
  "pd_action (deny_decision cap reason target risk rc rule) = DENY"
  "pd_action (ask_decision cap reason target risk rc rule offered binding) = ASK"
  by (simp_all add: plain_decision_def deny_decision_def ask_decision_def)

lemma decision_choices [simp]:
  "pd_choices (plain_decision a cap reason target risk rc) = CHOICES_SESSION"
  "pd_choices (deny_decision cap reason target risk rc rule) = [''deny'']"
  "pd_choices (ask_decision cap reason target risk rc rule offered binding) = offered"
  "pd_reusable (plain_decision a cap reason target risk rc)"
  "\<not> pd_reusable (deny_decision cap reason target risk rc rule)"
  "pd_reusable (ask_decision cap reason target risk rc rule offered binding) \<longleftrightarrow> offered \<noteq> CHOICES_HARD"
  "pd_rule_id (ask_decision cap reason target risk rc rule offered binding) = rule"
  "pd_rule_id (deny_decision cap reason target risk rc rule) = rule"
  by (simp_all add: plain_decision_def deny_decision_def ask_decision_def)

lemma hard_action: "pd_action (hard_decision sc cap reason target rule risk rc) = (if profile sc = FULL_ACCESS then ALLOW else ASK)"
  by (simp add: hard_decision_def)

lemma secret_action: "pd_action (secret_decision sc cap p w) = (if profile sc = FULL_ACCESS then ALLOW else ASK)"
  by (simp add: secret_decision_def Let_def)

lemma outbound_action:
  "pd_action (outbound sc cap reason target risk rc rule binding trusted) =
     (if profile sc = FULL_ACCESS \<and> \<not> (external_content sc \<and> ask_new_destinations sc \<and> \<not> trusted) then ALLOW else ASK)"
  by (auto simp: outbound_def Let_def)

lemmas action_simps = hard_action secret_action outbound_action

text \<open>What a network decision comes to, apart from its wording.\<close>

definition network_verdict ::
  "policy_env \<Rightarrow> NetworkPolicy \<Rightarrow> SessionScope \<Rightarrow> action_request \<Rightarrow> NetworkDecision \<Rightarrow> PolicyAction" where
  "network_verdict env np sc q net =
     (let sending = (aq_network_mode q = ''send'');
          local_host = is_local_host (ip_address env) (nd_host net);
          send = (if profile sc = FULL_ACCESS \<and> \<not> (external_content sc \<and> ask_new_destinations sc) then ALLOW else ASK)
      in if nd_action net = DENY \<or> sending \<and> profile sc = READ_ONLY then DENY
         else if sending \<and> external_content sc \<and> \<not> local_host then send
         else if nd_rule net \<noteq> None \<or> np_mode np = MODE_ALLOW then ALLOW
         else if np_mode np = MODE_ASK then ASK
         else if \<not> sending \<or> local_host then ALLOW
         else send)"

lemma network_action:
  assumes "network_decide (np_ip_ok np) (np_mode np) (np_rules np) (or_empty (aq_host q)) = Inr net"
    and "network_decision env np sc q = Inr d"
  shows "pd_action d = network_verdict env np sc q net"
proof -
  have "network_decision env np sc q = Inr d \<Longrightarrow> pd_action d = network_verdict env np sc q net"
    unfolding network_decision_def assms(1) sum.case Let_def sum.inject
    by (erule subst) (simp add: network_verdict_def Let_def if_distrib [of pd_action] outbound_action)
  then show ?thesis using assms(2) by blast
qed

lemma network_decision_net:
  assumes "network_decision env np sc q = Inr d"
  obtains net where "network_decide (np_ip_ok np) (np_mode np) (np_rules np) (or_empty (aq_host q)) = Inr net"
    and "pd_action d = network_verdict env np sc q net"
  using assms network_action [OF _ assms]
  by (cases "network_decide (np_ip_ok np) (np_mode np) (np_rules np) (or_empty (aq_host q))")
     (auto simp: network_decision_def)

lemma network_decision_total:
  "network_decide (np_ip_ok np) (np_mode np) (np_rules np) (or_empty (aq_host q)) = Inr net \<Longrightarrow>
     \<exists>d. network_decision env np sc q = Inr d"
  by (simp add: network_decision_def Let_def)

text \<open>The mode plays no part in where paths lie, in the risk of a command and in the guard of the home.\<close>

lemma risk_base_profile: "risk_base (sc\<lparr>profile := p\<rparr>) = risk_base sc"
  by (simp add: risk_base_def split: option.split)

lemma token_path_profile: "token_path os (sc\<lparr>profile := p\<rparr>) raw = token_path os sc raw"
  unfolding token_path_def risk_base_profile by (rule refl)

lemma inside_workspace_profile: "inside_workspace os (sc\<lparr>profile := p\<rparr>) q = inside_workspace os sc q"
  by (simp add: inside_workspace_def Let_def)

lemma risk_loop_profile: "risk_loop os (sc\<lparr>profile := p\<rparr>) items acc = risk_loop os sc items acc"
  by (induction os "sc\<lparr>profile := p\<rparr>" items acc rule: risk_loop.induct)
     (simp_all add: token_path_profile inside_workspace_profile bindE_def split: sum.splits option.splits)

lemma classify_shell_risk_profile: "classify_shell_risk os c (sc\<lparr>profile := p\<rparr>) = classify_shell_risk os c sc"
  by (simp add: classify_shell_risk_def risk_loop_profile)

lemma is_home_profile: "is_home_itself env r (sc\<lparr>profile := p\<rparr>) = is_home_itself env r sc"
  by (simp add: is_home_itself_def)

lemma extra_root_profile: "inside_extra_root env r (sc\<lparr>profile := p\<rparr>) = inside_extra_root env r sc"
  by (simp add: inside_extra_root_def is_home_profile)

lemma folders_profile:
  "resolve_target env (sc\<lparr>profile := p\<rparr>) x = resolve_target env sc x"
  "command_cwd_outside env (sc\<lparr>profile := p\<rparr>) = command_cwd_outside env sc"
  "home_allows env (sc\<lparr>profile := p\<rparr>) ts ws = home_allows env sc ts ws"
  "engine_home_targets os c (sc\<lparr>profile := p\<rparr>) = engine_home_targets os c sc"
  "foreign_content (sc\<lparr>profile := p\<rparr>) orig = foreign_content sc orig"
  by (simp_all add: resolve_target_def command_cwd_outside_def is_home_profile extra_root_profile
      home_allows_def engine_home_targets_def foreign_content_def split: option.split)

lemma guard_profile: "engine_home_guard env (sc\<lparr>profile := p\<rparr>) cap q = engine_home_guard env sc cap q"
  by (simp add: engine_home_guard_def folders_profile classify_shell_risk_profile Let_def split: option.split)

lemmas profile_irrelevant = is_home_profile extra_root_profile folders_profile classify_shell_risk_profile guard_profile

lemma guard_denies: "engine_home_guard env sc cap q = Inr (Some d) \<Longrightarrow> pd_action d = DENY \<and> pd_rule_id d = ''engine_home''"
  by (auto simp: engine_home_guard_def Let_def split: if_splits option.splits)

section \<open>Freer modes\<close>

lemma machines_decision_ask:
  assumes "profile sc \<noteq> FULL_ACCESS"
  shows "case machines_decision sc q of
    None \<Rightarrow> remote_actions (or_empty (aq_command q)) = [] | Some d \<Rightarrow> pd_action d \<noteq> ALLOW"
  using assms by (simp add: machines_decision_def Let_def action_simps split: option.split)

lemma machines_decision_none: "remote_actions (or_empty (aq_command q)) = [] \<Longrightarrow> machines_decision sc q = None"
  by (simp add: machines_decision_def)

lemma shell_allowed_freer:
  assumes "shell_decision env (sc\<lparr>profile := WORKSPACE\<rparr>) q = Inr d" and "pd_action d = ALLOW"
  shows "\<exists>d'. shell_decision env (sc\<lparr>profile := FULL_ACCESS\<rparr>) q = Inr d' \<and> pd_action d' = ALLOW"
proof -
  let ?c = "or_empty (aq_command q)" and ?ws = "sc\<lparr>profile := WORKSPACE\<rparr>"
  obtain sr where c: "catastrophic ?c = None" and f: "classify_git_remote ?c \<noteq> Some Force"
    and sr: "classify_shell_risk (pe_os env) ?c sc = Inr sr" "\<not> private_target sr" "\<not> sensitive_target sr"
    and d: "d = (case machines_decision ?ws q of Some d \<Rightarrow> d | None \<Rightarrow> local_decision env ?ws q sr)"
    using assms by (auto simp: shell_decision_def Let_def profile_irrelevant hard_action split: option.splits if_splits)
  have m: "machines_decision ?ws q = None"
    using machines_decision_ask [of ?ws q] d assms(2) by (auto split: option.splits)
  then have m': "machines_decision (sc\<lparr>profile := FULL_ACCESS\<rparr>) q = None"
    using machines_decision_ask [of ?ws q] by (simp add: machines_decision_none)
  have "\<not> (destructive sr \<and> external_path_targets sr \<noteq> [])" "classify_git_remote ?c \<noteq> Some Remote"
    "\<not> (external_content sc \<and> shell_sends_data ?c)"
    using assms(2) d m by (auto simp: local_decision_def Let_def action_simps split: if_splits)
  then have "pd_action (local_decision env (sc\<lparr>profile := FULL_ACCESS\<rparr>) q sr) = ALLOW"
    by (auto simp: local_decision_def Let_def)
  with c f sr m' show ?thesis
    by (simp add: shell_decision_def Let_def profile_irrelevant)
qed

definition mode_rank :: "PermissionProfile \<Rightarrow> nat" where
  "mode_rank p = (case p of READ_ONLY \<Rightarrow> 0 | WORKSPACE \<Rightarrow> 1 | FULL_ACCESS \<Rightarrow> 2)"

definition allows :: "policy_error + PolicyDecision \<Rightarrow> bool" where
  "allows r = (case r of Inl e \<Rightarrow> False | Inr d \<Rightarrow> pd_action d = ALLOW)"

lemma allows_simps [simp]: "allows (Inl e) = False" "allows (Inr d) = (pd_action d = ALLOW)"
  by (simp_all add: allows_def)

lemma allows_iff: "allows r \<longleftrightarrow> (\<exists>d. r = Inr d \<and> pd_action d = ALLOW)"
  by (cases r) simp_all

text \<open>
  A rule of the policy, as a function of the mode: what read-only allows project mode allows, and
  what that allows full access allows.
\<close>

locale mode_layer =
  fixes layer :: "PermissionProfile \<Rightarrow> policy_error + PolicyDecision"
  assumes workspace_allows: "allows (layer READ_ONLY) \<Longrightarrow> allows (layer WORKSPACE)"
    and full_access_allows: "allows (layer WORKSPACE) \<Longrightarrow> allows (layer FULL_ACCESS)"
begin

lemma freer_allows: "mode_rank p \<le> mode_rank p' \<Longrightarrow> allows (layer p) \<Longrightarrow> allows (layer p')"
  using workspace_allows full_access_allows by (cases p; cases p') (auto simp: mode_rank_def)

end

interpretation network_layer: mode_layer "\<lambda>m. network_decision env np (sc\<lparr>profile := m\<rparr>) q" for env np sc q
proof unfold_locales
  have step: "allows (network_decision env np (sc\<lparr>profile := m'\<rparr>) q)"
    if al: "allows (network_decision env np (sc\<lparr>profile := m\<rparr>) q)" and m: "m' \<noteq> READ_ONLY" "m \<noteq> FULL_ACCESS" for m m'
  proof -
    obtain d where d: "network_decision env np (sc\<lparr>profile := m\<rparr>) q = Inr d" "pd_action d = ALLOW"
      using al unfolding allows_iff by blast
    obtain net where n: "network_decide (np_ip_ok np) (np_mode np) (np_rules np) (or_empty (aq_host q)) = Inr net"
      and v: "pd_action d = network_verdict env np (sc\<lparr>profile := m\<rparr>) q net"
      by (rule network_decision_net [OF d(1)])
    obtain d' where d': "network_decision env np (sc\<lparr>profile := m'\<rparr>) q = Inr d'" using network_decision_total [OF n] by blast
    have "network_verdict env np (sc\<lparr>profile := m'\<rparr>) q net = ALLOW"
      using v d(2) m by (auto simp: network_verdict_def Let_def split: if_splits)
    then show ?thesis using network_action [OF n d'] d' by simp
  qed
  then show "allows (network_decision env np (sc\<lparr>profile := READ_ONLY\<rparr>) q) \<Longrightarrow>
      allows (network_decision env np (sc\<lparr>profile := WORKSPACE\<rparr>) q)"
    and "allows (network_decision env np (sc\<lparr>profile := WORKSPACE\<rparr>) q) \<Longrightarrow>
      allows (network_decision env np (sc\<lparr>profile := FULL_ACCESS\<rparr>) q)" by simp_all
qed

interpretation read_layer: mode_layer "\<lambda>m. fs_read env (sc\<lparr>profile := m\<rparr>) q cap" for env sc q cap
  by unfold_locales
    (auto simp: fs_read_def bindE_def secret_action profile_irrelevant private_denial_def split: sum.splits option.splits if_splits)

interpretation write_layer: mode_layer "\<lambda>m. fs_write env (sc\<lparr>profile := m\<rparr>) q" for env sc q
  by unfold_locales
    (auto simp: fs_write_def bindE_def Let_def secret_action profile_irrelevant private_denial_def
      split: sum.splits option.splits if_splits)

interpretation mcp_layer: mode_layer "\<lambda>m. Inr (mcp_tool (sc\<lparr>profile := m\<rparr>) cap f risk rc)" for sc cap f risk rc
  by unfold_locales (auto simp: mcp_tool_def Let_def split: if_splits)

interpretation other_layer: mode_layer "\<lambda>m. Inr (other_capability env (sc\<lparr>profile := m\<rparr>) cap q)" for env sc cap q
  by unfold_locales (auto simp: other_capability_def Let_def outbound_action split: if_splits)

lemma harness_freer:
  "harness_capability (sc\<lparr>profile := m\<rparr>) cap q = None \<longleftrightarrow> harness_capability (sc\<lparr>profile := m'\<rparr>) cap q = None"
  "harness_capability (sc\<lparr>profile := READ_ONLY\<rparr>) cap q = Some d \<Longrightarrow> pd_action d = ALLOW \<Longrightarrow>
     m \<noteq> READ_ONLY \<Longrightarrow> \<exists>d'. harness_capability (sc\<lparr>profile := m\<rparr>) cap q = Some d' \<and> pd_action d' = ALLOW"
  "m \<noteq> READ_ONLY \<Longrightarrow> m' \<noteq> READ_ONLY \<Longrightarrow>
     harness_capability (sc\<lparr>profile := m\<rparr>) cap q = harness_capability (sc\<lparr>profile := m'\<rparr>) cap q"
  by (auto simp: harness_capability_def Let_def split: if_splits)

lemma read_only_never_writes: "profile sc = READ_ONLY \<Longrightarrow> \<not> allows (decide_rest env np CAPABILITY_FS_WRITE sc q)"
  by (simp add: decide_rest_def)

text \<open>Everything but commands: no mode allows what a freer one does not.\<close>

lemma rest_freer_step:
  assumes "cap \<noteq> CAPABILITY_SHELL" and "m' \<noteq> READ_ONLY" and "mode_rank m \<le> mode_rank m'"
    and "allows (decide_rest env np cap (sc\<lparr>profile := m\<rparr>) q)"
  shows "allows (decide_rest env np cap (sc\<lparr>profile := m'\<rparr>) q)"
proof -
  consider "cap = CAPABILITY_FS_WRITE" | "cap = CAPABILITY_NETWORK" | "cap = CAPABILITY_FS_READ \<or> cap = CAPABILITY_GIT_LOCAL"
    | d where "cap \<noteq> CAPABILITY_FS_WRITE" "cap \<noteq> CAPABILITY_NETWORK" "cap \<noteq> CAPABILITY_FS_READ" "cap \<noteq> CAPABILITY_GIT_LOCAL"
        "harness_capability (sc\<lparr>profile := m\<rparr>) cap q = Some d"
    | "cap \<noteq> CAPABILITY_FS_WRITE" "cap \<noteq> CAPABILITY_NETWORK" "cap \<noteq> CAPABILITY_FS_READ" "cap \<noteq> CAPABILITY_GIT_LOCAL"
        "harness_capability (sc\<lparr>profile := m\<rparr>) cap q = None"
    by (cases "harness_capability (sc\<lparr>profile := m\<rparr>) cap q") blast+
  then show ?thesis
  proof cases
    case 1
    with assms(4) have "m \<noteq> READ_ONLY" using read_only_never_writes [of "sc\<lparr>profile := m\<rparr>"] by auto
    with 1 assms show ?thesis
      using write_layer.freer_allows [OF assms(3), of env sc q] by (simp add: decide_rest_def harness_capability_def)
  next
    case 2
    with assms(4) show ?thesis
      using network_layer.freer_allows [OF assms(3), of env np sc q] by (simp add: decide_rest_def)
  next
    case 3
    then have "decide_rest env np cap (sc\<lparr>profile := k\<rparr>) q = fs_read env (sc\<lparr>profile := k\<rparr>) q cap" for k
      by (elim disjE) (simp_all add: decide_rest_def)
    then show ?thesis
      using read_layer.freer_allows [OF assms(3), of env sc q cap] assms(4) by simp
  next
    case 4
    then have "pd_action d = ALLOW" using assms(4) by (simp add: decide_rest_def)
    then have "\<exists>d'. harness_capability (sc\<lparr>profile := m'\<rparr>) cap q = Some d' \<and> pd_action d' = ALLOW"
    proof (cases "m = READ_ONLY")
      case True
      show ?thesis by (rule harness_freer(2) [OF 4(5) [unfolded True] \<open>pd_action d = ALLOW\<close> assms(2)])
    next
      case False
      then show ?thesis
        using 4(5) harness_freer(3) [OF assms(2) False, of sc cap q] \<open>pd_action d = ALLOW\<close> by simp
    qed
    then obtain d' where "harness_capability (sc\<lparr>profile := m'\<rparr>) cap q = Some d'" "pd_action d' = ALLOW" by blast
    with 4 show ?thesis by (simp add: decide_rest_def)
  next
    case 5
    then have n: "harness_capability (sc\<lparr>profile := m'\<rparr>) cap q = None" using harness_freer(1) by blast
    from 5 n assms(1,4) show ?thesis
      using mcp_layer.freer_allows [OF assms(3), of sc cap "the (aq_mcp q)" "aq_risk q" "aq_risk_class q"]
        other_layer.freer_allows [OF assms(3), of env sc cap q]
      by (cases "(cap = CAPABILITY_MCP_READ \<or> cap = CAPABILITY_MCP_WRITE) \<and> aq_mcp q \<noteq> None")
         (simp_all only: decide_rest_def if_True if_False option.case allows_simps simp_thms)
  qed
qed

text \<open>
  C10. The modes are ordered: what a mode allows without asking, a freer mode allows too. The one
  exception is a command in read-only mode, where git's reads are let through before the rules of the
  other modes look at them.
\<close>

theorem freer_mode_allows:
  assumes "mode_rank p \<le> mode_rank p'" and "cap \<noteq> CAPABILITY_SHELL \<or> p \<noteq> READ_ONLY"
    and "allows (decide env np cap (sc\<lparr>profile := p\<rparr>) q)"
  shows "allows (decide env np cap (sc\<lparr>profile := p'\<rparr>) q)"
proof -
  have plain: "decide env np cap (sc\<lparr>profile := m\<rparr>) q =
      (case engine_home_guard env sc cap q of
         Inl e \<Rightarrow> Inl e | Inr (Some d) \<Rightarrow> Inr d | Inr None \<Rightarrow> decide_rest env np cap (sc\<lparr>profile := m\<rparr>) q)"
    if "cap \<noteq> CAPABILITY_SHELL \<or> m \<noteq> READ_ONLY" for m
    using that by (subst decide.simps) (auto simp: guard_profile split: sum.split option.split)
  have p': "cap \<noteq> CAPABILITY_SHELL \<or> p' \<noteq> READ_ONLY"
    using assms(1,2) by (cases p; cases p') (simp_all add: mode_rank_def)
  have rest: "engine_home_guard env sc cap q = Inr None" "allows (decide_rest env np cap (sc\<lparr>profile := p\<rparr>) q)"
    using assms(3) guard_denies [of env sc cap q]
    by (auto simp: plain [OF assms(2)] split: sum.splits option.splits)
  have "allows (decide_rest env np cap (sc\<lparr>profile := p'\<rparr>) q)"
  proof (cases "cap = CAPABILITY_SHELL")
    case False
    show ?thesis
    proof (cases "p' = READ_ONLY")
      case True
      with assms(1) have "p = p'" by (cases p) (simp_all add: mode_rank_def)
      with rest(2) show ?thesis by simp
    qed (rule rest_freer_step [OF False _ assms(1) rest(2)])
  next
    case True
    then have "p \<noteq> READ_ONLY" "p' \<noteq> READ_ONLY" using assms(2) p' by auto
    with assms(1) consider "p = p'" | "p = WORKSPACE" "p' = FULL_ACCESS"
      by (cases p; cases p') (auto simp: mode_rank_def)
    then show ?thesis
    proof cases
      case 2
      with True rest(2) show ?thesis
        using shell_allowed_freer [of env sc q]
        by (auto simp: decide_rest_def harness_capability_def allows_iff)
    qed (use rest(2) in simp)
  qed
  then show ?thesis by (simp add: plain [OF p'] rest(1))
qed

section \<open>Where a decision comes from\<close>

lemma decide_writing:
  assumes "profile sc \<noteq> READ_ONLY \<or> cap \<noteq> CAPABILITY_SHELL"
  shows "decide env np cap sc q =
    (case engine_home_guard env sc cap q of
       Inl e \<Rightarrow> Inl e | Inr (Some d) \<Rightarrow> Inr d | Inr None \<Rightarrow> decide_rest env np cap sc q)"
  using assms by (subst decide.simps) (auto split: sum.split option.split)

text \<open>A decision past the guard of the home.\<close>

lemma decide_past_guard:
  assumes "decide env np cap sc q = Inr d" and "pd_action d \<noteq> DENY"
    and "profile sc \<noteq> READ_ONLY \<or> cap \<noteq> CAPABILITY_SHELL"
  shows "engine_home_guard env sc cap q = Inr None \<and> decide_rest env np cap sc q = Inr d"
  using assms(1,2) guard_denies [of env sc cap q]
  by (auto simp: decide_writing [OF assms(3)] split: sum.splits option.splits)

lemma full_shell_not_asked:
  assumes "shell_decision env sc q = Inr d" and "profile sc = FULL_ACCESS" and "\<not> (external_content sc \<and> ask_new_destinations sc)"
  shows "pd_action d \<noteq> ASK"
proof -
  have "pd_action (local_decision env sc q sr) \<noteq> ASK" for sr
    using assms(2,3) by (auto simp: local_decision_def Let_def hard_action outbound_action)
  moreover have "machines_decision sc q = Some d \<Longrightarrow> pd_action d \<noteq> ASK" for d
    using assms(2,3) by (auto simp: machines_decision_def Let_def hard_action outbound_action split: if_splits option.splits)
  ultimately show ?thesis
    using assms(1,2) by (auto simp: shell_decision_def Let_def hard_action split: option.splits if_splits)
qed

lemma full_rest_not_asked:
  assumes "profile sc = FULL_ACCESS" and "\<not> (external_content sc \<and> ask_new_destinations sc)"
  shows "pd_action (other_capability env sc cap q) \<noteq> ASK"
    and "pd_action (mcp_tool sc cap f risk rc) \<noteq> ASK"
    and "harness_capability sc cap q = Some d \<Longrightarrow> pd_action d \<noteq> ASK"
    and "fs_write env sc q = Inr d \<Longrightarrow> pd_action d \<noteq> ASK"
    and "fs_read env sc q cap = Inr d \<Longrightarrow> pd_action d \<noteq> ASK"
    and "np_mode np \<noteq> MODE_ASK \<Longrightarrow> network_decision env np sc q = Inr d \<Longrightarrow> pd_action d \<noteq> ASK"
proof -
  show "pd_action (other_capability env sc cap q) \<noteq> ASK"
    using assms by (auto simp: other_capability_def Let_def outbound_action)
  show "pd_action (mcp_tool sc cap f risk rc) \<noteq> ASK"
    using assms(1) by (simp add: mcp_tool_def Let_def)
  show "harness_capability sc cap q = Some d \<Longrightarrow> pd_action d \<noteq> ASK"
    by (auto simp: harness_capability_def Let_def split: if_splits)
  show "pd_action d \<noteq> ASK" if "fs_write env sc q = Inr d"
    using that assms(1) unfolding fs_write_def
    by (cases "worktree sc") (auto simp: Let_def secret_action private_denial_def split: if_splits option.splits)
  show "fs_read env sc q cap = Inr d \<Longrightarrow> pd_action d \<noteq> ASK"
    using assms(1) by (auto simp: fs_read_def secret_action private_denial_def split: if_splits option.splits)
  show "pd_action d \<noteq> ASK" if m: "np_mode np \<noteq> MODE_ASK" and dec: "network_decision env np sc q = Inr d"
  proof -
    obtain net where "pd_action d = network_verdict env np sc q net" by (rule network_decision_net [OF dec])
    then show ?thesis using m assms by (simp add: network_verdict_def Let_def)
  qed
qed

lemma decide_rest_elim [consumes 1, case_names denied_write net_case read_case harness_case write_case mcp_case shell_case other_case]:
  assumes "decide_rest env np cap sc q = Inr d"
  obtains "profile sc = READ_ONLY" "cap = CAPABILITY_FS_WRITE" "pd_action d = DENY"
    | "cap = CAPABILITY_NETWORK" "network_decision env np sc q = Inr d"
    | "cap = CAPABILITY_FS_READ \<or> cap = CAPABILITY_GIT_LOCAL" "fs_read env sc q cap = Inr d"
    | "harness_capability sc cap q = Some d"
    | "profile sc \<noteq> READ_ONLY" "cap = CAPABILITY_FS_WRITE" "fs_write env sc q = Inr d"
    | f where "cap = CAPABILITY_MCP_READ \<or> cap = CAPABILITY_MCP_WRITE" "aq_mcp q = Some f"
        "d = mcp_tool sc cap f (aq_risk q) (aq_risk_class q)"
    | "cap = CAPABILITY_SHELL" "shell_decision env sc q = Inr d"
    | "cap \<noteq> CAPABILITY_SHELL" "cap \<noteq> CAPABILITY_FS_WRITE" "d = other_capability env sc cap q"
proof (cases "profile sc = READ_ONLY \<and> cap = CAPABILITY_FS_WRITE")
  case True
  with assms have "d = deny_decision cap ''read-only execution cannot write files''
      (if aq_path q \<noteq> None then aq_path q else aq_command q) (aq_risk q) (aq_risk_class q) ''default''"
    by (simp add: decide_rest_def)
  then have "pd_action d = DENY" by simp
  with True that(1) show ?thesis by blast
next
  case ro: False
  show ?thesis
  proof (cases "cap = CAPABILITY_NETWORK")
    case True
    with assms that(2) show ?thesis by (simp add: decide_rest_def)
  next
    case net: False
    show ?thesis
    proof (cases "cap = CAPABILITY_FS_READ \<or> cap = CAPABILITY_GIT_LOCAL")
      case True
      with assms ro net that(3) show ?thesis by (simp only: decide_rest_def if_False if_True)
    next
      case rd: False
      note rest = assms [unfolded decide_rest_def if_not_P [OF ro] if_not_P [OF net] if_not_P [OF rd]]
      show ?thesis
      proof (cases "harness_capability sc cap q")
        case (Some h)
        with rest that(4) show ?thesis by simp
      next
        case None
        show ?thesis
        proof (cases "cap = CAPABILITY_FS_WRITE")
          case True
          with rest None ro that(5) show ?thesis by simp
        next
          case wr: False
          show ?thesis
          proof (cases "(cap = CAPABILITY_MCP_READ \<or> cap = CAPABILITY_MCP_WRITE) \<and> aq_mcp q \<noteq> None")
            case True
            then obtain f where "aq_mcp q = Some f" by blast
            with rest None wr True that(6) show ?thesis by simp
          next
            case mcp: False
            note rest' = rest [unfolded None option.case if_not_P [OF wr] if_not_P [OF mcp]]
            show ?thesis
            proof (cases "cap = CAPABILITY_SHELL")
              case True
              with rest' that(7) show ?thesis by simp
            next
              case False
              with rest' wr that(8) show ?thesis by simp
            qed
          qed
        qed
      qed
    qed
  qed
qed

text \<open>
  C10. Full access asks for nothing: unless the owner turned on the question before new destinations
  (and the turn has read external content) or set the network to ask for every host, no action is
  asked about in full access.
\<close>

theorem full_access_asks_for_nothing:
  assumes "decide env np cap sc q = Inr d" and "profile sc = FULL_ACCESS"
    and "\<not> (external_content sc \<and> ask_new_destinations sc)" and "np_mode np \<noteq> MODE_ASK"
  shows "pd_action d \<noteq> ASK"
proof
  assume ask: "pd_action d = ASK"
  then have "decide_rest env np cap sc q = Inr d"
    using decide_past_guard [OF assms(1)] assms(2) by simp
  then show False
    using ask full_rest_not_asked [OF assms(2,3)] full_shell_not_asked [OF _ assms(2,3)] assms(4)
    by (cases rule: decide_rest_elim) simp_all
qed

section \<open>What the modes promise\<close>


text \<open>
  C9. A write project mode lets through without asking ends inside the project (or one of its other
  folders), never in the home folder opened as a project; it is no system secret and no restoration
  data, and overwrites no work that was uncommitted before the session.
\<close>

theorem workspace_writes_stay_inside:
  assumes "decide env np CAPABILITY_FS_WRITE sc q = Inr d" and "profile sc = WORKSPACE" and "pd_action d = ALLOW"
  shows "\<exists>x p. aq_path q = Some x \<and> resolve_target env sc x = Inr p \<and> pd_target d = Some (str_path p) \<and>
    (inside_extra_root env p sc \<or>
     (\<exists>r. sc_root sc = Some r \<and> inside_root env p (Some r) \<and> \<not> is_home_itself env r sc)) \<and>
    \<not> is_system_secret p \<and> \<not> inside_any (pe_os env) p (private_roots sc) \<and>
    (case worktree sc of Some classify \<Rightarrow> classify p = None | None \<Rightarrow> True)"
proof -
  have "decide_rest env np CAPABILITY_FS_WRITE sc q = Inr d"
    using decide_past_guard [OF assms(1)] assms(3) by simp
  then have "fs_write env sc q = Inr d" using assms(2) by (simp add: decide_rest_def harness_capability_def)
  with assms(3) obtain x p where x: "aq_path q = Some x" "resolve_target env sc x = Inr p"
    by (auto simp: fs_write_def split: option.splits)
  have fs: "fs_write env sc q = Inr d" by fact
  have np: "\<not> inside_any (pe_os env) p (private_roots sc)" and ns: "\<not> is_system_secret p"
    using fs x assms(2,3) by (auto simp: fs_write_def Let_def bindE_simps secret_action private_denial_def split: if_splits)
  have clean: "case worktree sc of Some classify \<Rightarrow> classify p = None | None \<Rightarrow> True"
    using fs x assms(2,3) np ns by (auto simp: fs_write_def Let_def bindE_simps split: option.splits if_splits)
  define dirty where "dirty = (case worktree sc of Some classify \<Rightarrow> classify p | None \<Rightarrow> None)"
  have "dirty = None" using clean by (simp add: dirty_def split: option.splits)
  then have "pd_target d = Some (str_path p) \<and> (inside_extra_root env p sc \<or>
      (inside_root env p (sc_root sc) \<and> \<not> (case sc_root sc of None \<Rightarrow> False | Some r \<Rightarrow> is_home_itself env r sc)))"
    using fs x assms(2,3) np ns
    by (auto simp: fs_write_def Let_def bindE_simps dirty_def [symmetric] plain_decision_def cong: option.case_cong split: if_splits)
  then show ?thesis using x np ns clean by (cases "sc_root sc") (auto simp: inside_root_def)
qed

text \<open>
  C6. In every mode, a file action of an agent that ends in the engine's home is denied, unless the
  folder is one it may use, or one it may read and the action only reads.
\<close>

theorem engine_home_is_sealed:
  assumes "decide env np cap sc q = Inr d" and "cap \<in> {CAPABILITY_FS_READ, CAPABILITY_GIT_LOCAL, CAPABILITY_FS_WRITE}"
    and "engine_home sc = Some h" and "aq_path q = Some x" and "resolve_target env sc x = Inr p"
    and "at_or_under (folder (pe_os env) h) p" and "\<not> inside_any (pe_os env) p (engine_home_open sc)"
    and "cap = CAPABILITY_FS_WRITE \<or> \<not> inside_any (pe_os env) p (engine_home_readable sc)"
  shows "pd_action d = DENY \<and> pd_rule_id d = ''engine_home''"
proof -
  have "engine_home_guard env sc cap q \<noteq> Inr None"
    using assms by (auto simp: engine_home_guard_def home_allows_def)
  moreover have "decide env np cap sc q =
      (case engine_home_guard env sc cap q of
         Inl e \<Rightarrow> Inl e | Inr (Some d) \<Rightarrow> Inr d | Inr None \<Rightarrow> decide_rest env np cap sc q)"
    using assms(2) by (intro decide_writing) auto
  ultimately show ?thesis using assms(1) guard_denies [of env sc cap q]
    by (auto split: sum.splits option.splits)
qed

text \<open>
  C7. A command on the catastrophic list: the modes that write refuse it; read-only mode, where the
  rules refuse it, asks all the same and offers to allow it once (or the guard of the engine's home
  refuses it). Only a command that also counts as one of git's reads is let through there.
\<close>

theorem catastrophic_is_refused:
  assumes "decide env np CAPABILITY_SHELL sc q = Inr d" and "catastrophic (or_empty (aq_command q)) = Some why"
    and "\<not> git_reads_only (or_empty (aq_command q)) \<or> profile sc \<noteq> READ_ONLY"
  shows "if profile sc = READ_ONLY
    then pd_action d = DENY \<or> pd_action d = ASK \<and> pd_choices d = [''deny'', ''allow_once'']
    else pd_action d = DENY"
proof -
  have ws: "pd_action d' = DENY" if "decide env np CAPABILITY_SHELL sc' q' = Inr d'" "profile sc' \<noteq> READ_ONLY"
    "aq_command q' = aq_command q" for sc' q' d'
  proof (rule ccontr)
    assume n: "pd_action d' \<noteq> DENY"
    then have "decide_rest env np CAPABILITY_SHELL sc' q' = Inr d'"
      using decide_past_guard [OF that(1)] that(2) by simp
    with that(2,3) assms(2) n show False
      by (auto simp: decide_rest_def harness_capability_def shell_decision_def)
  qed
  show ?thesis
  proof (cases "profile sc = READ_ONLY")
    case False
    with ws [OF assms(1)] show ?thesis by simp
  next
    case True
    show ?thesis
    proof (cases "engine_home_guard env sc CAPABILITY_SHELL q")
      case (Inr g)
      show ?thesis
      proof (cases g)
        case (Some d')
        with Inr assms(1) have "d = d'" by (subst (asm) decide.simps) simp
        with Inr Some guard_denies [of env sc CAPABILITY_SHELL q] True show ?thesis by simp
      next
        case None
        then obtain usual where "decide env np CAPABILITY_SHELL (sc\<lparr>profile := WORKSPACE\<rparr>)
            (q\<lparr>aq_host := None, aq_network_mode := ''read'', aq_cost_basis := None, aq_mcp := None\<rparr>) = Inr usual"
          and d: "d = read_only_command env sc CAPABILITY_SHELL q usual"
          using Inr assms(1,3) True by (subst (asm) decide.simps) (auto split: sum.splits if_splits)
        then have "pd_action usual = DENY" using ws by simp
        with d True show ?thesis
          by (simp add: read_only_command_def CHOICES_HARD_def split: option.split)
      qed
    next
      case (Inl e)
      with assms(1) show ?thesis by (subst (asm) decide.simps) simp
    qed
  qed
qed

text \<open>
  C8. In project mode, after external content, sending data to a host that is not local is refused or
  asked about, at most for the session, whatever the owner's network rules and mode allow.
\<close>

theorem external_content_send_is_asked:
  assumes "decide env np CAPABILITY_NETWORK sc q = Inr d" and "profile sc = WORKSPACE"
    and "external_content sc" and "aq_network_mode q = ''send''"
    and "normalize_host (np_ip_ok np) (or_empty (aq_host q)) = Inr (Some h)"
    and "\<not> is_local_host (ip_address env) (Some h)"
  shows "pd_action d = DENY \<or>
    pd_action d = ASK \<and> pd_choices d = [''deny'', ''allow_once'', ''allow_session''] \<and> pd_rule_id d = ''external_content_send''"
proof -
  have "decide_rest env np CAPABILITY_NETWORK sc q = Inr d"
    using assms(1) by (simp add: decide_writing engine_home_guard_def split: if_splits)
  then obtain net where n: "network_decide (np_ip_ok np) (np_mode np) (np_rules np) (or_empty (aq_host q)) = Inr net"
    and d: "network_decision env np sc q = Inr d"
    by (auto simp: decide_rest_def network_decision_def split: sum.splits)
  have "nd_host net = Some h" using network_decide_host [OF n] assms(5) by simp
  with n d assms(2,3,4,6) show ?thesis
    by (auto simp: network_decision_def Let_def outbound_def CHOICES_SESSION_def)
qed

section \<open>The form of an ask\<close>

definition ask_form :: "PolicyDecision \<Rightarrow> bool" where
  "ask_form d = (pd_action d = ASK \<longrightarrow>
     pd_choices d \<in> {CHOICES_HARD, CHOICES_SESSION, CHOICES_LASTING} \<and> (pd_reusable d \<longleftrightarrow> pd_choices d \<noteq> CHOICES_HARD))"

lemma ask_form_simps [simp]:
  "ask_form (plain_decision act cap reason target risk rc)"
  "ask_form ((plain_decision DENY cap reason target risk rc)\<lparr>pd_reusable := r, pd_choices := cs\<rparr>)"
  "ask_form (deny_decision cap reason target risk rc rule)"
  "offered \<in> {CHOICES_HARD, CHOICES_SESSION, CHOICES_LASTING} \<Longrightarrow> ask_form (ask_decision cap reason target risk rc rule offered binding)"
  by (auto simp: ask_form_def plain_decision_def ask_decision_def deny_decision_def CHOICES_SESSION_def CHOICES_HARD_def)

lemma ask_form_if [simp]: "ask_form (if b then x else y) \<longleftrightarrow> (if b then ask_form x else ask_form y)"
  by simp

lemma ask_form_helpers [simp]:
  "ask_form (hard_decision sc cap reason target rule risk rc)"
  "ask_form (secret_decision sc cap p w)"
  "ask_form (outbound sc cap reason target risk rc rule binding trusted)"
  by (simp_all add: hard_decision_def secret_decision_def outbound_def Let_def)

lemma ask_form_option [simp]:
  "ask_form (case x of None \<Rightarrow> d | Some y \<Rightarrow> f y) \<longleftrightarrow> (case x of None \<Rightarrow> ask_form d | Some y \<Rightarrow> ask_form (f y))"
  by (simp split: option.split)

lemma ask_form_layers:
  "ask_form (other_capability env sc cap q)"
  "ask_form (mcp_tool sc cap f risk rc)"
  "ask_form (local_decision env sc q sr)"
  by (simp_all add: other_capability_def mcp_tool_def local_decision_def Let_def cong: if_cong split del: if_split)

lemma ask_form_machines: "case machines_decision sc q of None \<Rightarrow> True | Some d \<Rightarrow> ask_form d"
  by (simp add: machines_decision_def Let_def if_distrib [of "\<lambda>x. case x of None \<Rightarrow> True | Some d \<Rightarrow> ask_form d"]
      option.case_distrib [of "\<lambda>x. case x of None \<Rightarrow> True | Some d \<Rightarrow> ask_form d"] cong: if_cong option.case_cong split del: if_split split: option.split)

lemma ask_form_harness: "harness_capability sc cap q = Some d \<Longrightarrow> ask_form d"
  by (auto simp: harness_capability_def Let_def split: if_splits)

text \<open>Every ask offers one of the three lists of choices, and is reusable unless it is the shortest.\<close>

definition result_form :: "policy_error + PolicyDecision \<Rightarrow> bool" where
  "result_form r = (case r of Inl e \<Rightarrow> True | Inr d \<Rightarrow> ask_form d)"

lemma result_form_simps [simp]:
  "result_form (Inl e)" "result_form (Inr d) = ask_form d"
  "result_form (bindE x (\<lambda>y. Inr (g y))) \<longleftrightarrow> (case x of Inl e \<Rightarrow> True | Inr y \<Rightarrow> ask_form (g y))"
  by (simp_all add: result_form_def bindE_def split: sum.split)

lemma result_form_layers:
  "result_form (fs_read env sc q cap)"
  "result_form (fs_write env sc q)"
  "result_form (shell_decision env sc q)"
  "result_form (network_decision env np sc q)"
proof -
  show "result_form (fs_read env sc q cap)"
    by (simp add: fs_read_def private_denial_def cong: if_cong option.case_cong sum.case_cong split: option.split sum.split)
  show "result_form (fs_write env sc q)"
    by (simp add: fs_write_def private_denial_def Let_def cong: if_cong option.case_cong sum.case_cong split: option.split sum.split)
  show "result_form (shell_decision env sc q)"
    using ask_form_machines [of sc q]
    by (simp add: shell_decision_def Let_def ask_form_layers cong: if_cong option.case_cong sum.case_cong split: option.split sum.split)
  show "result_form (network_decision env np sc q)"
    by (simp add: network_decision_def Let_def cong: if_cong split: sum.split split del: if_split)
qed

lemma decide_form: "result_form (decide env np cap sc q)"
proof -
  have rest: "result_form (decide_rest env np cap sc' q)" for sc'
    using result_form_layers ask_form_layers ask_form_harness
    by (simp add: decide_rest_def split: option.split)
  have g: "ask_form d" if "engine_home_guard env sc cap q = Inr (Some d)" for d
    using guard_denies [OF that] by (simp add: ask_form_def)
  have ro: "ask_form (read_only_command env sc k q usual)" for usual k
    by (simp add: read_only_command_def Let_def cong: if_cong option.case_cong split: option.split)
  show ?thesis
    by (subst decide.simps) (auto simp: rest g ro split: sum.split option.split)
qed

lemma decide_ask_form:
  assumes "decide env np cap sc q = Inr d" and "pd_action d = ASK"
  shows "pd_choices d \<in> {CHOICES_HARD, CHOICES_SESSION, CHOICES_LASTING} \<and> (pd_reusable d \<longleftrightarrow> pd_choices d \<noteq> CHOICES_HARD)"
  using decide_form [of env np cap sc q] assms by (simp add: ask_form_def)

section \<open>At work\<close>

definition sample_policy_env :: policy_env where
  "sample_policy_env = \<lparr>pe_os = \<lparr>resolve = Some, folder = (\<lambda>p. p), expand_user = Some, expand_text = (\<lambda>s. s)\<rparr>,
     ip_address = (\<lambda>h. None), repr_of = (\<lambda>s. s)\<rparr>"

definition sample_network :: NetworkPolicy where
  "sample_network = \<lparr>np_ip_ok = (\<lambda>s. True), np_mode = MODE_AUTO, np_rules = []\<rparr>"

definition sample_scope :: "PermissionProfile \<Rightarrow> SessionScope" where
  "sample_scope m = \<lparr>sc_kind = ''PROJECT'', sc_root = Some (PPath ''/'' [''p'']), sc_cwd = PPath ''/'' [''p''],
     profile = m, user_home = None, worktree = None, private_roots = [], external_content = False,
     ask_new_destinations = False, external_origins = [], command_cwd = None, extra_roots = [],
     engine_home = None, engine_home_open = [], engine_home_readable = []\<rparr>"

definition sample_action :: action_request where
  "sample_action = \<lparr>aq_path = Some ''a'', aq_command = None, aq_host = Some ''ab.cd'', aq_risk = ''low'', aq_risk_class = ''none'',
     aq_target = None, aq_network_mode = ''send'', aq_cost_basis = None, aq_mcp = None\<rparr>"

lemmas sample_policy_defs = sample_policy_env_def sample_network_def sample_scope_def sample_action_def

lemma sample_path: "resolve_target sample_policy_env (sample_scope m) ''a'' = Inr (PPath ''/'' [''p'', ''a''])"
  by (simp add: resolve_target_def sample_policy_env_def sample_scope_def path_of_def join_path_def is_absolute_def
      startswith_code)

lemma sample_no_secret: "\<not> is_system_secret (PPath ''/'' [''p'', ''a''])"
  by code_simp

lemma sample_read:
  "decide sample_policy_env sample_network CAPABILITY_FS_READ (sample_scope m) sample_action =
     Inr (allow_decision CAPABILITY_FS_READ ''inside the PROJECT session root'' (Some ''/p/a'') ''low'' ''none'')"
proof -
  have "fs_read sample_policy_env (sample_scope m) sample_action CAPABILITY_FS_READ =
     Inr (allow_decision CAPABILITY_FS_READ ''inside the PROJECT session root'' (Some ''/p/a'') ''low'' ''none'')"
    using sample_path [of m] sample_no_secret
    by (simp add: fs_read_def sample_action_def bindE_simps)
       (simp add: sample_scope_def sample_policy_env_def inside_any_def inside_root_def at_or_under_def in_parents_def str_path_def)
  then show ?thesis by (simp add: decide_writing engine_home_guard_def decide_rest_def sample_scope_def)
qed

theorem freer_mode_allows_witness:
  "allows (decide sample_policy_env sample_network CAPABILITY_FS_READ
     (sample_scope READ_ONLY\<lparr>profile := FULL_ACCESS\<rparr>) sample_action)"
  by (rule freer_mode_allows [where p = READ_ONLY])
     (simp_all add: mode_rank_def sample_read [of READ_ONLY, unfolded sample_scope_def] sample_scope_def)

theorem full_access_witness:
  "pd_action (allow_decision CAPABILITY_FS_READ ''inside the PROJECT session root'' (Some ''/p/a'') ''low'' ''none'') \<noteq> ASK"
  by (rule full_access_asks_for_nothing [OF sample_read [of FULL_ACCESS]])
     (simp_all add: sample_scope_def sample_network_def)


theorem workspace_writes_witness:
  "case decide sample_policy_env sample_network CAPABILITY_FS_WRITE (sample_scope WORKSPACE) sample_action of
     Inl e \<Rightarrow> False
   | Inr d \<Rightarrow> pd_action d = ALLOW \<and> \<not> is_system_secret (PPath ''/'' [''p'', ''a''])"
proof -
  obtain d where d: "fs_write sample_policy_env (sample_scope WORKSPACE) sample_action = Inr d" "pd_action d = ALLOW"
    using sample_path [of WORKSPACE] sample_no_secret
    by (simp add: fs_write_def sample_action_def bindE_simps Let_def)
       (simp add: sample_scope_def sample_policy_env_def inside_any_def inside_root_def inside_extra_root_def
         is_home_itself_def at_or_under_def in_parents_def)
  then have dec: "decide sample_policy_env sample_network CAPABILITY_FS_WRITE (sample_scope WORKSPACE) sample_action = Inr d"
    by (simp add: decide_writing engine_home_guard_def decide_rest_def harness_capability_def sample_scope_def)
  have "profile (sample_scope WORKSPACE) = WORKSPACE" by (simp add: sample_scope_def)
  from workspace_writes_stay_inside [OF dec this d(2)] sample_path [of WORKSPACE] d(2) dec show ?thesis
    by (auto simp: sample_action_def)
qed

theorem engine_home_witness:
  "case decide sample_policy_env sample_network CAPABILITY_FS_READ
          (sample_scope FULL_ACCESS\<lparr>engine_home := Some (PPath ''/'' [''p''])\<rparr>) sample_action of
     Inl e \<Rightarrow> False | Inr d \<Rightarrow> pd_action d = DENY"
proof -
  let ?sc = "sample_scope FULL_ACCESS\<lparr>engine_home := Some (PPath ''/'' [''p''])\<rparr>"
  have p: "resolve_target sample_policy_env ?sc ''a'' = Inr (PPath ''/'' [''p'', ''a''])"
    using sample_path [of FULL_ACCESS] by (simp add: resolve_target_def sample_scope_def)
  then obtain d where d: "decide sample_policy_env sample_network CAPABILITY_FS_READ ?sc sample_action = Inr d"
    by (cases "engine_home_guard sample_policy_env ?sc CAPABILITY_FS_READ sample_action")
       (auto simp: decide_writing engine_home_guard_def decide_rest_def fs_read_def bindE_def sample_action_def
         split: option.splits if_splits)
  have "pd_action d = DENY \<and> pd_rule_id d = ''engine_home''"
    by (rule engine_home_is_sealed [OF d, where h = "PPath ''/'' [''p'']" and x = "''a''" and p = "PPath ''/'' [''p'', ''a'']"])
       (use p in \<open>simp_all add: sample_policy_defs inside_any_def at_or_under_def in_parents_def\<close>)
  with d show ?thesis by simp
qed

lemma mkfs_catastrophic: "catastrophic ''mkfs'' = Some ''formats a disk''" by code_simp

theorem catastrophic_witness:
  "case decide sample_policy_env sample_network CAPABILITY_SHELL (sample_scope FULL_ACCESS)
          (sample_action\<lparr>aq_command := Some ''mkfs''\<rparr>) of Inl e \<Rightarrow> False | Inr d \<Rightarrow> pd_action d = DENY"
proof -
  let ?q = "sample_action\<lparr>aq_command := Some ''mkfs''\<rparr>" and ?sc = "sample_scope FULL_ACCESS"
  have p: "profile ?sc = FULL_ACCESS" and q: "or_empty (aq_command ?q) = ''mkfs''"
    by (simp_all add: sample_scope_def or_empty_def)
  have g: "engine_home_guard sample_policy_env ?sc CAPABILITY_SHELL ?q = Inr None"
    by (simp add: engine_home_guard_def sample_scope_def)
  obtain d where "shell_decision sample_policy_env ?sc ?q = Inr d"
    by (simp add: shell_decision_def or_empty_def mkfs_catastrophic)
  then have d: "decide sample_policy_env sample_network CAPABILITY_SHELL ?sc ?q = Inr d"
    by (simp add: decide_writing p g decide_rest_def harness_capability_def)
  have "if profile ?sc = READ_ONLY then pd_action d = DENY \<or> pd_action d = ASK \<and> pd_choices d = [''deny'', ''allow_once'']
      else pd_action d = DENY"
    by (rule catastrophic_is_refused [OF d]) (simp_all only: q mkfs_catastrophic p, simp_all)
  with d p show ?thesis by simp
qed

lemma sample_host: "normalize_host (\<lambda>s. True) ''ab.cd'' = Inr (Some ''ab.cd'')" by code_simp

theorem external_content_witness:
  "case decide sample_policy_env sample_network CAPABILITY_NETWORK (sample_scope WORKSPACE\<lparr>external_content := True\<rparr>)
          sample_action of Inl e \<Rightarrow> False | Inr d \<Rightarrow> pd_action d = DENY \<or> ''allow_project'' \<notin> set (pd_choices d)"
proof -
  let ?sc = "sample_scope WORKSPACE\<lparr>external_content := True\<rparr>"
  have net: "normalize_host (np_ip_ok sample_network) (or_empty (aq_host sample_action)) = Inr (Some ''ab.cd'')"
    using sample_host by (simp add: sample_network_def sample_action_def or_empty_def)
  have far: "\<not> is_local_host (ip_address sample_policy_env) (Some ''ab.cd'')" by code_simp
  obtain d where d: "decide sample_policy_env sample_network CAPABILITY_NETWORK ?sc sample_action = Inr d"
    using net by (auto simp: decide_writing engine_home_guard_def decide_rest_def network_decision_def network_decide_def
        sample_scope_def sample_network_def Let_def split: sum.splits option.splits)
  show ?thesis
    using external_content_send_is_asked [OF d _ _ _ net far] d
    by (auto simp: sample_scope_def sample_action_def)
qed

text \<open>
  Read-only mode: the second line of a command is not looked at, a line break being no chaining character; git's read on the first line lets the whole command through.
\<close>

theorem read_only_runs_second_line:
  "allows (decide sample_policy_env sample_network CAPABILITY_SHELL (sample_scope READ_ONLY)
   (sample_action\<lparr>aq_command := Some (''git log'' @ [newline] @ ''rm a'')\<rparr>))" by code_simp
text \<open>\<open>classify_shell_risk\<close> raises only for a \<open>~name\<close> without a home.\<close>

lemma risk_loop_total:
  assumes "\<And>p. expand_user os p = Some (g p)" and "private_roots sc = []"
  shows "\<exists>ext sens. risk_loop os sc items (external, s, False) = Inr (ext, sens, False)"
proof (induction items arbitrary: external s)
  case (Cons it items)
  obtain raw w where "it = (raw, w)" by fastforce
  moreover obtain f where "token_path os sc raw = Inr f"
    using assms by (cases "token_path os sc raw") (auto simp: token_path_def bindE_def Let_def split: if_splits option.splits)
  ultimately show ?case
    using Cons.IH assms(2) by (cases f) (simp_all add: bindE_simps inside_any_def)
qed simp

lemma classify_total:
  assumes "\<And>p. expand_user os p = Some (g p)" and "private_roots sc = []"
  shows "\<exists>sr. classify_shell_risk os c sc = Inr sr \<and> \<not> private_target sr"
proof -
  obtain ext sens where "risk_loop os sc (risk_items (local_part c)) ([], False, False) = Inr (ext, sens, False)"
    using risk_loop_total [OF assms] by blast
  then show ?thesis by (simp add: classify_shell_risk_def bindE_simps Let_def)
qed

lemma sample_facts:
  "engine_home_guard sample_policy_env (sample_scope m) CAPABILITY_SHELL q = Inr None"
  "profile (sample_scope m) = m" "external_content (sample_scope m) = False"
  "command_cwd_outside sample_policy_env (sample_scope m) = None"
  by (simp_all add: engine_home_guard_def sample_scope_def command_cwd_outside_def)

text \<open>
  The pattern for deleting the root wants a blank or the end behind it: with a separator there the command is allowed in full access.
\<close>

theorem catastrophic_list_misses_separator:
  "allows (decide sample_policy_env sample_network CAPABILITY_SHELL (sample_scope FULL_ACCESS)
     (sample_action\<lparr>aq_command := Some ''rm -rf /;ls''\<rparr>))"
proof -
  have c: "catastrophic ''rm -rf /;ls'' = None" "classify_git_remote ''rm -rf /;ls'' = None"
    "remote_actions ''rm -rf /;ls'' = []" by code_simp+
  obtain sr where "classify_shell_risk (pe_os sample_policy_env) ''rm -rf /;ls'' (sample_scope FULL_ACCESS) = Inr sr"
    "\<not> private_target sr"
    using classify_total [where os = "pe_os sample_policy_env" and sc = "sample_scope FULL_ACCESS" and g = "\<lambda>p. p" and c = "''rm -rf /;ls''"]
    by (auto simp: sample_scope_def sample_policy_env_def)
  then show ?thesis
    by (simp add: decide_writing sample_facts decide_rest_def harness_capability_def shell_decision_def or_empty_def c
        machines_decision_none local_decision_def Let_def hard_action bindE_simps)
qed

text \<open>
  \<open>shlex\<close> reads \<open>#\<close> inside a word as the start of a comment, a shell does not: what comes behind it is not seen as a command on another machine.
\<close>

theorem comment_hides_remote_command:
  "allows (decide sample_policy_env sample_network CAPABILITY_SHELL (sample_scope WORKSPACE)
     (sample_action\<lparr>aq_command := Some ''a#b; ssh h ls''\<rparr>))"
proof -
  let ?c = "''a#b; ssh h ls''"
  have c: "catastrophic ?c = None" "classify_git_remote ?c = None" "remote_actions ?c = []" "local_part ?c = ?c"
    and m: "\<not> rx_search MUTATING_SHELL ?c" "\<not> rx_search REDIRECT_TARGET ?c" "rx_finditer REDIRECT_TARGET ?c = []"
      "\<not> rx_search DESTRUCTIVE_SHELL ?c" by code_simp+
  have "risk_items ?c = []" using m by (simp add: risk_items_def group_values_def)
  then have "\<exists>sr. classify_shell_risk (pe_os sample_policy_env) ?c (sample_scope WORKSPACE) = Inr sr \<and>
      \<not> private_target sr \<and> \<not> sensitive_target sr \<and> \<not> destructive sr \<and> \<not> local_mutation sr"
    using m c(4) by (simp add: classify_shell_risk_def bindE_simps)
  then show ?thesis
    by (auto simp: decide_writing sample_facts decide_rest_def harness_capability_def shell_decision_def or_empty_def c
        machines_decision_none local_decision_def Let_def bindE_simps)
qed

text \<open>
  A \<open>~name\<close> without a home folder raises out of the decision.
\<close>

theorem missing_home_raises:
  "decide (sample_policy_env\<lparr>pe_os := (pe_os sample_policy_env)\<lparr>expand_user := (\<lambda>p. None)\<rparr>\<rparr>) sample_network
     CAPABILITY_SHELL (sample_scope WORKSPACE) (sample_action\<lparr>aq_command := Some ''rm ~x/a''\<rparr>) = Inl NoHomeDirectory"
proof -
  let ?c = "''rm ~x/a''" and ?env = "sample_policy_env\<lparr>pe_os := (pe_os sample_policy_env)\<lparr>expand_user := (\<lambda>p. None)\<rparr>\<rparr>"
  have c: "catastrophic ?c = None" "classify_git_remote ?c = None" "local_part ?c = ?c" "risk_items ?c = [(''~x/a'', True)]"
    by code_simp+
  have s: "rstrip (\<lambda>c. c \<in> set '',)'') (strip ''~x/a'') = ''~x/a''" by code_simp
  have "token_path (pe_os ?env) (sample_scope WORKSPACE) ''~x/a'' = Inl NoHomeDirectory"
    unfolding token_path_def s Let_def by (simp add: startswith_code bindE_simps lower_def lower_char_def)
  then have "classify_shell_risk (pe_os ?env) ?c (sample_scope WORKSPACE) = Inl NoHomeDirectory"
    by (simp add: classify_shell_risk_def c bindE_simps)
  moreover have "engine_home_guard ?env (sample_scope WORKSPACE) CAPABILITY_SHELL q = Inr None" for q
    by (simp add: engine_home_guard_def sample_scope_def)
  ultimately show ?thesis
    by (simp add: decide_writing sample_facts decide_rest_def harness_capability_def shell_decision_def or_empty_def c bindE_simps)
qed

text \<open>
  A command on the catastrophic list is asked about in read-only mode and can be allowed once.
\<close>

theorem catastrophic_asked_in_read_only:
  "case decide sample_policy_env sample_network CAPABILITY_SHELL (sample_scope READ_ONLY)
   (sample_action\<lparr>aq_command := Some ''mkfs''\<rparr>) of Inl e \<Rightarrow> False | Inr d \<Rightarrow> pd_action d = ASK \<and> ''allow_once'' \<in> set (pd_choices d)" by code_simp
text \<open>
  A host without a dot counts as local, an internet address written as one number too: data is sent there without asking, even after external content.
\<close>

theorem number_is_local_host:
  "allows (decide sample_policy_env sample_network CAPABILITY_NETWORK (sample_scope WORKSPACE\<lparr>external_content := True\<rparr>)
   (sample_action\<lparr>aq_host := Some ''134744072'', aq_network_mode := ''send''\<rparr>))" by code_simp

end
