(* ===== verification/Approvals.thy ===== *)
theory Approvals
  imports Rinari_Prelude
begin

text \<open>
  Consent: the approval engine of \<^verbatim>\<open>src/src/rinari/policy/approvals.py\<close>, its two grant files
  (\<^verbatim>\<open>src/src/rinari/policy/approval_store.py\<close>: \<open>ApprovalStore\<close> and \<open>ProjectGrantStore\<close>) and the
  stored session grants (\<^verbatim>\<open>src/src/rinari/policy/session_grants.py\<close>).

  The engine holds a session list, a project list, an optional persistent dictionary and an
  optional project store; here they are fields of one state. The prompt's answer, the effect
  of \<open>on_always\<close>, fresh identifiers, the clock and path resolution (\<open>paths\<close>) are arguments. A
  file is the list of rows it holds.
\<close>

section \<open>Requests and grants\<close>

datatype GrantScope = ONCE | SESSION | PROJECT | PERSISTENT

datatype on_always = NoSetting | SavesSetting | RaisesOnSave string

record ApprovalRequest =
  rq_capability :: string
  rq_description :: string
  rq_target :: "string option"
  rq_session_id :: "string option"
  rq_project_id :: "string option"
  rq_rule_id :: string
  rq_reusable :: bool
  rq_choices :: "string list"
  rq_binding_mode :: string
  rq_on_always :: on_always

record ApprovalGrant =
  gt_capability :: string
  gt_scope :: GrantScope
  gt_target :: "string option"
  gt_session_id :: "string option"
  gt_project_id :: "string option"
  gt_granted_at :: string
  gt_rule_id :: "string option"
  gt_grant_id :: "string option"

record ApprovalOutcome =
  oc_granted :: bool
  oc_grant :: "ApprovalGrant option"
  oc_reason :: string

text \<open>\<open>Path(p).resolve()\<close> as the list of its parts (\<open>None\<close> when it raises) and \<open>str\<close> of a path.\<close>

record paths =
  resolve_path :: "string \<Rightarrow> string list option"
  path_str :: "string list \<Rightarrow> string"

definition path_inside :: "paths \<Rightarrow> string \<Rightarrow> string \<Rightarrow> bool" where
  "path_inside ps child parent =
     (case (resolve_path ps child, resolve_path ps parent) of
        (Some c, Some p) \<Rightarrow> startswith c p
      | _ \<Rightarrow> False)"

definition has_project :: "ApprovalRequest \<Rightarrow> bool" where
  "has_project rq =
     (case rq_project_id rq of None \<Rightarrow> False | Some p \<Rightarrow> p \<noteq> [] \<and> p \<noteq> ''chats'')"

text \<open>\<open>_lasting_target\<close>: \<open>None\<close> outside means that resolving the target raised.\<close>

definition lasting_target :: "paths \<Rightarrow> ApprovalRequest \<Rightarrow> string option option" where
  "lasting_target ps rq =
     (if rq_binding_mode rq = ''exact'' then Some (rq_target rq)
      else (case rq_target rq of
              Some t \<Rightarrow>
                if rq_capability rq = ''fs.write'' \<and> t \<noteq> []
                then (case resolve_path ps t of
                        None \<Rightarrow> None
                      | Some p \<Rightarrow> Some (Some (path_str ps (butlast p))))
                else Some None
            | None \<Rightarrow> Some None))"

section \<open>The project grant file\<close>

record project_row =
  pr_id :: "string option"
  pr_scope :: "string option"
  pr_capability :: "string option"
  pr_rule_id :: "string option"
  pr_target :: "string option"
  pr_description :: string
  pr_granted_at :: string

definition nonempty :: "string option \<Rightarrow> bool" where
  "nonempty x = (x \<noteq> None \<and> x \<noteq> Some [])"

definition pg_read :: "project_row list \<Rightarrow> project_row list" where
  "pg_read F = filter (\<lambda>r. nonempty (pr_id r)) F"

definition pg_list :: "project_row list \<Rightarrow> string option \<Rightarrow> project_row list" where
  "pg_list F key = filter (\<lambda>r. key = None \<or> pr_scope r = key) (pg_read F)"

definition pg_grant :: "project_row \<Rightarrow> ApprovalGrant" where
  "pg_grant r =
     \<lparr>gt_capability = the (pr_capability r), gt_scope = PROJECT, gt_target = pr_target r,
      gt_session_id = None, gt_project_id = pr_scope r, gt_granted_at = pr_granted_at r,
      gt_rule_id = pr_rule_id r, gt_grant_id = pr_id r\<rparr>"

definition pg_grants_for :: "project_row list \<Rightarrow> string \<Rightarrow> ApprovalGrant list" where
  "pg_grants_for F key = map pg_grant (filter (\<lambda>r. nonempty (pr_capability r)) (pg_list F (Some key)))"

definition pg_add ::
  "string \<Rightarrow> string \<Rightarrow> project_row list \<Rightarrow> string \<Rightarrow> string \<Rightarrow> string option \<Rightarrow> string option \<Rightarrow> string \<Rightarrow>
     ApprovalGrant \<times> project_row list" where
  "pg_add new_id now F key cap rule tgt desc =
     (let rows = pg_read F;
          grant = (\<lambda>ga gid. \<lparr>gt_capability = cap, gt_scope = PROJECT, gt_target = tgt,
                    gt_session_id = None, gt_project_id = Some key, gt_granted_at = ga,
                    gt_rule_id = rule, gt_grant_id = gid\<rparr>)
      in case find_first (\<lambda>r. pr_scope r = Some key \<and> pr_capability r = Some cap \<and>
                              pr_rule_id r = rule \<and> pr_target r = tgt) rows of
           Some r \<Rightarrow> (grant (pr_granted_at r) (pr_id r), F)
         | None \<Rightarrow>
             (let row = \<lparr>pr_id = Some new_id, pr_scope = Some key, pr_capability = Some cap,
                         pr_rule_id = rule, pr_target = tgt, pr_description = take 300 desc,
                         pr_granted_at = now\<rparr>
              in (grant now (Some new_id), rows @ [row])))"

definition pg_revoke :: "project_row list \<Rightarrow> string \<Rightarrow> bool \<times> project_row list" where
  "pg_revoke F gid =
     (let rows = pg_read F; kept = filter (\<lambda>r. pr_id r \<noteq> Some gid) rows in
      if length kept = length rows then (False, F) else (True, kept))"

section \<open>The engine\<close>

record approvals =
  session_grants :: "ApprovalGrant list"
  project_grants :: "ApprovalGrant list"
  persistent_store :: "(string \<times> ApprovalGrant) list option"
  project_store :: "project_row list option"
  audit :: "ApprovalOutcome list"

definition grant_matches :: "paths \<Rightarrow> ApprovalGrant \<Rightarrow> ApprovalRequest \<Rightarrow> bool" where
  "grant_matches ps g rq =
     (if gt_capability g \<noteq> rq_capability rq then False
      else if gt_rule_id g \<noteq> None \<and> gt_rule_id g \<noteq> Some (rq_rule_id rq) then False
      else if rq_binding_mode rq = ''exact'' then gt_target g \<noteq> None \<and> gt_target g = rq_target rq
      else if gt_target g = None \<or> gt_target g = rq_target rq then True
      else (case rq_target rq of
              None \<Rightarrow> False
            | Some t \<Rightarrow> rq_capability rq = ''fs.write'' \<and> path_inside ps t (the (gt_target g))))"

definition project_candidates :: "approvals \<Rightarrow> ApprovalRequest \<Rightarrow> ApprovalGrant list" where
  "project_candidates s rq =
     (if has_project rq
      then project_grants s @
           (case project_store s of None \<Rightarrow> [] | Some F \<Rightarrow> pg_grants_for F (the (rq_project_id rq)))
      else [])"

definition eligible :: "paths \<Rightarrow> ApprovalRequest \<Rightarrow> GrantScope \<Rightarrow> ApprovalGrant \<Rightarrow> bool" where
  "eligible ps rq sc g =
     (if gt_scope g \<noteq> sc then False
      else if sc = PROJECT \<and> gt_project_id g \<noteq> rq_project_id rq then False
      else if sc = SESSION \<and> gt_session_id g \<noteq> rq_session_id rq then False
      else grant_matches ps g rq)"

definition stored_grants :: "approvals \<Rightarrow> ApprovalGrant list" where
  "stored_grants s = (case persistent_store s of None \<Rightarrow> [] | Some d \<Rightarrow> map snd d)"

text \<open>The three stores in the order the engine tries them, each with its scope.\<close>

definition find_grant :: "paths \<Rightarrow> approvals \<Rightarrow> ApprovalRequest \<Rightarrow> ApprovalGrant option" where
  "find_grant ps s rq =
     (case find_first (eligible ps rq PERSISTENT) (stored_grants s) of
        Some g \<Rightarrow> Some g
      | None \<Rightarrow>
          (case find_first (eligible ps rq PROJECT) (project_candidates s rq) of
             Some g \<Rightarrow> Some g
           | None \<Rightarrow> find_first (eligible ps rq SESSION) (session_grants s)))"

definition optional_str :: "string option \<Rightarrow> string" where
  "optional_str x = (case x of None \<Rightarrow> ''None'' | Some s \<Rightarrow> s)"

definition plain_grant :: "ApprovalRequest \<Rightarrow> GrantScope \<Rightarrow> string option \<Rightarrow> ApprovalGrant" where
  "plain_grant rq sc tgt =
     \<lparr>gt_capability = rq_capability rq, gt_scope = sc, gt_target = tgt,
      gt_session_id = rq_session_id rq, gt_project_id = rq_project_id rq, gt_granted_at = [],
      gt_rule_id = Some (rq_rule_id rq), gt_grant_id = None\<rparr>"

definition issued_target :: "ApprovalRequest \<Rightarrow> GrantScope \<Rightarrow> string option" where
  "issued_target rq sc =
     (if rq_binding_mode rq = ''exact'' \<or> sc \<noteq> SESSION then rq_target rq else None)"

definition record_outcome :: "ApprovalOutcome \<Rightarrow> approvals \<Rightarrow> approvals" where
  "record_outcome oc s = s\<lparr>audit := audit s @ [oc]\<rparr>"

text \<open>\<open>_issue\<close>; the left side is a target whose resolution raised.\<close>

definition issue ::
  "paths \<Rightarrow> string \<Rightarrow> string \<Rightarrow> approvals \<Rightarrow> ApprovalRequest \<Rightarrow> GrantScope \<Rightarrow> string \<Rightarrow>
     string + ApprovalOutcome \<times> approvals" where
  "issue ps new_id now s rq sc why =
     (case (sc, project_store s) of
        (PROJECT, Some F) \<Rightarrow>
          (case lasting_target ps rq of
             None \<Rightarrow> Inl ''path resolution failed''
           | Some tgt \<Rightarrow>
               (let (g, F') = pg_add new_id now F
                      (case rq_project_id rq of Some p \<Rightarrow> (if p \<noteq> [] then p else ''chats'') | None \<Rightarrow> ''chats'')
                      (rq_capability rq) (Some (rq_rule_id rq)) tgt (rq_description rq)
                in Inr (\<lparr>oc_granted = True, oc_grant = Some g, oc_reason = ''approved always here''\<rparr>,
                        s\<lparr>project_store := Some F'\<rparr>)))
      | _ \<Rightarrow>
          (let g = plain_grant rq sc (issued_target rq sc);
               s' = (case sc of
                       SESSION \<Rightarrow> s\<lparr>session_grants := session_grants s @ [g]\<rparr>
                     | PROJECT \<Rightarrow> s\<lparr>project_grants := project_grants s @ [g]\<rparr>
                     | PERSISTENT \<Rightarrow>
                         (case persistent_store s of
                            None \<Rightarrow> s
                          | Some d \<Rightarrow> s\<lparr>persistent_store := Some (dict_set
                              (optional_str (rq_session_id rq) @ '':'' @ optional_str (rq_target rq)) g d)\<rparr>)
                     | ONCE \<Rightarrow> s)
           in Inr (\<lparr>oc_granted = True, oc_grant = Some g, oc_reason = why\<rparr>, s')))"

definition save_setting :: "ApprovalRequest \<Rightarrow> ApprovalOutcome" where
  "save_setting rq =
     \<lparr>oc_granted = True, oc_grant = Some (plain_grant rq ONCE (rq_target rq)),
      oc_reason = (case rq_on_always rq of
                     RaisesOnSave e \<Rightarrow> ''approved once; saving the setting failed ('' @ e @ '')''
                   | _ \<Rightarrow> ''approved always (tool setting)'')\<rparr>"

definition recorded :: "string + ApprovalOutcome \<times> approvals \<Rightarrow> string + ApprovalOutcome \<times> approvals" where
  "recorded r = (case r of Inl e \<Rightarrow> Inl e | Inr (oc, s) \<Rightarrow> Inr (oc, record_outcome oc s))"

text \<open>\<open>check\<close>; \<open>answer\<close> is what the prompt returns, \<open>None\<close> when there is no prompt.\<close>

definition approval_check ::
  "paths \<Rightarrow> string \<Rightarrow> string \<Rightarrow> string option \<Rightarrow> approvals \<Rightarrow> ApprovalRequest \<Rightarrow>
     string + ApprovalOutcome \<times> approvals" where
  "approval_check ps new_id now answer s rq =
     (case (if rq_reusable rq then find_grant ps s rq else None) of
        Some g \<Rightarrow>
          (let oc = \<lparr>oc_granted = True, oc_grant = Some g, oc_reason = ''covered by existing grant''\<rparr>
           in Inr (oc, record_outcome oc s))
      | None \<Rightarrow>
          (let ans = lower (strip (case answer of Some a \<Rightarrow> a | None \<Rightarrow> ''n''));
               offers = (\<lambda>c. c \<in> set (rq_choices rq));
               wide_ok = (rq_binding_mode rq \<noteq> ''exact'');
               projects = [''p'', ''project'', ''always-project'']
           in if ans \<in> set [''y'', ''yes''] \<and> offers ''allow_once''
              then recorded (issue ps new_id now s rq ONCE ''approved once'')
              else if ans \<in> set [''s'', ''session'', ''always-session''] \<and> rq_reusable rq \<and>
                      offers ''allow_session''
              then recorded (issue ps new_id now s rq SESSION ''approved for session'')
              else if ans \<in> set projects \<and> rq_on_always rq \<noteq> NoSetting \<and> offers ''allow_project''
              then recorded (Inr (save_setting rq, s))
              else if ans \<in> set projects \<and> has_project rq \<and>
                      (offers ''allow_project'' \<or> wide_ok \<and> rq_reusable rq \<and> project_store s = None)
              then recorded (issue ps new_id now s rq PROJECT ''approved for project'')
              else if ans \<in> set [''a'', ''always'', ''persistent''] \<and>
                      (wide_ok \<or> offers ''allow_persistent'')
              then recorded (issue ps new_id now s rq PERSISTENT ''approved persistently'')
              else recorded (Inr (\<lparr>oc_granted = False, oc_grant = None,
                     oc_reason = ''denied (answer: '' @ (if ans \<noteq> [] then ans else ''no prompt'') @ '')''\<rparr>, s))))"

definition all_grants :: "approvals \<Rightarrow> ApprovalGrant list" where
  "all_grants s = session_grants s @ project_grants s @ stored_grants s"

section \<open>The persistent grant file\<close>

record stored_grant =
  sg_capability :: string
  sg_scope :: string
  sg_target :: "string option"
  sg_session_id :: "string option"
  sg_project_id :: "string option"
  sg_granted_at :: string

fun scope_value :: "GrantScope \<Rightarrow> string" where
  "scope_value ONCE = ''once''"
| "scope_value SESSION = ''session''"
| "scope_value PROJECT = ''project''"
| "scope_value PERSISTENT = ''persistent''"

definition scope_of_value :: "string \<Rightarrow> GrantScope option" where
  "scope_of_value v = find_first (\<lambda>sc. scope_value sc = v) [ONCE, SESSION, PROJECT, PERSISTENT]"

definition grants_save :: "(string \<times> ApprovalGrant) list \<Rightarrow> (string \<times> stored_grant) list" where
  "grants_save d =
     map (\<lambda>(k, g). (k, \<lparr>sg_capability = gt_capability g, sg_scope = scope_value (gt_scope g),
                        sg_target = gt_target g, sg_session_id = gt_session_id g,
                        sg_project_id = gt_project_id g, sg_granted_at = gt_granted_at g\<rparr>))
       (sort_key fst d)"

definition grant_from_dict :: "stored_grant \<Rightarrow> ApprovalGrant option" where
  "grant_from_dict v =
     (case scope_of_value (sg_scope v) of
        None \<Rightarrow> None
      | Some sc \<Rightarrow> Some \<lparr>gt_capability = sg_capability v, gt_scope = sc, gt_target = sg_target v,
                        gt_session_id = sg_session_id v, gt_project_id = sg_project_id v,
                        gt_granted_at = sg_granted_at v, gt_rule_id = None, gt_grant_id = None\<rparr>)"

definition grants_load :: "(string \<times> stored_grant) list \<Rightarrow> (string \<times> ApprovalGrant) list" where
  "grants_load f =
     concat (map (\<lambda>(k, v). case grant_from_dict v of None \<Rightarrow> [] | Some g \<Rightarrow> [(k, g)]) f)"

section \<open>Stored session grants\<close>

record grant_row =
  rw_session :: string
  rw_capability :: string
  rw_rule_id :: "string option"
  rw_target :: "string option"
  rw_project_id :: "string option"
  rw_granted_at :: string

text \<open>The table (rows in the order of their identifiers) and the lists the registry caches.\<close>

record grant_registry =
  grant_rows :: "grant_row list"
  cached :: "(string \<times> ApprovalGrant list) list"

definition row_grant :: "grant_row \<Rightarrow> ApprovalGrant" where
  "row_grant r =
     \<lparr>gt_capability = rw_capability r, gt_scope = SESSION, gt_target = rw_target r,
      gt_session_id = Some (rw_session r), gt_project_id = rw_project_id r,
      gt_granted_at = rw_granted_at r, gt_rule_id = rw_rule_id r, gt_grant_id = None\<rparr>"

definition load_session :: "grant_row list \<Rightarrow> string \<Rightarrow> ApprovalGrant list" where
  "load_session rows sid = map row_grant (filter (\<lambda>r. rw_session r = sid) rows)"

definition for_session :: "grant_registry \<Rightarrow> string \<Rightarrow> ApprovalGrant list \<times> grant_registry" where
  "for_session reg sid =
     (case dict_get (cached reg) sid of
        Some gs \<Rightarrow> (gs, reg)
      | None \<Rightarrow> (let gs = load_session (grant_rows reg) sid in
                 (gs, reg\<lparr>cached := dict_set sid gs (cached reg)\<rparr>)))"

definition forget_session :: "string \<Rightarrow> grant_registry \<Rightarrow> grant_registry" where
  "forget_session sid reg = reg\<lparr>cached := dict_pop sid (cached reg)\<rparr>"

text \<open>\<open>SessionGrants.append\<close> on the list of \<open>sid\<close>; \<open>stored\<close> says whether the insert succeeds.\<close>

definition session_append ::
  "bool \<Rightarrow> string \<Rightarrow> string \<Rightarrow> ApprovalGrant \<Rightarrow> grant_registry \<Rightarrow> grant_registry" where
  "session_append stored now sid g reg =
     (let (gs, reg') = for_session reg sid;
          reg'' = reg'\<lparr>cached := dict_set sid (gs @ [g]) (cached reg')\<rparr>
      in if gt_scope g \<noteq> SESSION \<or> gt_session_id g \<noteq> Some sid then reg''
         else if stored
         then reg''\<lparr>grant_rows := grant_rows reg'' @
                [\<lparr>rw_session = sid, rw_capability = gt_capability g, rw_rule_id = gt_rule_id g,
                  rw_target = gt_target g, rw_project_id = gt_project_id g,
                  rw_granted_at = (if gt_granted_at g \<noteq> [] then gt_granted_at g else now)\<rparr>]\<rparr>
         else reg'')"

section \<open>The project grant store as an interface\<close>

text \<open>
  What the engine relies on: \<open>grants_for\<close> lists grants of the asked scope only, a grant that was
  added is listed and leaves the other scopes alone, a revocation removes exactly the grants
  with that identifier.
\<close>

locale grant_store =
  fixes grants_for :: "'f \<Rightarrow> string \<Rightarrow> ApprovalGrant list"
    and add :: "string \<Rightarrow> string \<Rightarrow> 'f \<Rightarrow> string \<Rightarrow> string \<Rightarrow> string option \<Rightarrow> string option \<Rightarrow> string \<Rightarrow>
      ApprovalGrant \<times> 'f"
    and revoke :: "'f \<Rightarrow> string \<Rightarrow> bool \<times> 'f"
  assumes listed_scope: "g \<in> set (grants_for F key) \<Longrightarrow> gt_scope g = PROJECT \<and> gt_project_id g = Some key"
    and add_listed: "add nid now F key cap rl tgt desc = (g, F') \<Longrightarrow> nid \<noteq> [] \<Longrightarrow> cap \<noteq> [] \<Longrightarrow>
      g \<in> set (grants_for F' key) \<and> gt_capability g = cap \<and> gt_rule_id g = rl \<and> gt_target g = tgt"
    and add_others: "add nid now F key cap rl tgt desc = (g, F') \<Longrightarrow> key' \<noteq> key \<Longrightarrow>
      grants_for F' key' = grants_for F key'"
    and add_keeps: "add nid now F key cap rl tgt desc = (g, F') \<Longrightarrow>
      set (grants_for F key) \<subseteq> set (grants_for F' key)"
    and revoke_exact: "set (grants_for (snd (revoke F gid)) key) =
      {g \<in> set (grants_for F key). gt_grant_id g \<noteq> Some gid}"
begin

lemma revoke_after_add:
  assumes "add nid now F key cap rl tgt desc = (g, F')" and "gt_grant_id g = Some gid"
  shows "g \<notin> set (grants_for (snd (revoke F' gid)) key')"
  using assms revoke_exact by auto

lemma revoked_run:
  assumes "g \<in> set (grants_for (fold (\<lambda>gid F. snd (revoke F gid)) gids F) key)"
  shows "g \<in> set (grants_for F key) \<and> (\<forall>gid \<in> set gids. gt_grant_id g \<noteq> Some gid)"
  using assms
proof (induction gids arbitrary: F)
  case (Cons a gids)
  then have "g \<in> set (grants_for (snd (revoke F a)) key) \<and> (\<forall>gid \<in> set gids. gt_grant_id g \<noteq> Some gid)"
    by simp
  then show ?case by (simp add: revoke_exact)
qed simp

end

lemma pg_read_idem [simp]: "pg_read (pg_read F) = pg_read F"
  by (simp add: pg_read_def)

lemma pg_grants_read: "pg_grants_for F key =
    map pg_grant (filter (\<lambda>r. nonempty (pr_capability r) \<and> pr_scope r = Some key) (pg_read F))"
  by (simp add: pg_grants_for_def pg_list_def conj_commute)

interpretation project_file: grant_store pg_grants_for pg_add pg_revoke
proof
  fix F key g
  show "g \<in> set (pg_grants_for F key) \<Longrightarrow> gt_scope g = PROJECT \<and> gt_project_id g = Some key"
    by (auto simp: pg_grants_read pg_grant_def)
next
  fix nid now F key cap rl tgt desc g F'
  assume add: "pg_add nid now F key cap rl tgt desc = (g, F')"
  let ?p = "\<lambda>r. pr_scope r = Some key \<and> pr_capability r = Some cap \<and> pr_rule_id r = rl \<and> pr_target r = tgt"
  show "g \<in> set (pg_grants_for F' key) \<and> gt_capability g = cap \<and> gt_rule_id g = rl \<and> gt_target g = tgt"
    if "nid \<noteq> []" "cap \<noteq> []"
  proof (cases "find_first ?p (pg_read F)")
    case None
    define row where "row = \<lparr>pr_id = Some nid, pr_scope = Some key, pr_capability = Some cap,
      pr_rule_id = rl, pr_target = tgt, pr_description = take 300 desc, pr_granted_at = now\<rparr>"
    from None add that have "g = pg_grant row" "F' = pg_read F @ [row]"
      by (simp_all add: pg_add_def row_def pg_grant_def)
    moreover from that have "nonempty (pr_id row)" "nonempty (pr_capability row)" "pr_scope row = Some key"
      by (simp_all add: row_def nonempty_def)
    ultimately show ?thesis
      by (simp add: pg_grants_read pg_read_def) (simp add: pg_grant_def row_def)
  next
    case (Some r)
    then have "r \<in> set (pg_read F)" "?p r" by (auto dest: find_first_Some)
    with Some add that show ?thesis
      by (auto simp: pg_add_def pg_grants_read nonempty_def pg_grant_def image_iff intro!: bexI [of _ r])
  qed
  show "pg_grants_for F' key' = pg_grants_for F key'" if "key' \<noteq> key" for key'
    using add that
    by (auto simp: pg_add_def pg_grants_read pg_read_def Let_def split: option.splits)
  show "set (pg_grants_for F key) \<subseteq> set (pg_grants_for F' key)"
    using add by (auto simp: pg_add_def pg_grants_read pg_read_def Let_def split: option.splits)
next
  fix F gid key
  have "pg_read (snd (pg_revoke F gid)) = filter (\<lambda>r. pr_id r \<noteq> Some gid) (pg_read F)"
    by (auto simp: pg_revoke_def Let_def length_filter_all list_all_iff pg_read_def intro!: filter_cong)
  then show "set (pg_grants_for (snd (pg_revoke F gid)) key) =
      {g \<in> set (pg_grants_for F key). gt_grant_id g \<noteq> Some gid}"
    by (auto simp: pg_grants_read pg_grant_def)
qed

section \<open>What an existing grant covers\<close>

text \<open>The contract of a grant: capability, rule, target, and its session or project.\<close>

definition bound_to :: "paths \<Rightarrow> ApprovalGrant \<Rightarrow> ApprovalRequest \<Rightarrow> bool" where
  "bound_to ps g rq \<longleftrightarrow>
     gt_capability g = rq_capability rq \<and>
     (gt_rule_id g = None \<or> gt_rule_id g = Some (rq_rule_id rq)) \<and>
     (rq_binding_mode rq = ''exact'' \<longrightarrow> gt_target g \<noteq> None \<and> gt_target g = rq_target rq) \<and>
     (gt_target g = None \<or> gt_target g = rq_target rq \<or>
      (rq_capability rq = ''fs.write'' \<and>
       (\<exists>t d. rq_target rq = Some t \<and> gt_target g = Some d \<and> path_inside ps t d))) \<and>
     (gt_scope g = PROJECT \<longrightarrow> has_project rq \<and> gt_project_id g = rq_project_id rq) \<and>
     (gt_scope g = SESSION \<longrightarrow> gt_session_id g = rq_session_id rq) \<and> gt_scope g \<noteq> ONCE"

lemma grant_matches_bound:
  "grant_matches ps g rq \<Longrightarrow>
     (gt_scope g = PROJECT \<longrightarrow> has_project rq \<and> gt_project_id g = rq_project_id rq) \<Longrightarrow>
     (gt_scope g = SESSION \<longrightarrow> gt_session_id g = rq_session_id rq) \<Longrightarrow> gt_scope g \<noteq> ONCE \<Longrightarrow>
     bound_to ps g rq"
  unfolding grant_matches_def bound_to_def
  by (cases "rq_target rq"; cases "gt_target g") (auto split: if_splits)

lemma find_grant_cases:
  assumes "find_grant ps s rq = Some g"
  shows "g \<in> set (stored_grants s) \<and> eligible ps rq PERSISTENT g \<or>
    g \<in> set (project_candidates s rq) \<and> eligible ps rq PROJECT g \<or>
    g \<in> set (session_grants s) \<and> eligible ps rq SESSION g"
  using assms by (auto simp: find_grant_def split: option.splits dest: find_first_Some)

lemma find_grant_bound:
  assumes "find_grant ps s rq = Some g"
  shows "bound_to ps g rq"
proof -
  have project: "x \<in> set (project_candidates s rq) \<Longrightarrow> has_project rq" for x
    by (auto simp: project_candidates_def split: if_splits)
  have "eligible ps rq PERSISTENT g \<or> eligible ps rq PROJECT g \<and> has_project rq \<or>
      eligible ps rq SESSION g"
    using find_grant_cases [OF assms] project by blast
  then show ?thesis
    by (auto simp: eligible_def split: if_splits intro!: grant_matches_bound)
qed

section \<open>Answers and lasting grants\<close>

definition project_answers :: "string list" where
  "project_answers = [''p'', ''project'', ''always-project'']"

definition persistent_answers :: "string list" where
  "persistent_answers = [''a'', ''always'', ''persistent'']"

text \<open>The stores a later request can be covered from.\<close>

definition lasting :: "approvals \<Rightarrow> ApprovalGrant list \<times> ApprovalGrant list \<times>
    (string \<times> ApprovalGrant) list option \<times> project_row list option" where
  "lasting s = (session_grants s, project_grants s, persistent_store s, project_store s)"

lemma record_outcome_sel [simp]:
  "session_grants (record_outcome oc s) = session_grants s"
  "project_grants (record_outcome oc s) = project_grants s"
  "persistent_store (record_outcome oc s) = persistent_store s"
  "project_store (record_outcome oc s) = project_store s"
  "audit (record_outcome oc s) = audit s @ [oc]"
  by (simp_all add: record_outcome_def)

lemma find_grant_audit [simp]: "find_grant ps (record_outcome oc s) rq = find_grant ps s rq"
  by (simp add: find_grant_def stored_grants_def project_candidates_def cong: option.case_cong)

lemma stored_grants_project_store [simp]: "stored_grants (s\<lparr>project_store := F\<rparr>) = stored_grants s"
  by (simp add: stored_grants_def)

lemma recorded_simps [simp]:
  "recorded (Inr (oc, s)) = Inr (oc, record_outcome oc s)"
  "recorded (Inl e) = Inl e"
  by (simp_all add: recorded_def)

lemma issue_once [simp]:
  "issue ps nid now s rq ONCE why =
     Inr (\<lparr>oc_granted = True, oc_grant = Some (plain_grant rq ONCE (rq_target rq)), oc_reason = why\<rparr>, s)"
  by (simp add: issue_def issued_target_def)


text \<open>
  C16. A hard-list ask (\<open>reusable = False\<close>) answered with anything but a project or persistent
  answer changes no grant store and consults none: it is granted exactly when the owner said
  yes and once was offered.
\<close>

theorem hard_ask_leaves_no_grant:
  assumes "\<not> rq_reusable rq"
    and "lower (strip a) \<notin> set (project_answers @ persistent_answers)"
    and "approval_check ps nid now (Some a) s rq = Inr (oc, s')"
  shows "lasting s' = lasting s \<and>
    (oc_granted oc \<longleftrightarrow> lower (strip a) \<in> {''y'', ''yes''} \<and> ''allow_once'' \<in> set (rq_choices rq))"
  using assms
  by (auto simp: approval_check_def Let_def project_answers_def persistent_answers_def lasting_def
      split: if_splits)

definition lawful_paths :: "paths \<Rightarrow> bool" where
  "lawful_paths ps \<longleftrightarrow> (\<forall>t p. resolve_path ps t = Some p \<longrightarrow>
     resolve_path ps (path_str ps (butlast p)) = Some (butlast p))"

lemma lasting_target_matches:
  assumes "lawful_paths ps" and "lasting_target ps rq = Some tgt"
    and "rq_binding_mode rq = ''exact'' \<Longrightarrow> rq_target rq \<noteq> None"
    and "gt_capability g = rq_capability rq" and "gt_rule_id g = Some (rq_rule_id rq)" and "gt_target g = tgt"
  shows "grant_matches ps g rq"
proof -
  have prefix: "startswith p (butlast p)" for p :: "string list"
    by (metis append_butlast_last_id butlast.simps(1) startswith_append startswith_iff self_append_conv)
  show ?thesis
    using assms(1-5) prefix unfolding grant_matches_def assms(6)
    by (auto simp: lasting_target_def lawful_paths_def path_inside_def
        split: if_splits option.splits)
qed

lemma find_grant_listed:
  assumes "g \<in> set (project_candidates s rq)" and "eligible ps rq PROJECT g"
  shows "find_grant ps s rq \<noteq> None"
  using assms find_first_None [of "eligible ps rq PROJECT" "project_candidates s rq"]
  by (auto simp: find_grant_def split: option.splits)

text \<open>
  C21. Always in this project: with a project store, answering \<open>p\<close> to a request that offers
  the project choice makes the same request covered without a prompt from then on (whatever
  the answer would be), and leaves what covers a request of any other project unchanged.
\<close>

theorem always_in_this_project:
  assumes "rq_reusable rq" and "has_project rq" and "''allow_project'' \<in> set (rq_choices rq)"
    and "rq_on_always rq = NoSetting" and "rq_capability rq \<noteq> []" and "nid \<noteq> []" and "lawful_paths ps"
    and "rq_binding_mode rq = ''exact'' \<Longrightarrow> rq_target rq \<noteq> None"
    and "project_store s = Some F" and "find_grant ps s rq = None"
    and "approval_check ps nid now (Some ''p'') s rq = Inr (oc, s')"
  shows "oc_granted oc \<and>
    (\<exists>g. approval_check ps nid' now' a s' rq = Inr (\<lparr>oc_granted = True, oc_grant = Some g,
            oc_reason = ''covered by existing grant''\<rparr>,
          record_outcome \<lparr>oc_granted = True, oc_grant = Some g, oc_reason = ''covered by existing grant''\<rparr> s')) \<and>
    (rq_project_id rq' \<noteq> rq_project_id rq \<longrightarrow> find_grant ps s' rq' = find_grant ps s rq')"
proof -
  obtain p where p: "rq_project_id rq = Some p" "p \<noteq> []"
    using assms(2) by (auto simp: has_project_def split: option.splits)
  have "lower (strip ''p'') = ''p''" by code_simp
  with assms p have chk: "recorded (issue ps nid now s rq PROJECT ''approved for project'') = Inr (oc, s')"
    by (simp add: approval_check_def Let_def)
  then obtain tgt g F' where tgt: "lasting_target ps rq = Some tgt"
    and add: "pg_add nid now F p (rq_capability rq) (Some (rq_rule_id rq)) tgt (rq_description rq) = (g, F')"
    and oc: "oc_granted oc" and s': "s' = record_outcome oc (s\<lparr>project_store := Some F'\<rparr>)"
    using assms(9) p
    by (auto simp: issue_def Let_def split: option.splits prod.splits)
  note listed = project_file.add_listed [OF add assms(6,5)]
  have g: "gt_scope g = PROJECT" "gt_project_id g = Some p"
    using project_file.listed_scope listed by blast+
  have "grant_matches ps g rq"
    using lasting_target_matches [OF assms(7) tgt] assms(8) listed by blast
  then have "find_grant ps s' rq \<noteq> None"
    using g p listed assms(2)
    by (intro find_grant_listed [of g]) (simp_all add: s' project_candidates_def eligible_def)
  then obtain h where "find_grant ps s' rq = Some h" by blast
  then have "\<exists>g. approval_check ps nid' now' a s' rq = Inr (\<lparr>oc_granted = True, oc_grant = Some g,
            oc_reason = ''covered by existing grant''\<rparr>,
          record_outcome \<lparr>oc_granted = True, oc_grant = Some g, oc_reason = ''covered by existing grant''\<rparr> s')"
    using assms(1) by (simp add: approval_check_def Let_def)
  moreover have "find_grant ps s' rq' = find_grant ps s rq'" if "rq_project_id rq' \<noteq> rq_project_id rq"
  proof -
    have "project_candidates s' rq' = project_candidates s rq'"
      using that p project_file.add_others [OF add] assms(9)
      by (auto simp: s' project_candidates_def has_project_def split: option.splits)
    then show ?thesis
      by (simp add: find_grant_def s' stored_grants_def cong: option.case_cong)
  qed
  ultimately show ?thesis using oc by blast
qed

text \<open>
  C17. A revocation is immediate: once a grant of the project store is revoked, no request is
  covered by a grant with its identifier, and every other stored grant stays listed.
\<close>

theorem revoked_grant_never_covers:
  assumes "list_all (\<lambda>g. gt_grant_id g = None) (all_grants s)" and "project_store s = Some F"
    and "s' = s\<lparr>project_store := Some (snd (pg_revoke F gid))\<rparr>"
  shows "(find_grant ps s' rq = Some g \<longrightarrow> gt_grant_id g \<noteq> Some gid) \<and>
    set (pg_grants_for (snd (pg_revoke F gid)) key) =
      {h \<in> set (pg_grants_for F key). gt_grant_id h \<noteq> Some gid}"
proof -
  have "gt_grant_id g \<noteq> Some gid" if "find_grant ps s' rq = Some g"
    using find_grant_cases [OF that] assms project_file.revoke_exact [of F gid]
    by (auto simp: all_grants_def project_candidates_def list_all_iff split: if_splits)
  then show ?thesis using project_file.revoke_exact by blast
qed

section \<open>Session grants survive a restart\<close>

definition untimed :: "ApprovalGrant \<Rightarrow> ApprovalGrant" where
  "untimed g = g\<lparr>gt_granted_at := []\<rparr>"

text \<open>Every cached list is what its rows would give, up to the time stamp.\<close>

definition registry_ok :: "grant_registry \<Rightarrow> bool" where
  "registry_ok reg \<longleftrightarrow> (\<forall>sid gs. dict_get (cached reg) sid = Some gs \<longrightarrow>
     map untimed gs = map untimed (load_session (grant_rows reg) sid))"

datatype registry_op =
    AppendGrant string string ApprovalGrant
  | OpenSession string
  | ForgetSession string

fun registry_step :: "registry_op \<Rightarrow> grant_registry \<Rightarrow> grant_registry" where
  "registry_step (AppendGrant now sid g) reg = session_append True now sid g reg"
| "registry_step (OpenSession sid) reg = snd (for_session reg sid)"
| "registry_step (ForgetSession sid) reg = forget_session sid reg"

fun registry_op_ok :: "registry_op \<Rightarrow> bool" where
  "registry_op_ok (AppendGrant now sid g) =
     (gt_scope g = SESSION \<and> gt_session_id g = Some sid \<and> gt_grant_id g = None)"
| "registry_op_ok _ = True"

lemma for_session_ok:
  assumes "registry_ok reg"
  shows "registry_ok (snd (for_session reg sid))"
    and "map untimed (fst (for_session reg sid)) = map untimed (load_session (grant_rows reg) sid)"
    and "grant_rows (snd (for_session reg sid)) = grant_rows reg"
  using assms by (auto simp: for_session_def registry_ok_def Let_def split: option.splits)

lemma untimed_row:
  assumes "gt_scope g = SESSION" and "gt_session_id g = Some sid" and "gt_grant_id g = None"
  shows "untimed (row_grant \<lparr>rw_session = sid, rw_capability = gt_capability g, rw_rule_id = gt_rule_id g,
    rw_target = gt_target g, rw_project_id = gt_project_id g, rw_granted_at = x\<rparr>) = untimed g"
  using assms by (cases g) (simp add: row_grant_def untimed_def)

lemma session_append_ok:
  assumes "registry_ok reg" and "gt_scope g = SESSION" and "gt_session_id g = Some sid"
    and "gt_grant_id g = None"
  shows "registry_ok (session_append True now sid g reg)"
  using for_session_ok [OF assms(1), of sid] assms
  by (auto simp: session_append_def Let_def registry_ok_def load_session_def untimed_row
      split: prod.splits)

lemma forget_session_ok: "registry_ok reg \<Longrightarrow> registry_ok (forget_session sid reg)"
  by (simp add: registry_ok_def forget_session_def)

interpretation session_rows: invariant_steps registry_step registry_op_ok registry_ok
proof
  fix reg x
  assume "registry_ok reg" "registry_op_ok x"
  then show "registry_ok (registry_step x reg)"
    by (cases x) (simp_all add: session_append_ok for_session_ok forget_session_ok)
qed

text \<open>
  C24. Grants given in a conversation survive a restart: after any run of appends (of that
  conversation's session grants, stored), openings and drops, what a fresh read of the rows
  gives is the cached list, up to the time stamps.
\<close>

theorem session_grants_survive_restart:
  assumes "list_all registry_op_ok xs"
  shows "let reg = fold registry_step xs \<lparr>grant_rows = [], cached = []\<rparr> in
    map untimed (fst (for_session (forget_session sid reg) sid)) = map untimed (fst (for_session reg sid))"
proof -
  let ?reg = "fold registry_step xs \<lparr>grant_rows = [], cached = []\<rparr>"
  have ok: "registry_ok ?reg"
    by (rule session_rows.run_inv [OF _ assms]) (simp add: registry_ok_def)
  have "fst (for_session (forget_session sid ?reg) sid) = load_session (grant_rows ?reg) sid"
    by (simp add: for_session_def forget_session_def Let_def)
  then show ?thesis using for_session_ok(2) [OF ok, of sid] by (simp add: Let_def)
qed

section \<open>Concrete runs\<close>

definition sample_paths :: paths where
  "sample_paths = \<lparr>resolve_path = (\<lambda>p. Some (filter (\<lambda>x. x \<noteq> []) (split_on (CHR ''/'') p))),
     path_str = (\<lambda>ps. concat (map (\<lambda>x. CHR ''/'' # x) ps))\<rparr>"

definition sample_request :: "string \<Rightarrow> bool \<Rightarrow> ApprovalRequest" where
  "sample_request rl reusable =
     \<lparr>rq_capability = ''fs.write'', rq_description = ''write'', rq_target = Some ''/etc/x'',
      rq_session_id = Some ''s1'', rq_project_id = Some ''p1'', rq_rule_id = rl,
      rq_reusable = reusable, rq_choices = [''deny'', ''allow_once'', ''allow_project''],
      rq_binding_mode = ''capability'', rq_on_always = NoSetting\<rparr>"

definition fresh_engine :: approvals where
  "fresh_engine = \<lparr>session_grants = [], project_grants = [], persistent_store = Some [],
     project_store = Some [], audit = []\<rparr>"

definition granted_in :: "string + ApprovalOutcome \<times> approvals \<Rightarrow> bool" where
  "granted_in r = (case r of Inl _ \<Rightarrow> False | Inr (oc, _) \<Rightarrow> oc_granted oc)"

definition state_after :: "approvals \<Rightarrow> string + ApprovalOutcome \<times> approvals \<Rightarrow> approvals" where
  "state_after s r = (case r of Inl _ \<Rightarrow> s | Inr (_, s') \<Rightarrow> s')"

definition restart :: "approvals \<Rightarrow> approvals" where
  "restart s = s\<lparr>persistent_store := map_option (\<lambda>d. grants_load (grants_save d)) (persistent_store s)\<rparr>"

text \<open>
  C25. A hard-list ask answered \<open>a\<close> does create a lasting grant, and the grant file drops its
  rule: after the file is read back, the grant covers an ask of another rule with the same
  capability and target that it did not cover before.
\<close>

theorem persisted_grant_loses_its_rule:
  "let hard = sample_request ''hard.delete'' False; other = sample_request ''fs.outside'' True;
       s1 = state_after fresh_engine (approval_check sample_paths ''g1'' ''now'' (Some ''a'') fresh_engine hard)
   in length (stored_grants s1) = 1 \<and>
      \<not> granted_in (approval_check sample_paths ''g2'' ''now'' None s1 other) \<and>
      granted_in (approval_check sample_paths ''g2'' ''now'' None (restart s1) other)"
  by code_simp

lemma split_on_slashes:
  assumes "\<forall>x \<in> set ps. x \<noteq> [] \<and> CHR ''/'' \<notin> set x"
  shows "filter (\<lambda>x. x \<noteq> []) (split_on (CHR ''/'') (concat (map (\<lambda>x. CHR ''/'' # x) ps))) = ps"
  using assms
proof (induction ps)
  case (Cons x ps)
  show ?case
  proof (cases ps)
    case Nil
    with Cons.prems show ?thesis by (simp add: split_on_plain)
  next
    case (Cons y ys)
    then obtain r where r: "concat (map (\<lambda>x. CHR ''/'' # x) ps) = CHR ''/'' # r" by simp
    with Cons.IH Cons.prems show ?thesis by (simp add: split_on_append_sep)
  qed
qed simp

lemma sample_paths_lawful: "lawful_paths sample_paths"
proof -
  have parts: "\<forall>x \<in> set (butlast (filter (\<lambda>x. x \<noteq> []) (split_on (CHR ''/'') t))). x \<noteq> [] \<and> CHR ''/'' \<notin> set x" for t
    by (auto dest!: in_set_butlastD split_on_no_sep)
  show ?thesis
    unfolding lawful_paths_def
  proof (intro allI impI)
    fix t p
    assume "resolve_path sample_paths t = Some p"
    then have "p = filter (\<lambda>x. x \<noteq> []) (split_on (CHR ''/'') t)" by (simp add: sample_paths_def)
    then show "resolve_path sample_paths (path_str sample_paths (butlast p)) = Some (butlast p)"
      using split_on_slashes [OF parts [of t]] by (simp add: sample_paths_def)
  qed
qed

definition sample_always :: "string + ApprovalOutcome \<times> approvals" where
  "sample_always =
     approval_check sample_paths ''g1'' ''now'' (Some ''p'') fresh_engine (sample_request ''fs.outside'' True)"

theorem always_in_this_project_witness:
  "\<exists>oc s'. sample_always = Inr (oc, s') \<and> oc_granted oc \<and>
     (\<exists>s''. approval_check sample_paths ''g2'' ''then'' (Some ''n'') s' (sample_request ''fs.outside'' True) = Inr s'')"
proof -
  let ?rq = "sample_request ''fs.outside'' True"
  have "granted_in sample_always" by code_simp
  then obtain oc s' where eq: "sample_always = Inr (oc, s')"
    by (auto simp: granted_in_def split: sum.splits)
  have hyps: "rq_reusable ?rq" "has_project ?rq" "''allow_project'' \<in> set (rq_choices ?rq)"
    "rq_on_always ?rq = NoSetting" "rq_capability ?rq \<noteq> []" "''g1'' \<noteq> []"
    "find_grant sample_paths fresh_engine ?rq = None"
    by code_simp+
  have exact: "rq_target ?rq \<noteq> None" and store: "project_store fresh_engine = Some []"
    by (simp_all add: sample_request_def fresh_engine_def)
  show ?thesis
    using always_in_this_project [OF hyps(1-6) sample_paths_lawful exact store hyps(7)
        eq [unfolded sample_always_def], of "''g2''" "''then''" "Some ''n''" ?rq] eq
    by blast
qed


theorem hard_ask_leaves_no_grant_witness:
  "granted_in (approval_check sample_paths ''g2'' ''now'' (Some '' Y '') fresh_engine (sample_request ''hard'' False))"
proof -
  let ?rq = "sample_request ''hard'' False"
  let ?r = "approval_check sample_paths ''g2'' ''now'' (Some '' Y '') fresh_engine ?rq"
  have hyps: "\<not> rq_reusable ?rq" "lower (strip '' Y '') \<notin> set (project_answers @ persistent_answers)" "\<not> isl ?r"
    "lower (strip '' Y '') = ''y''" "''allow_once'' \<in> set (rq_choices ?rq)"
    by code_simp+
  then obtain oc s' where "?r = Inr (oc, s')" by (cases ?r) auto
  with hard_ask_leaves_no_grant [OF hyps(1,2) this] hyps(4,5) show ?thesis
    by (simp add: granted_in_def)
qed

theorem revoked_grant_never_covers_witness:
  "find_grant sample_paths (fresh_engine\<lparr>project_store := Some []\<rparr>) (sample_request ''fs.outside'' True) = None \<and>
   set (pg_grants_for (snd (pg_revoke [\<lparr>pr_id = Some ''g1'', pr_scope = Some ''p1'', pr_capability = Some ''fs.write'',
     pr_rule_id = Some ''fs.outside'', pr_target = None, pr_description = [], pr_granted_at = []\<rparr>] ''g1'')) ''p1'') = {}"
proof -
  let ?F = "[\<lparr>pr_id = Some ''g1'', pr_scope = Some ''p1'', pr_capability = Some ''fs.write'',
     pr_rule_id = Some ''fs.outside'', pr_target = None, pr_description = [], pr_granted_at = []\<rparr>]"
  have "list_all (\<lambda>g. gt_grant_id g = None) (all_grants (fresh_engine\<lparr>project_store := Some ?F\<rparr>))"
    by code_simp
  from revoked_grant_never_covers [OF this _ refl, where F = ?F and gid = "''g1''" and key = "''p1''"]
  have "set (pg_grants_for (snd (pg_revoke ?F ''g1'')) ''p1'') =
      {h \<in> set (pg_grants_for ?F ''p1''). gt_grant_id h \<noteq> Some ''g1''}"
    by simp
  moreover have none: "list_all p xs \<Longrightarrow> {h \<in> set xs. \<not> p h} = {}" for p :: "ApprovalGrant \<Rightarrow> bool" and xs
    by (auto simp: list_all_iff)
  have "list_all (\<lambda>h. gt_grant_id h = Some ''g1'') (pg_grants_for ?F ''p1'')" by code_simp
  note none [OF this]
  moreover have "find_grant sample_paths (fresh_engine\<lparr>project_store := Some []\<rparr>) (sample_request ''fs.outside'' True) = None"
    by code_simp
  ultimately show ?thesis by (simp only: simp_thms)
qed

theorem session_grants_survive_restart_witness:
  "map untimed (load_session (grant_rows (registry_step (AppendGrant ''now'' ''s1''
      (plain_grant (sample_request ''fs.outside'' True) SESSION None)) \<lparr>grant_rows = [], cached = []\<rparr>)) ''s1'') =
   [untimed (plain_grant (sample_request ''fs.outside'' True) SESSION None)]"
proof -
  let ?op = "AppendGrant ''now'' ''s1'' (plain_grant (sample_request ''fs.outside'' True) SESSION None)"
  have "list_all registry_op_ok [?op]" by code_simp
  from session_grants_survive_restart [OF this, of "''s1''"] show ?thesis
    by (simp add: session_append_def for_session_def forget_session_def load_session_def Let_def)
qed

end
