(* ===== verification/Tool_Authorization.thy ===== *)
theory Tool_Authorization
  imports Policy_Engine Approvals
begin

text \<open>
  From a tool call to the permission to run it (\<^verbatim>\<open>src/src/rinari/tools/runtime.py\<close>, \<open>_authorize\<close> and
  \<open>_request_approval\<close>; \<open>ClassifiedAction\<close> and \<open>TurnState\<close> of \<^verbatim>\<open>tools/definition.py\<close>): each action the
  tool declares is judged by the policy, an ask goes to the approvals, a granted read or write widens
  the sandbox of this one call, and what was read from outside marks the turn.

  A tool's schema check and \<open>classify_actions\<close> come before; the model starts with the actions. The
  owner's answer, fresh identifiers and the clock are functions of the state of the approvals, whose
  audit grows with every answer, so they may differ each time. Events, the deadline and the handler
  itself are left out; whether the handler is reached is what the model says.
\<close>

section \<open>Actions and the turn\<close>

record ClassifiedAction =
  ca_capability :: string
  ca_target :: "string option"
  ca_mode :: "string option"
  ca_cwd :: "string option"
  ca_cost_basis :: "string option"
  ca_mcp :: "McpToolFacts option"

definition fs_path :: "ClassifiedAction \<Rightarrow> string option" where
  "fs_path a = (if startswith (ca_capability a) ''fs.'' then ca_target a else None)"

definition command_of :: "ClassifiedAction \<Rightarrow> string option" where
  "command_of a = (if ca_capability a = ''shell.exec'' then ca_target a else None)"

record TurnState =
  ts_external_content :: bool
  ts_sources :: "string list"
  ts_origins :: "string list"

definition fresh_turn :: TurnState where
  "fresh_turn = \<lparr>ts_external_content = False, ts_sources = [], ts_origins = []\<rparr>"

text \<open>\<open>origins\<close> is a set: an origin seen before is not added again.\<close>

definition mark_external :: "string \<Rightarrow> string option \<Rightarrow> TurnState \<Rightarrow> TurnState" where
  "mark_external source origin ts =
     (let o1 = (case origin of Some x \<Rightarrow> x | None \<Rightarrow> []);
          seen = (if o1 \<noteq> [] then o1 else if source \<noteq> [] then source else ''unknown'')
      in \<lparr>ts_external_content = True,
          ts_sources = (if source \<noteq> [] \<and> source \<notin> set (ts_sources ts) \<and> length (ts_sources ts) < 20
                        then ts_sources ts @ [source] else ts_sources ts),
          ts_origins = (if seen \<in> set (ts_origins ts) then ts_origins ts else ts_origins ts @ [seen])\<rparr>)"

section \<open>The context of a call\<close>

record tool_context =
  tc_session_id :: string
  tc_kind :: string
  tc_cwd :: ppath
  tc_project_root :: "ppath option"
  tc_user_home :: "ppath option"
  tc_profile :: PermissionProfile
  tc_sandbox :: FilesystemSandbox
  tc_worktree :: "(ppath \<Rightarrow> string option) option"
  tc_private_roots :: "ppath list"
  tc_ask_new_destinations :: bool
  tc_extra_project_roots :: "ppath list"
  tc_engine_home :: "ppath option"
  tc_engine_home_open :: "ppath list"
  tc_engine_home_readable :: "ppath list"
  tc_origin_kind :: string
  tc_channel_host :: bool
  tc_saves_tool_setting :: on_always

record called_tool =
  ct_name :: string
  ct_risk :: string
  ct_side_effects :: string
  ct_server :: "string option"

definition LOOSE_CHATS :: string where "LOOSE_CHATS = ''chats''"

definition PEER_ORIGIN_DENIED_CAPABILITIES :: "string list" where
  "PEER_ORIGIN_DENIED_CAPABILITIES =
     [''fs.write'', ''shell.exec'', ''process.local'', ''browser.mutate'', ''network.outbound'', ''mcp.call'',
      ''state.write'', ''agent.delegate'', ''git.local'']"

definition PEER_ORIGIN_DENIED_TOOLS :: "string list" where
  "PEER_ORIGIN_DENIED_TOOLS = [''agent.spawn'', ''agent.message'', ''agent.synthesize'', ''followup.suggest'']"

definition grant_scope_key :: "policy_env \<Rightarrow> tool_context \<Rightarrow> string" where
  "grant_scope_key env c =
     (case tc_project_root c of
        Some r \<Rightarrow> if tc_kind c = ''PROJECT'' then str_path (folder (pe_os env) r) else LOOSE_CHATS
      | None \<Rightarrow> LOOSE_CHATS)"

definition scope_from_context :: "tool_context \<Rightarrow> TurnState \<Rightarrow> SessionScope" where
  "scope_from_context c ts =
     \<lparr>sc_kind = tc_kind c, sc_root = (if tc_kind c = ''PROJECT'' then tc_project_root c else Some (tc_cwd c)),
      sc_cwd = tc_cwd c, profile = tc_profile c, user_home = tc_user_home c, worktree = tc_worktree c,
      private_roots = tc_private_roots c, external_content = ts_external_content ts,
      ask_new_destinations = tc_ask_new_destinations c, external_origins = ts_origins ts, command_cwd = None,
      extra_roots = tc_extra_project_roots c, engine_home = tc_engine_home c,
      engine_home_open = tc_engine_home_open c, engine_home_readable = tc_engine_home_readable c\<rparr>"

text \<open>The scope of one action; a working folder that does not resolve is left to the tool to report.\<close>

definition action_scope :: "policy_env \<Rightarrow> tool_context \<Rightarrow> TurnState \<Rightarrow> ClassifiedAction \<Rightarrow> SessionScope" where
  "action_scope env c ts a =
     (let sc = scope_from_context c ts in
      case ca_cwd a of
        None \<Rightarrow> sc
      | Some w \<Rightarrow>
          if w = [] then sc
          else (case sandbox_resolve (pe_os env) w (Some (tc_cwd c)) of
                  Inl e \<Rightarrow> sc
                | Inr p \<Rightarrow> sc\<lparr>command_cwd := Some p\<rparr>))"

definition action_request_of :: "called_tool \<Rightarrow> ClassifiedAction \<Rightarrow> action_request" where
  "action_request_of t a =
     \<lparr>aq_path = fs_path a, aq_command = command_of a,
      aq_host = (if ca_capability a = CAPABILITY_NETWORK then ca_target a else None),
      aq_risk = ct_risk t, aq_risk_class = ct_side_effects t,
      aq_target = (if ca_capability a = ''media.generate'' \<or> ca_capability a = ''browser.mutate'' then ca_target a else None),
      aq_network_mode = (case ca_mode a of Some m \<Rightarrow> (if m = [] then ''read'' else m) | None \<Rightarrow> ''read''),
      aq_cost_basis = ca_cost_basis a, aq_mcp = ca_mcp a\<rparr>"

section \<open>Asking the owner\<close>

definition LASTING_TOOL_RULES :: "string list" where
  "LASTING_TOOL_RULES = [''mcp_tool_ask'', ''mcp_destructive'']"

definition save_tool_allow :: "tool_context \<Rightarrow> ClassifiedAction \<Rightarrow> PolicyDecision \<Rightarrow> on_always" where
  "save_tool_allow c a d =
     (if ca_mcp a = None \<or> pd_rule_id d \<notin> set LASTING_TOOL_RULES then NoSetting else tc_saves_tool_setting c)"

definition approval_request :: "policy_env \<Rightarrow> called_tool \<Rightarrow> tool_context \<Rightarrow> ClassifiedAction \<Rightarrow> PolicyDecision \<Rightarrow> ApprovalRequest" where
  "approval_request env t c a d =
     (let key = grant_scope_key env c; setting = save_tool_allow c a d in
      \<lparr>rq_capability = pd_capability d, rq_description = ct_name t @ '': '' @ pd_reason d, rq_target = pd_target d,
       rq_session_id = Some (tc_session_id c), rq_project_id = Some key, rq_rule_id = pd_rule_id d,
       rq_reusable = pd_reusable d,
       rq_choices = (if key \<noteq> LOOSE_CHATS \<or> setting \<noteq> NoSetting then pd_choices d
                     else filter (\<lambda>x. x \<noteq> ''allow_project'') (pd_choices d)),
       rq_binding_mode = pd_binding_mode d, rq_on_always = setting\<rparr>)"

text \<open>The sandbox of a call whose action was granted.\<close>

definition parent_path :: "ppath \<Rightarrow> ppath" where
  "parent_path p = PPath (anchor p) (butlast (tail p))"

definition widen_sandbox ::
  "policy_env \<Rightarrow> called_tool \<Rightarrow> PolicyDecision \<Rightarrow> FilesystemSandbox \<Rightarrow> FilesystemSandbox" where
  "widen_sandbox env t d sb =
     (case pd_target d of
        None \<Rightarrow> sb
      | Some x \<Rightarrow>
          if x = [] then sb
          else if pd_capability d = ''fs.read'' \<and> ct_side_effects t = ''none''
          then new_sandbox (pe_os env) (sb_read_root sb) (sb_write_roots sb) (sb_unrestricted sb)
                 (approved_read_roots sb @ [folder (pe_os env) (path_of x)]) (unrestricted_reads sb)
          else if pd_capability d = ''fs.write'' \<and> is_absolute (path_of x) \<and>
                  \<not> list_ex (\<lambda>r. at_or_under r (path_of x)) (sb_write_roots sb)
          then new_sandbox (pe_os env) (sb_read_root sb) (sb_write_roots sb @ [parent_path (path_of x)])
                 (sb_unrestricted sb) (approved_read_roots sb @ [path_of x]) (unrestricted_reads sb)
          else sb)"

section \<open>Authorising a call\<close>

datatype auth_error =
  PolicyDenied string | ApprovalDenied string | NoChannelBinding | Rejected string
  | DecisionRaised policy_error | ApprovalRaised string

record owner =
  prompt :: "approvals \<Rightarrow> ApprovalRequest \<Rightarrow> string option"
  fresh_id :: "approvals \<Rightarrow> string"
  clock :: "approvals \<Rightarrow> string"

text \<open>The loop over the actions: the reasons the owner approved, the sandbox and the approvals behind it.\<close>

fun authorize_actions ::
  "policy_env \<Rightarrow> NetworkPolicy \<Rightarrow> paths \<Rightarrow> owner \<Rightarrow> called_tool \<Rightarrow> tool_context \<Rightarrow> TurnState \<Rightarrow>
     ClassifiedAction list \<Rightarrow> approvals \<Rightarrow> FilesystemSandbox \<Rightarrow> string list \<Rightarrow>
     (auth_error + string list \<times> FilesystemSandbox) \<times> approvals" where
  "authorize_actions env np ps ow t c ts [] s sb approved = (Inr (approved, sb), s)"
| "authorize_actions env np ps ow t c ts (a # as) s sb approved =
     (if startswith (ct_name t) ''channel.'' \<and> \<not> tc_channel_host c then (Inl NoChannelBinding, s)
      else
        (case decide env np (ca_capability a) (action_scope env c ts a) (action_request_of t a) of
           Inl e \<Rightarrow> (Inl (DecisionRaised e), s)
         | Inr d \<Rightarrow>
             (case pd_action d of
                DENY \<Rightarrow> (Inl (PolicyDenied (pd_reason d)), s)
              | ALLOW \<Rightarrow> authorize_actions env np ps ow t c ts as s sb approved
              | ASK \<Rightarrow>
                  (let rq = approval_request env t c a d in
                   case approval_check ps (fresh_id ow s) (clock ow s) (prompt ow s rq) s rq of
                     Inl e \<Rightarrow> (Inl (ApprovalRaised e), s)
                   | Inr (oc, s') \<Rightarrow>
                       if \<not> oc_granted oc then (Inl (ApprovalDenied (pd_reason d)), s')
                       else authorize_actions env np ps ow t c ts as s' (widen_sandbox env t d sb)
                              (approved @ [pd_reason d])))))"

definition authorize ::
  "policy_env \<Rightarrow> NetworkPolicy \<Rightarrow> paths \<Rightarrow> owner \<Rightarrow> (called_tool \<Rightarrow> string option) \<Rightarrow> called_tool \<Rightarrow> tool_context \<Rightarrow>
     TurnState \<Rightarrow> ClassifiedAction list \<Rightarrow> approvals \<Rightarrow> (auth_error + string list \<times> FilesystemSandbox) \<times> approvals" where
  "authorize env np ps ow precheck t c ts as s =
     (if tc_origin_kind c = ''peer'' \<and> ct_name t \<in> set PEER_ORIGIN_DENIED_TOOLS
      then (Inl (PolicyDenied ''a turn started by another agent's message cannot delegate work''), s)
      else
        (case (if tc_origin_kind c = ''peer''
               then find_first (\<lambda>k. k \<in> set PEER_ORIGIN_DENIED_CAPABILITIES) (map ca_capability as) else None) of
           Some k \<Rightarrow> (Inl (PolicyDenied (k @ '' is not available in a turn started by another agent's message'')), s)
         | None \<Rightarrow>
             (case precheck t of
                Some e \<Rightarrow> (Inl (Rejected e), s)
              | None \<Rightarrow> authorize_actions env np ps ow t c ts as s (tc_sandbox c) [])))"

section \<open>What a call leaves behind\<close>

text \<open>The sources an executed call marks the turn with; an MCP call without facts names its target or server.\<close>

definition external_source :: "policy_env \<Rightarrow> NetworkPolicy \<Rightarrow> called_tool \<Rightarrow> ClassifiedAction \<Rightarrow> (string \<times> string) option" where
  "external_source env np t a =
     (if ca_capability a = CAPABILITY_MCP_READ \<or> ca_capability a = CAPABILITY_MCP_WRITE
      then
        (let server = (case ca_mcp a of
                         Some f \<Rightarrow> mf_server f
                       | None \<Rightarrow> (let x = or_empty (ca_target a); y = or_empty (ct_server t) in
                                 if x \<noteq> [] then x else if y \<noteq> [] then y else ''*''))
         in Some (''mcp:'' @ ct_name t, mcp_origin server))
      else if ca_capability a = CAPABILITY_NETWORK
      then
        (case normalize_host (np_ip_ok np) (or_empty (ca_target a)) of
           Inr (Some h) \<Rightarrow> if h \<noteq> [] \<and> \<not> is_local_host (ip_address env) (Some h) then Some (h, h) else None
         | _ \<Rightarrow> None)
      else None)"

definition mark_sources :: "policy_env \<Rightarrow> NetworkPolicy \<Rightarrow> called_tool \<Rightarrow> ClassifiedAction list \<Rightarrow> TurnState \<Rightarrow> TurnState" where
  "mark_sources env np t as ts =
     fold (\<lambda>a ts. case external_source env np t a of
                    None \<Rightarrow> ts | Some (source, origin) \<Rightarrow> mark_external source (Some origin) ts) as ts"

text \<open>One call of a turn: when it is authorised its handler runs (successfully or not) and the turn is marked.\<close>

definition call_step ::
  "policy_env \<Rightarrow> NetworkPolicy \<Rightarrow> paths \<Rightarrow> owner \<Rightarrow> (called_tool \<Rightarrow> string option) \<Rightarrow> tool_context \<Rightarrow>
     called_tool \<times> ClassifiedAction list \<Rightarrow> TurnState \<times> approvals \<Rightarrow> TurnState \<times> approvals" where
  "call_step env np ps ow precheck c call st =
     (case authorize env np ps ow precheck (fst call) c (fst st) (snd call) (snd st) of
        (Inl e, s') \<Rightarrow> (fst st, s')
      | (Inr r, s') \<Rightarrow> (mark_sources env np (fst call) (snd call) (fst st), s'))"

lemma authorize_actions_granted:
  assumes "authorize_actions env np ps ow t c ts as s sb approved = (Inr (done, sb'), s')"
  shows "list_all (\<lambda>a. \<exists>d. decide env np (ca_capability a) (action_scope env c ts a) (action_request_of t a) = Inr d \<and>
      (pd_action d = ALLOW \<or>
       pd_action d = ASK \<and> pd_reason d \<in> set done \<and>
       (\<exists>s0 oc s1. approval_check ps (fresh_id ow s0) (clock ow s0) (prompt ow s0 (approval_request env t c a d)) s0
          (approval_request env t c a d) = Inr (oc, s1) \<and> oc_granted oc))) as \<and> set approved \<subseteq> set done"
  using assms
proof (induction as arbitrary: s sb approved)
  case (Cons a as)
  obtain d where d: "decide env np (ca_capability a) (action_scope env c ts a) (action_request_of t a) = Inr d"
    using Cons.prems by (auto split: if_splits sum.splits)
  show ?case
  proof (cases "pd_action d")
    case ALLOW
    with Cons d show ?thesis by (simp split: if_splits)
  next
    case ASK
    let ?rq = "approval_request env t c a d"
    obtain oc s1 where chk: "approval_check ps (fresh_id ow s) (clock ow s) (prompt ow s ?rq) s ?rq = Inr (oc, s1)" "oc_granted oc"
      and rest: "authorize_actions env np ps ow t c ts as s1 (widen_sandbox env t d sb) (approved @ [pd_reason d]) = (Inr (done, sb'), s')"
      using Cons.prems d ASK by (auto simp: Let_def split: if_splits sum.splits)
    from Cons.IH [OF rest] ASK d chk show ?thesis by auto
  next
    case DENY
    with Cons.prems d show ?thesis by (simp split: if_splits)
  qed
qed simp


lemma mark_external_on: "ts_external_content (mark_external source origin ts)"
  by (simp add: mark_external_def Let_def)

lemma mark_sources_mono: "ts_external_content ts \<Longrightarrow> ts_external_content (mark_sources env np t as ts)"
  unfolding mark_sources_def
  by (induction as arbitrary: ts) (auto simp: mark_external_on split: option.split)

lemma mark_sources_on:
  "a \<in> set as \<Longrightarrow> external_source env np t a \<noteq> None \<Longrightarrow> ts_external_content (mark_sources env np t as ts)"
proof (induction as arbitrary: ts)
  case (Cons b as)
  show ?case
  proof (cases "a = b")
    case True
    with Cons.prems mark_sources_mono [of "case external_source env np t b of None \<Rightarrow> ts | Some (so, orig) \<Rightarrow> mark_external so (Some orig) ts"]
    show ?thesis by (auto simp: mark_sources_def mark_external_on)
  next
    case False
    with Cons show ?thesis by (simp add: mark_sources_def)
  qed
qed simp

lemma call_step_mono: "ts_external_content (fst st) \<Longrightarrow> ts_external_content (fst (call_step env np ps ow precheck c call st))"
  by (auto simp: call_step_def mark_sources_mono split: prod.split sum.split)

interpretation turn_calls: invariant_steps "call_step env np ps ow precheck c" "\<lambda>_. True" "\<lambda>st. ts_external_content (fst st)"
  for env np ps ow precheck c
  by unfold_locales (rule call_step_mono)

lemma external_send_not_allowed:
  assumes "profile sc = WORKSPACE" and "external_content sc" and "aq_network_mode q = ''send''"
    and "normalize_host (np_ip_ok np) (or_empty (aq_host q)) = Inr (Some h)"
    and "\<not> is_local_host (ip_address env) (Some h)"
  shows "\<not> allows (decide env np CAPABILITY_NETWORK sc q)"
proof
  assume "allows (decide env np CAPABILITY_NETWORK sc q)"
  then obtain d where d: "decide env np CAPABILITY_NETWORK sc q = Inr d" "pd_action d = ALLOW" by (auto simp: allows_iff)
  then have "network_decision env np sc q = Inr d"
    using decide_past_guard [OF d(1)] by (simp add: decide_rest_def)
  then obtain net where n: "network_decide (np_ip_ok np) (np_mode np) (np_rules np) (or_empty (aq_host q)) = Inr net"
    and v: "pd_action d = network_verdict env np sc q net" by (rule network_decision_net)
  have "nd_host net = Some h" using network_decide_host [OF n] assms(4) by simp
  with v d(2) assms show False by (simp add: network_verdict_def Let_def split: if_splits)
qed


text \<open>
  C0. A call on the list that is always asked about leaves no grant behind: where the decision offers only
  "deny" and "allow once", any answer but an explicit word for a lasting grant keeps the lasting state of the
  approvals, and only a yes grants the call.
\<close>

theorem hard_list_leaves_nothing:
  assumes "decide env np cap sc q = Inr d" and "pd_action d = ASK" and "pd_choices d = [''deny'', ''allow_once'']"
    and "lower (strip ans) \<notin> set persistent_answers"
    and "approval_check ps i now (Some ans) s (approval_request env t c a d) = Inr (oc, s')"
  shows "lasting s' = lasting s \<and> (oc_granted oc \<longleftrightarrow> lower (strip ans) \<in> {''y'', ''yes''})"
proof -
  let ?rq = "approval_request env t c a d"
  have rq: "\<not> rq_reusable ?rq" "rq_choices ?rq = [''deny'', ''allow_once'']"
    using decide_ask_form [OF assms(1,2)] assms(3) by (simp_all add: approval_request_def Let_def CHOICES_HARD_def)
  then show ?thesis
    using assms(4,5)
    by (auto simp: approval_check_def Let_def persistent_answers_def lasting_def split: if_splits)
qed

lemma new_sandbox_simps [simp]:
  "sb_write_roots (new_sandbox os rr wr un ap ur) = map (folder os) wr"
  "sb_unrestricted (new_sandbox os rr wr un ap ur) = un"
  by (simp_all add: new_sandbox_def)

lemma widen_sandbox_roots:
  assumes "r \<in> set (sb_write_roots (widen_sandbox env t d sb))" and "\<And>p. folder (pe_os env) (folder (pe_os env) p) = folder (pe_os env) p"
    and "\<forall>r \<in> set (sb_write_roots sb). folder (pe_os env) r = r"
  shows "folder (pe_os env) r = r \<and> (r \<in> set (sb_write_roots sb) \<or>
     pd_capability d = ''fs.write'' \<and> (\<exists>x. pd_target d = Some x \<and> r = folder (pe_os env) (parent_path (path_of x))))"
  using assms by (auto simp: widen_sandbox_def split: option.splits if_splits)

lemma authorize_actions_roots:
  assumes "authorize_actions env np ps ow t c ts as s sb approved = (Inr (done, sb'), s')"
    and "\<And>p. folder (pe_os env) (folder (pe_os env) p) = folder (pe_os env) p"
    and "\<forall>r \<in> set (sb_write_roots sb). folder (pe_os env) r = r" and "r \<in> set (sb_write_roots sb')"
  shows "r \<in> set (sb_write_roots sb) \<or>
    (\<exists>a \<in> set as. \<exists>d x. decide env np (ca_capability a) (action_scope env c ts a) (action_request_of t a) = Inr d \<and>
       pd_action d = ASK \<and> pd_capability d = ''fs.write'' \<and> pd_target d = Some x \<and>
       r = folder (pe_os env) (parent_path (path_of x)))"
  using assms(1,3)
proof (induction as arbitrary: s sb approved)
  case Nil
  with assms(4) show ?case by simp
next
  case (Cons a as)
  obtain d where d: "decide env np (ca_capability a) (action_scope env c ts a) (action_request_of t a) = Inr d"
    using Cons.prems by (auto split: if_splits sum.splits)
  show ?case
  proof (cases "pd_action d")
    case ALLOW
    with Cons d have "authorize_actions env np ps ow t c ts as s sb approved = (Inr (done, sb'), s')" by (simp split: if_splits)
    from Cons.IH [OF this Cons.prems(2)] show ?thesis by auto
  next
    case ASK
    then obtain s1 where rest: "authorize_actions env np ps ow t c ts as s1 (widen_sandbox env t d sb) (approved @ [pd_reason d]) = (Inr (done, sb'), s')"
      using Cons.prems d by (auto simp: Let_def split: if_splits sum.splits)
    have "\<forall>r \<in> set (sb_write_roots (widen_sandbox env t d sb)). folder (pe_os env) r = r"
      using widen_sandbox_roots [OF _ assms(2) Cons.prems(2)] by blast
    from Cons.IH [OF rest this] widen_sandbox_roots [OF _ assms(2) Cons.prems(2), of r] ASK d show ?thesis by auto
  next
    case DENY
    with Cons.prems d show ?thesis by (simp split: if_splits)
  qed
qed


section \<open>At work\<close>

definition sample_context :: tool_context where
  "sample_context = \<lparr>tc_session_id = ''s'', tc_kind = ''PROJECT'', tc_cwd = PPath ''/'' [''p''],
     tc_project_root = Some (PPath ''/'' [''p'']), tc_user_home = None, tc_profile = WORKSPACE,
     tc_sandbox = \<lparr>sb_read_root = None, sb_write_roots = [PPath ''/'' [''p'']], sb_unrestricted = False,
       approved_read_roots = [], unrestricted_reads = False\<rparr>,
     tc_worktree = None, tc_private_roots = [], tc_ask_new_destinations = False, tc_extra_project_roots = [],
     tc_engine_home = None, tc_engine_home_open = [], tc_engine_home_readable = [], tc_origin_kind = ''owner'',
     tc_channel_host = False, tc_saves_tool_setting = NoSetting\<rparr>"

definition sample_tool :: called_tool where
  "sample_tool = \<lparr>ct_name = ''t'', ct_risk = ''low'', ct_side_effects = ''local'', ct_server = None\<rparr>"

definition sample_owner :: owner where
  "sample_owner = \<lparr>prompt = (\<lambda>s rq. Some ''y''), fresh_id = (\<lambda>s. ''g''), clock = (\<lambda>s. ''now'')\<rparr>"

definition bare_action :: "string \<Rightarrow> string \<Rightarrow> string option \<Rightarrow> ClassifiedAction" where
  "bare_action cap target mode = \<lparr>ca_capability = cap, ca_target = Some target, ca_mode = mode, ca_cwd = None,
     ca_cost_basis = None, ca_mcp = None\<rparr>"

definition sample_call :: "ClassifiedAction \<Rightarrow> (auth_error + string list \<times> FilesystemSandbox) \<times> approvals" where
  "sample_call a = authorize sample_policy_env sample_network sample_paths sample_owner (\<lambda>t. None) sample_tool sample_context
     fresh_turn [a] fresh_engine"

lemma sample_write_runs:
  "fst (sample_call (bare_action ''fs.write'' ''/x/a'' None)) =
     Inr ([''write outside the project root''],
          \<lparr>sb_read_root = None, sb_write_roots = [PPath ''/'' [''p''], PPath ''/'' [''x'']], sb_unrestricted = False,
           approved_read_roots = [PPath ''/'' [''x'', ''a'']], unrestricted_reads = False\<rparr>)"
  by code_simp

lemma sample_fetch_runs:
  "fst (sample_call (bare_action ''network.outbound'' ''ab.cd'' None)) = Inr ([], tc_sandbox sample_context)"
  by code_simp




theorem hard_list_witness:
  "case decide sample_policy_env sample_network CAPABILITY_SHELL (sample_scope WORKSPACE)
     (sample_action\<lparr>aq_command := Some ''git push -f''\<rparr>) of
     Inl e \<Rightarrow> False
   | Inr d \<Rightarrow>
       (case approval_check sample_paths ''g'' ''now'' (Some ''yes'') fresh_engine
          (approval_request sample_policy_env sample_tool sample_context (bare_action CAPABILITY_SHELL ''git push -f'' None) d) of
          Inl e \<Rightarrow> False | Inr (oc, s') \<Rightarrow> oc_granted oc \<and> lasting s' = lasting fresh_engine)"
proof -
  let ?q = "sample_action\<lparr>aq_command := Some ''git push -f''\<rparr>"
  have "case decide sample_policy_env sample_network CAPABILITY_SHELL (sample_scope WORKSPACE) ?q of
      Inl e \<Rightarrow> False | Inr d \<Rightarrow> pd_action d = ASK \<and> pd_choices d = [''deny'', ''allow_once'']"
    by code_simp
  then obtain d where d: "decide sample_policy_env sample_network CAPABILITY_SHELL (sample_scope WORKSPACE) ?q = Inr d"
    "pd_action d = ASK" "pd_choices d = [''deny'', ''allow_once'']"
    by (auto split: sum.splits)
  let ?rq = "approval_request sample_policy_env sample_tool sample_context (bare_action CAPABILITY_SHELL ''git push -f'' None) d"
  have yes: "lower (strip ''yes'') = ''yes''" by code_simp
  have "case decide sample_policy_env sample_network CAPABILITY_SHELL (sample_scope WORKSPACE) ?q of
      Inl e \<Rightarrow> False
    | Inr d \<Rightarrow> \<not> isl (approval_check sample_paths ''g'' ''now'' (Some ''yes'') fresh_engine
        (approval_request sample_policy_env sample_tool sample_context (bare_action CAPABILITY_SHELL ''git push -f'' None) d))"
    by code_simp
  then obtain oc s' where chk: "approval_check sample_paths ''g'' ''now'' (Some ''yes'') fresh_engine ?rq = Inr (oc, s')"
    using d(1) by (cases "approval_check sample_paths ''g'' ''now'' (Some ''yes'') fresh_engine ?rq") auto
  have "lasting s' = lasting fresh_engine \<and> oc_granted oc"
    using hard_list_leaves_nothing [OF d _ chk] by (simp add: yes persistent_answers_def)
  with d(1) chk show ?thesis by simp
qed

end
