(* ===== verification/Checklist.thy ===== *)
theory Checklist
  imports Rinari_Prelude
begin

text \<open>
  The live checklist of a conversation (\<^verbatim>\<open>src/src/rinari/checklist/service.py\<close>): the validation of
  what the model sends, the stored row per session with its revision, and the turn life cycle
  (begin, replace, settle, complete, clear).

  The database table is a dictionary from sessions to their current list; the two dictionaries
  of the service object (\<open>_current_turn\<close>, \<open>_resumed_from\<close>) are fields of the state. An item's JSON
  text is its record, since \<open>json.loads\<close> gives back what \<open>json.dumps\<close> wrote.
\<close>

section \<open>Items\<close>

record item =
  it_id :: string
  it_content :: string
  it_status :: string
  it_active_form :: "string option"
  it_blocked_reason :: "string option"

abbreviation CHECKLIST_MAX_ITEMS :: nat where "CHECKLIST_MAX_ITEMS \<equiv> 20"

definition ITEM_STATUSES :: "string list" where
  "ITEM_STATUSES = [''pending'', ''in_progress'', ''completed'', ''blocked'']"

definition is_id_char :: "char \<Rightarrow> bool" where
  "is_id_char c =
     (let n = cp c in
      48 \<le> n \<and> n \<le> 57 \<or> 65 \<le> n \<and> n \<le> 90 \<or> 97 \<le> n \<and> n \<le> 122 \<or> c = CHR ''_'' \<or> c = CHR ''-'')"

definition id_matches :: "string \<Rightarrow> bool" where
  "id_matches s = (1 \<le> length s \<and> length s \<le> 32 \<and> list_all is_id_char s)"

datatype checklist_error =
    NotAList
  | TooManyItems
  | NotAnObject nat
  | BadId nat
  | DuplicateId string
  | ContentRequired string
  | ContentTooLong string
  | BadStatus string
  | BlockedNeedsReason string

definition text_field :: "json \<Rightarrow> string option" where
  "text_field v = (case v of JStr s \<Rightarrow> (if strip s \<noteq> [] then Some s else None) | _ \<Rightarrow> None)"

definition validate_item :: "nat \<Rightarrow> string list \<Rightarrow> json \<Rightarrow> checklist_error + item" where
  "validate_item index seen entry =
     (case entry of
        JObj d \<Rightarrow>
          (case obj_get d ''id'' of
             JStr i \<Rightarrow>
               if \<not> id_matches i then Inl (BadId index)
               else if i \<in> set seen then Inl (DuplicateId i)
               else (case text_field (obj_get d ''content'') of
                       None \<Rightarrow> Inl (ContentRequired i)
                     | Some raw \<Rightarrow>
                         (let content = squeeze raw in
                          if 200 < length content then Inl (ContentTooLong i)
                          else (case obj_get d ''status'' of
                                  JStr st \<Rightarrow>
                                    if st \<notin> set ITEM_STATUSES then Inl (BadStatus i)
                                    else (let act = map_option (\<lambda>s. take 120 (squeeze s))
                                                      (text_field (obj_get d ''active_form''))
                                          in if st = ''blocked''
                                             then (case text_field (obj_get d ''blocked_reason'') of
                                                     None \<Rightarrow> Inl (BlockedNeedsReason i)
                                                   | Some why \<Rightarrow>
                                                       Inr \<lparr>it_id = i, it_content = content, it_status = st,
                                                            it_active_form = act,
                                                            it_blocked_reason = Some (take 200 (squeeze why))\<rparr>)
                                             else Inr \<lparr>it_id = i, it_content = content, it_status = st,
                                                       it_active_form = act, it_blocked_reason = None\<rparr>)
                                | _ \<Rightarrow> Inl (BadStatus i))))
           | _ \<Rightarrow> Inl (BadId index))
      | _ \<Rightarrow> Inl (NotAnObject index))"

fun validate_entries :: "nat \<Rightarrow> item list \<Rightarrow> json list \<Rightarrow> checklist_error + item list" where
  "validate_entries index acc [] = Inr acc"
| "validate_entries index acc (e # es) =
     (case validate_item index (map it_id acc) e of
        Inl err \<Rightarrow> Inl err
      | Inr x \<Rightarrow> validate_entries (Suc index) (acc @ [x]) es)"

text \<open>The items and whether the warning about several items in progress is given.\<close>

definition validate_items :: "json \<Rightarrow> checklist_error + item list \<times> bool" where
  "validate_items raw =
     (case raw of
        JList es \<Rightarrow>
          if CHECKLIST_MAX_ITEMS < length es then Inl TooManyItems
          else (case validate_entries 0 [] es of
                  Inl e \<Rightarrow> Inl e
                | Inr xs \<Rightarrow> Inr (xs, 1 < length (filter (\<lambda>x. it_status x = ''in_progress'') xs)))
      | _ \<Rightarrow> Inl NotAList)"

section \<open>The service\<close>

datatype list_state = Active | Open | Interrupted | Completed | Cleared

record Checklist =
  cl_session :: string
  cl_turn :: "string option"
  cl_revision :: int
  cl_state :: list_state
  cl_items :: "item list"
  cl_explanation :: string
  cl_updated_at :: string

record checklists =
  cl_rows :: "(string \<times> Checklist) list"
  current_turn :: "(string \<times> string) list"
  resumed_from :: "(string \<times> list_state) list"

definition cl_get :: "checklists \<Rightarrow> string \<Rightarrow> Checklist option" where
  "cl_get s sid = dict_get (cl_rows s) sid"

definition cl_visible :: "checklists \<Rightarrow> string \<Rightarrow> Checklist option" where
  "cl_visible s sid =
     (case cl_get s sid of None \<Rightarrow> None | Some c \<Rightarrow> if cl_state c = Cleared then None else Some c)"

definition cl_write ::
  "string \<Rightarrow> string \<Rightarrow> string option \<Rightarrow> Checklist option \<Rightarrow> list_state \<Rightarrow> item list option \<Rightarrow>
     string option \<Rightarrow> checklists \<Rightarrow> Checklist \<times> checklists" where
  "cl_write now sid turn current st items note s =
     (let c = \<lparr>cl_session = sid, cl_turn = turn,
               cl_revision = (case current of None \<Rightarrow> 0 | Some x \<Rightarrow> cl_revision x) + 1,
               cl_state = st,
               cl_items = (case items of Some xs \<Rightarrow> xs
                           | None \<Rightarrow> (case current of None \<Rightarrow> [] | Some x \<Rightarrow> cl_items x)),
               cl_explanation = (case note of Some n \<Rightarrow> n
                                 | None \<Rightarrow> (case current of None \<Rightarrow> [] | Some x \<Rightarrow> cl_explanation x)),
               cl_updated_at = now\<rparr>
      in (c, s\<lparr>cl_rows := dict_set sid c (cl_rows s)\<rparr>))"

definition begin_turn :: "string \<Rightarrow> string \<Rightarrow> string \<Rightarrow> checklists \<Rightarrow> Checklist option \<times> checklists" where
  "begin_turn now sid turn s =
     (let s1 = s\<lparr>current_turn := dict_set sid turn (current_turn s)\<rparr> in
      case cl_get s1 sid of
        None \<Rightarrow> (None, s1)
      | Some c \<Rightarrow>
          if cl_state c = Completed
          then (case cl_write now sid (cl_turn c) (Some c) Cleared None None s1 of (x, s2) \<Rightarrow> (Some x, s2))
          else if (cl_state c = Open \<or> cl_state c = Interrupted) \<and> cl_items c \<noteq> []
          then (case cl_write now sid (Some turn) (Some c) Active None None
                       (s1\<lparr>resumed_from := dict_set sid (cl_state c) (resumed_from s1)\<rparr>) of
                  (x, s2) \<Rightarrow> (Some x, s2))
          else (None, s1))"

definition end_turn :: "string \<Rightarrow> checklists \<Rightarrow> checklists" where
  "end_turn sid s = s\<lparr>current_turn := dict_pop sid (current_turn s), resumed_from := dict_pop sid (resumed_from s)\<rparr>"

definition all_completed :: "item list \<Rightarrow> bool" where
  "all_completed xs = list_all (\<lambda>x. it_status x = ''completed'') xs"

definition cl_replace ::
  "string \<Rightarrow> string \<Rightarrow> json \<Rightarrow> json \<Rightarrow> checklists \<Rightarrow> checklist_error + (Checklist \<times> bool) \<times> checklists" where
  "cl_replace now sid raw explanation s =
     (case validate_items raw of
        Inl e \<Rightarrow> Inl e
      | Inr (xs, warn) \<Rightarrow>
          (let note = take 300 (squeeze (case explanation of JStr t \<Rightarrow> t | _ \<Rightarrow> []));
               st = (if xs \<noteq> [] \<and> all_completed xs then Completed else if xs \<noteq> [] then Active else Cleared)
           in case cl_write now sid (dict_get (current_turn s) sid) (cl_get s sid) st (Some xs) (Some note) s of
                (c, s') \<Rightarrow> Inr ((c, warn), s')))"

definition settle ::
  "string \<Rightarrow> string \<Rightarrow> string \<Rightarrow> string \<Rightarrow> checklists \<Rightarrow> Checklist option \<times> checklists" where
  "settle now sid turn how s =
     (case cl_get s sid of
        None \<Rightarrow> (None, s)
      | Some c \<Rightarrow>
          if cl_state c \<noteq> Active \<or> cl_turn c \<noteq> Some turn then (None, s)
          else (let st = (if all_completed (cl_items c) then Completed
                          else if how = ''completed'' then Open else Interrupted)
                in case cl_write now sid (Some turn) (Some c) st None None s of
                     (x, s') \<Rightarrow> (Some x, s')))"

text \<open>The sessions a query finds, then one \<open>settle\<close> each.\<close>

definition orphans_of :: "string \<Rightarrow> checklists \<Rightarrow> string list" where
  "orphans_of turn s =
     map fst (filter (\<lambda>(k, c). cl_turn c = Some turn \<and> cl_state c = Active) (cl_rows s))"

definition settle_orphans :: "string \<Rightarrow> string list \<Rightarrow> checklists \<Rightarrow> checklists" where
  "settle_orphans now turns s =
     fold (\<lambda>turn s1. fold (\<lambda>sid s2. snd (settle now sid turn ''interrupted'' s2)) (orphans_of turn s1) s1)
       turns s"

definition complete_all :: "string \<Rightarrow> string \<Rightarrow> checklists \<Rightarrow> Checklist option \<times> checklists" where
  "complete_all now sid s =
     (case cl_get s sid of
        None \<Rightarrow> (None, s)
      | Some c \<Rightarrow>
          if cl_state c = Completed \<or> cl_state c = Cleared then (Some c, s)
          else (case cl_write now sid (cl_turn c) (Some c) Completed
                       (Some (map (\<lambda>x. x\<lparr>it_status := ''completed'', it_blocked_reason := None\<rparr>) (cl_items c)))
                       None s of
                  (x, s') \<Rightarrow> (Some x, s')))"

definition cl_clear :: "string \<Rightarrow> string \<Rightarrow> checklists \<Rightarrow> Checklist option \<times> checklists" where
  "cl_clear now sid s =
     (case cl_get s sid of
        None \<Rightarrow> (None, s)
      | Some c \<Rightarrow>
          (case cl_write now sid (cl_turn c) (Some c) Cleared (Some []) None s of
             (x, s') \<Rightarrow> (Some x, s')))"

section \<open>The prompt\<close>

fun mark_of :: "string \<Rightarrow> char" where
  "mark_of st = (if st = ''completed'' then CHR ''x'' else if st = ''in_progress'' then CHR ''~''
                 else if st = ''blocked'' then CHR ''!'' else CHR '' '')"

definition item_line :: "item \<Rightarrow> string" where
  "item_line x =
     ''- ['' @ [mark_of (it_status x)] @ ''] '' @ it_id x @ '': '' @ it_content x @
     (if it_status x = ''blocked''
      then '' (blocked: '' @ (case it_blocked_reason x of None \<Rightarrow> [] | Some r \<Rightarrow> r) @ '')'' else [])"

text \<open>\<open>render_for_prompt\<close>: whether the list was interrupted, and its lines.\<close>

definition render_for_prompt :: "checklists \<Rightarrow> string \<Rightarrow> (bool \<times> string list) option" where
  "render_for_prompt s sid =
     (case cl_get s sid of
        None \<Rightarrow> None
      | Some c \<Rightarrow>
          if cl_state c = Completed \<or> cl_state c = Cleared \<or> cl_items c = [] then None
          else Some (cl_state c = Interrupted \<or> dict_get (resumed_from s) sid = Some Interrupted,
                     map item_line (cl_items c)))"

section \<open>What validation guarantees\<close>

definition item_ok :: "item \<Rightarrow> bool" where
  "item_ok x \<longleftrightarrow> id_matches (it_id x) \<and> it_content x \<noteq> [] \<and> length (it_content x) \<le> 200 \<and>
     it_status x \<in> set ITEM_STATUSES \<and>
     (it_status x = ''blocked'' \<longleftrightarrow> it_blocked_reason x \<noteq> None) \<and> it_blocked_reason x \<noteq> Some []"

definition items_ok :: "item list \<Rightarrow> bool" where
  "items_ok xs \<longleftrightarrow> length xs \<le> CHECKLIST_MAX_ITEMS \<and> distinct (map it_id xs) \<and> list_all item_ok xs"

lemma text_field_squeeze: "text_field v = Some s \<Longrightarrow> squeeze s \<noteq> []"
  by (auto simp: text_field_def squeeze_Nil split: json.splits if_splits)

lemma validate_item_ok:
  assumes "validate_item index seen entry = Inr x"
  shows "item_ok x \<and> it_id x \<notin> set seen"
  using assms
  by (auto simp: validate_item_def item_ok_def Let_def split: json.splits if_splits option.splits
      dest: text_field_squeeze)

lemma validate_entries_ok:
  assumes "validate_entries index acc es = Inr xs" and "distinct (map it_id acc)" and "list_all item_ok acc"
  shows "distinct (map it_id xs) \<and> list_all item_ok xs \<and> length xs = length acc + length es"
  using assms
proof (induction es arbitrary: index acc)
  case (Cons e es)
  then obtain x where "validate_item index (map it_id acc) e = Inr x"
    and "validate_entries (Suc index) (acc @ [x]) es = Inr xs"
    by (auto split: sum.splits)
  with Cons.IH [of "Suc index" "acc @ [x]"] Cons.prems validate_item_ok show ?case by fastforce
qed simp

lemma validate_items_ok: "validate_items raw = Inr (xs, warn) \<Longrightarrow> items_ok xs"
  using validate_entries_ok [of 0 "[]"]
  by (auto simp: validate_items_def items_ok_def split: json.splits if_splits sum.splits)

section \<open>The list stays true\<close>

definition row_ok :: "Checklist \<Rightarrow> bool" where
  "row_ok c \<longleftrightarrow> items_ok (cl_items c) \<and> 1 \<le> cl_revision c \<and>
     (cl_state c = Completed \<longrightarrow> all_completed (cl_items c)) \<and>
     (cl_state c \<in> {Active, Open, Interrupted} \<longrightarrow> \<not> all_completed (cl_items c))"

definition rows_ok :: "checklists \<Rightarrow> bool" where
  "rows_ok s \<longleftrightarrow> (\<forall>sid c. cl_get s sid = Some c \<longrightarrow> row_ok c)"

datatype checklist_op =
    BeginTurn string string string
  | EndTurn string
  | Replace string string json json
  | Settle string string string string
  | SettleOrphans string "string list"
  | CompleteAll string string
  | Clear string string

fun checklist_step :: "checklist_op \<Rightarrow> checklists \<Rightarrow> checklists" where
  "checklist_step (BeginTurn now sid turn) s = snd (begin_turn now sid turn s)"
| "checklist_step (EndTurn sid) s = end_turn sid s"
| "checklist_step (Replace now sid raw note) s =
     (case cl_replace now sid raw note s of Inl _ \<Rightarrow> s | Inr (_, s') \<Rightarrow> s')"
| "checklist_step (Settle now sid turn how) s = snd (settle now sid turn how s)"
| "checklist_step (SettleOrphans now turns) s = settle_orphans now turns s"
| "checklist_step (CompleteAll now sid) s = snd (complete_all now sid s)"
| "checklist_step (Clear now sid) s = snd (cl_clear now sid s)"

lemma cl_get_write:
  "cl_get (snd (cl_write now sid turn cur st items note s)) sid' =
     (if sid' = sid then Some (fst (cl_write now sid turn cur st items note s)) else cl_get s sid')"
  by (simp add: cl_write_def cl_get_def Let_def)

lemma cl_get_frame [simp]:
  "cl_get (s\<lparr>current_turn := x\<rparr>) sid = cl_get s sid"
  "cl_get (s\<lparr>resumed_from := y\<rparr>) sid = cl_get s sid"
  "cl_get (end_turn sid' s) sid = cl_get s sid"
  by (simp_all add: cl_get_def end_turn_def)

text \<open>The revision a client sees of a session, \<open>0\<close> before the first list.\<close>

definition revision_of :: "string \<Rightarrow> checklists \<Rightarrow> int" where
  "revision_of sid s = (case cl_get s sid of None \<Rightarrow> 0 | Some c \<Rightarrow> cl_revision c)"

text \<open>One state follows another: each session's row is as it was, or is good and newer.\<close>

definition advances :: "checklists \<Rightarrow> checklists \<Rightarrow> bool" where
  "advances s s' \<longleftrightarrow> (\<forall>sid. cl_get s' sid = cl_get s sid \<or>
     (revision_of sid s < revision_of sid s' \<and> (\<exists>c. cl_get s' sid = Some c \<and> row_ok c)))"

lemma advances_refl [simp]: "advances s s"
  by (simp add: advances_def)

lemma advances_trans: "advances s t \<Longrightarrow> advances t u \<Longrightarrow> advances s u"
proof -
  assume st: "advances s t" and tu: "advances t u"
  have "cl_get u sid = cl_get s sid \<or>
      (revision_of sid s < revision_of sid u \<and> (\<exists>c. cl_get u sid = Some c \<and> row_ok c))" for sid
  proof (cases "cl_get u sid = cl_get t sid")
    case True
    then have "revision_of sid u = revision_of sid t" by (simp add: revision_of_def)
    with True st show ?thesis unfolding advances_def by metis
  next
    case False
    with tu have u: "revision_of sid t < revision_of sid u" "\<exists>c. cl_get u sid = Some c \<and> row_ok c"
      unfolding advances_def by metis+
    have "revision_of sid s \<le> revision_of sid t"
      using st unfolding advances_def by (metis order.strict_implies_order order_refl revision_of_def)
    with u show ?thesis by auto
  qed
  then show ?thesis by (simp add: advances_def)
qed

lemma advances_frame [simp]:
  "advances s (s'\<lparr>current_turn := x\<rparr>) = advances s s'"
  "advances (s\<lparr>current_turn := x\<rparr>) s' = advances s s'"
  "advances (s\<lparr>resumed_from := y\<rparr>) s' = advances s s'"
  by (simp_all add: advances_def revision_of_def)

lemma advances_rows: "rows_ok s \<Longrightarrow> advances s s' \<Longrightarrow> rows_ok s'"
  unfolding rows_ok_def advances_def by (metis option.inject)

lemma write_advances:
  assumes "rows_ok s" and "cur = cl_get s sid"
    and "row_ok (fst (cl_write now sid turn cur st items note s))"
  shows "advances s (snd (cl_write now sid turn cur st items note s))"
proof -
  have "revision_of sid s < cl_revision (fst (cl_write now sid turn cur st items note s))"
    by (simp add: revision_of_def cl_write_def assms(2) Let_def)
  with assms(3) show ?thesis
    unfolding advances_def cl_get_write by (simp add: revision_of_def cl_get_write)
qed

lemma write_row [simp]:
  "cl_items (fst (cl_write now sid turn (Some c) st items note s)) = (case items of Some xs \<Rightarrow> xs | None \<Rightarrow> cl_items c)"
  "cl_state (fst (cl_write now sid turn cur st items note s)) = st"
  "cl_revision (fst (cl_write now sid turn (Some c) st items note s)) = cl_revision c + 1"
  by (simp_all add: cl_write_def Let_def split: option.split)

lemma rows_ok_get: "rows_ok s \<Longrightarrow> cl_get s sid = Some c \<Longrightarrow> row_ok c"
  by (simp add: rows_ok_def)

lemma settle_advances:
  assumes "rows_ok s"
  shows "advances s (snd (settle now sid turn how s))"
proof (cases "cl_get s sid")
  case None
  then show ?thesis by (simp add: settle_def)
next
  case (Some c)
  note ok = rows_ok_get [OF assms Some]
  let ?st = "if all_completed (cl_items c) then Completed else if how = ''completed'' then Open else Interrupted"
  have "advances s (snd (cl_write now sid (Some turn) (Some c) ?st None None s))"
    by (rule write_advances [OF assms]) (use Some ok in \<open>auto simp: row_ok_def\<close>)
  with Some show ?thesis by (simp add: settle_def Let_def case_prod_beta)
qed

lemma begin_turn_advances:
  assumes "rows_ok s"
  shows "advances s (snd (begin_turn now sid turn s))"
proof (cases "cl_get s sid")
  case None
  then show ?thesis by (simp add: begin_turn_def Let_def)
next
  case (Some c)
  note ok = rows_ok_get [OF assms Some]
  let ?s1 = "s\<lparr>current_turn := dict_set sid turn (current_turn s)\<rparr>"
  let ?s2 = "?s1\<lparr>resumed_from := dict_set sid (cl_state c) (resumed_from ?s1)\<rparr>"
  have ok1: "rows_ok ?s1" and ok2: "rows_ok ?s2" using assms by (simp_all add: rows_ok_def)
  have "advances ?s1 (snd (cl_write now sid (cl_turn c) (Some c) Cleared None None ?s1))"
    by (rule write_advances [OF ok1]) (use Some ok in \<open>auto simp: row_ok_def\<close>)
  moreover have "advances ?s2 (snd (cl_write now sid (Some turn) (Some c) Active None None ?s2))"
    if "cl_state c = Open \<or> cl_state c = Interrupted"
    by (rule write_advances [OF ok2]) (use Some ok that in \<open>auto simp: row_ok_def\<close>)
  ultimately show ?thesis
    using Some by (auto simp: begin_turn_def Let_def case_prod_beta)
qed

lemma replace_advances:
  assumes "rows_ok s" and "cl_replace now sid raw note s = Inr (r, s')"
  shows "advances s s'"
proof -
  obtain xs warn where v: "validate_items raw = Inr (xs, warn)"
    using assms(2) by (auto simp: cl_replace_def split: sum.splits)
  let ?st = "if xs \<noteq> [] \<and> all_completed xs then Completed else if xs \<noteq> [] then Active else Cleared"
  let ?n = "take 300 (squeeze (case note of JStr t \<Rightarrow> t | _ \<Rightarrow> []))"
  let ?w = "cl_write now sid (dict_get (current_turn s) sid) (cl_get s sid) ?st (Some xs) (Some ?n) s"
  have "1 \<le> cl_revision (fst ?w)"
    using rows_ok_get [OF assms(1), of sid]
    by (cases "cl_get s sid") (auto simp: cl_write_def Let_def row_ok_def)
  moreover have "cl_items (fst ?w) = xs" by (simp add: cl_write_def Let_def)
  ultimately have "row_ok (fst ?w)"
    using validate_items_ok [OF v] by (auto simp: row_ok_def all_completed_def)
  with write_advances [OF assms(1) refl] assms(2) v show ?thesis
    by (auto simp: cl_replace_def Let_def case_prod_beta)
qed

lemma completed_items_ok:
  "items_ok xs \<Longrightarrow> items_ok (map (\<lambda>x. x\<lparr>it_status := ''completed'', it_blocked_reason := None\<rparr>) xs)"
  by (auto simp: items_ok_def item_ok_def list_all_iff comp_def ITEM_STATUSES_def)

lemma complete_all_advances:
  assumes "rows_ok s"
  shows "advances s (snd (complete_all now sid s))"
proof (cases "cl_get s sid")
  case None
  then show ?thesis by (simp add: complete_all_def)
next
  case (Some c)
  note ok = rows_ok_get [OF assms Some]
  let ?xs = "map (\<lambda>x. x\<lparr>it_status := ''completed'', it_blocked_reason := None\<rparr>) (cl_items c)"
  have "advances s (snd (cl_write now sid (cl_turn c) (Some c) Completed (Some ?xs) None s))"
    by (rule write_advances [OF assms])
      (use Some ok in \<open>auto simp: row_ok_def completed_items_ok all_completed_def list_all_iff\<close>)
  with Some show ?thesis by (simp add: complete_all_def case_prod_beta)
qed

lemma clear_advances:
  assumes "rows_ok s"
  shows "advances s (snd (cl_clear now sid s))"
proof (cases "cl_get s sid")
  case None
  then show ?thesis by (simp add: cl_clear_def)
next
  case (Some c)
  note ok = rows_ok_get [OF assms Some]
  have "advances s (snd (cl_write now sid (cl_turn c) (Some c) Cleared (Some []) None s))"
    by (rule write_advances [OF assms]) (use Some ok in \<open>auto simp: row_ok_def items_ok_def\<close>)
  with Some show ?thesis by (simp add: cl_clear_def case_prod_beta)
qed

lemma fold_advances:
  assumes "rows_ok s" and "\<And>x t. rows_ok t \<Longrightarrow> advances t (f x t)"
  shows "advances s (fold f xs s)"
  using assms(1)
proof (induction xs arbitrary: s)
  case (Cons x xs)
  note step = assms(2) [OF Cons.prems, of x]
  from Cons.IH [OF advances_rows [OF Cons.prems step]] step show ?case
    by (auto intro: advances_trans)
qed simp

lemma settle_orphans_advances: "rows_ok s \<Longrightarrow> advances s (settle_orphans now turns s)"
  unfolding settle_orphans_def
  by (rule fold_advances, assumption) (rule fold_advances, assumption, rule settle_advances)

lemma checklist_step_advances:
  assumes "rows_ok s"
  shows "advances s (checklist_step x s)"
proof (cases x)
  case (Replace now sid raw why)
  then show ?thesis
    using replace_advances [OF assms] by (auto split: sum.splits)
qed (simp_all add: assms begin_turn_advances settle_advances settle_orphans_advances
    complete_all_advances clear_advances, simp add: advances_def)

interpretation lists: invariant_steps checklist_step "\<lambda>_. True" rows_ok
  by unfold_locales (rule advances_rows, assumption, rule checklist_step_advances)

definition no_lists :: checklists where
  "no_lists = \<lparr>cl_rows = [], current_turn = [], resumed_from = []\<rparr>"

lemma no_lists_ok: "rows_ok no_lists"
  by (simp add: rows_ok_def no_lists_def cl_get_def)

text \<open>
  C28. The list stays true: after any sequence of turns, updates and owner actions, each stored
  list has at most 20 well-formed items with distinct identifiers; it is \<open>completed\<close> only when
  every item is, and \<open>active\<close>, \<open>open\<close> or \<open>interrupted\<close> only when some item is not.
\<close>

theorem checklist_stays_true:
  "case cl_get (fold checklist_step xs no_lists) sid of
     None \<Rightarrow> True
   | Some c \<Rightarrow> items_ok (cl_items c) \<and>
       (if cl_state c = Completed then all_completed (cl_items c)
        else if cl_state c = Cleared then True else \<not> all_completed (cl_items c))"
proof (cases "cl_get (fold checklist_step xs no_lists) sid")
  case (Some c)
  have "rows_ok (fold checklist_step xs no_lists)"
    by (rule lists.run_inv [OF no_lists_ok]) (simp add: list_all_iff)
  then have "row_ok c" using Some by (rule rows_ok_get)
  with Some show ?thesis by (cases "cl_state c") (simp_all add: row_ok_def)
qed simp

text \<open>
  C24. A revision identifies the list: the revision of a session never decreases, and when it is
  the same at two points of a run, so is the stored list.
\<close>

theorem revision_identifies_list:
  "revision_of sid (fold checklist_step xs no_lists) \<le> revision_of sid (fold checklist_step (xs @ ys) no_lists) \<and>
   (cl_get (fold checklist_step (xs @ ys) no_lists) sid = cl_get (fold checklist_step xs no_lists) sid \<or>
    revision_of sid (fold checklist_step xs no_lists) < revision_of sid (fold checklist_step (xs @ ys) no_lists))"
proof -
  let ?s = "fold checklist_step xs no_lists"
  have "rows_ok ?s" by (rule lists.run_inv [OF no_lists_ok]) (simp add: list_all_iff)
  then have "advances ?s (fold checklist_step ys ?s)"
    by (rule fold_advances) (rule checklist_step_advances)
  then have "cl_get (fold checklist_step ys ?s) sid = cl_get ?s sid \<or>
      revision_of sid ?s < revision_of sid (fold checklist_step ys ?s)"
    unfolding advances_def by blast
  then show ?thesis by (auto simp: revision_of_def)
qed

end
