(* ===== verification/Goals.thy ===== *)
theory Goals
  imports Rinari_Prelude
begin

text \<open>
  The goal of a conversation (\<^verbatim>\<open>src/src/rinari/goals/service.py\<close>): the owner's actions, the model's
  report, and how a finished turn is folded into the goal.

  The table is a dictionary from sessions to their goal. Every write goes through \<open>_update\<close>, which
  re-reads the row under the lock and applies the changes to that fresh row: a change is a
  \<open>goal_changes\<close> record, decided from the row read before (\<open>current\<close>) and applied to the one read
  under the lock. The dictionary of an assessment is a record; its hidden \<open>_signature\<close> is a field.
\<close>

section \<open>Goals\<close>

datatype goal_state =
    Pursuing
  | Paused
  | WaitingLimits
  | Achieved
  | Blocked
  | Stalled
  | BudgetLimited
  | ClearedGoal

abbreviation STALL_AFTER :: int where "STALL_AFTER \<equiv> 3"
abbreviation OBJECTIVE_MAX_CHARS :: nat where "OBJECTIVE_MAX_CHARS \<equiv> 2000"

record goal_report =
  gr_status :: string
  gr_summary :: string
  gr_evidence :: string
  gr_remaining :: string
  gr_iteration :: int

type_synonym signature = "string option \<times> int \<times> int option"

record assessment =
  as_report :: "goal_report option"
  as_gate :: "(string \<times> string list) option"
  as_signature :: "signature option"

record budget =
  b_turns :: "int option"
  b_minutes :: "int option"
  b_tokens :: "int option"

record Goal =
  g_session :: string
  g_id :: string
  g_objective :: string
  g_state :: goal_state
  g_budget :: budget
  g_iteration :: int
  g_tokens :: int
  g_seconds :: rat
  g_quiet :: int
  g_assessment :: assessment
  g_reason :: string
  g_revision :: int
  g_started :: string
  g_updated :: string

definition no_assessment :: assessment where
  "no_assessment = \<lparr>as_report = None, as_gate = None, as_signature = None\<rparr>"

definition no_budget :: budget where
  "no_budget = \<lparr>b_turns = None, b_minutes = None, b_tokens = None\<rparr>"

record TurnOutcome =
  to_terminal :: string
  to_error_code :: string
  to_error_message :: string
  to_gate :: "(string option \<times> string list) option"
  to_tokens :: int
  to_seconds :: rat
  to_files_changed :: int
  to_checklist_revision :: "int option"

datatype goal_error =
    NoObjective
  | ObjectiveTooLong
  | BudgetNotObject
  | UnknownBudgetKey string
  | BudgetNotPositive string
  | NoGoal
  | GoalOver
  | GoalIs goal_state
  | BadReportStatus
  | SummaryRequired

section \<open>Budgets\<close>

definition set_cap :: "string \<Rightarrow> int \<Rightarrow> budget \<Rightarrow> budget" where
  "set_cap k v b =
     (if k = ''turns'' then b\<lparr>b_turns := Some v\<rparr>
      else if k = ''minutes'' then b\<lparr>b_minutes := Some v\<rparr> else b\<lparr>b_tokens := Some v\<rparr>)"

definition is_zero :: "json \<Rightarrow> bool" where
  "is_zero v = (case v of JNull \<Rightarrow> True | JInt i \<Rightarrow> i = 0 | JFloat r \<Rightarrow> r = 0 | JBool b \<Rightarrow> \<not> b | _ \<Rightarrow> False)"

fun clean_caps :: "budget \<Rightarrow> (string \<times> json) list \<Rightarrow> goal_error + budget" where
  "clean_caps b [] = Inr b"
| "clean_caps b ((k, v) # kvs) =
     (if k \<notin> set [''turns'', ''minutes'', ''tokens''] then Inl (UnknownBudgetKey k)
      else if is_zero v then clean_caps b kvs
      else (case v of
              JInt i \<Rightarrow> if i < 1 then Inl (BudgetNotPositive k) else clean_caps (set_cap k i b) kvs
            | _ \<Rightarrow> Inl (BudgetNotPositive k)))"

definition clean_budget :: "json \<Rightarrow> goal_error + budget" where
  "clean_budget raw =
     (case raw of JNull \<Rightarrow> Inr no_budget | JObj kvs \<Rightarrow> clean_caps no_budget kvs | _ \<Rightarrow> Inl BudgetNotObject)"

section \<open>Writes\<close>

type_synonym goals = "(string \<times> Goal) list"

record goal_changes =
  ch_state :: "goal_state option"
  ch_reason :: "string option"
  ch_quiet :: "int option"
  ch_assessment :: "assessment option"
  ch_tokens :: "int option"
  ch_seconds :: "rat option"
  ch_iteration :: "int option"
  ch_budget :: "budget option"

definition no_changes :: goal_changes where
  "no_changes = \<lparr>ch_state = None, ch_reason = None, ch_quiet = None, ch_assessment = None,
     ch_tokens = None, ch_seconds = None, ch_iteration = None, ch_budget = None\<rparr>"

definition chosen :: "'a option \<Rightarrow> 'a \<Rightarrow> 'a" where
  "chosen new old = (case new of Some v \<Rightarrow> v | None \<Rightarrow> old)"

definition apply_changes :: "string \<Rightarrow> goal_changes \<Rightarrow> Goal \<Rightarrow> Goal" where
  "apply_changes now ch g =
     g\<lparr>g_state := chosen (ch_state ch) (g_state g), g_reason := chosen (ch_reason ch) (g_reason g),
       g_quiet := chosen (ch_quiet ch) (g_quiet g), g_assessment := chosen (ch_assessment ch) (g_assessment g),
       g_tokens := chosen (ch_tokens ch) (g_tokens g), g_seconds := chosen (ch_seconds ch) (g_seconds g),
       g_iteration := chosen (ch_iteration ch) (g_iteration g), g_budget := chosen (ch_budget ch) (g_budget g),
       g_revision := g_revision g + 1, g_updated := now\<rparr>"

text \<open>\<open>_update\<close>: the row read under the lock, or \<open>current\<close> when it is gone. \<open>sid\<close> is the session
  \<open>current\<close> was read for.\<close>

definition goal_update :: "string \<Rightarrow> string \<Rightarrow> Goal \<Rightarrow> goal_changes \<Rightarrow> goals \<Rightarrow> Goal \<times> goals" where
  "goal_update now sid current ch G =
     (let fresh = (case dict_get G sid of Some g \<Rightarrow> g | None \<Rightarrow> current);
          g = apply_changes now ch fresh
      in (g, dict_set sid g G))"

definition goal_require :: "goals \<Rightarrow> string \<Rightarrow> goal_error + Goal" where
  "goal_require G sid =
     (case dict_get G sid of
        None \<Rightarrow> Inl NoGoal
      | Some g \<Rightarrow> if g_state g = ClearedGoal then Inl NoGoal else Inr g)"

definition goal_set ::
  "string \<Rightarrow> string \<Rightarrow> string \<Rightarrow> string \<Rightarrow> json \<Rightarrow> goals \<Rightarrow> goal_error + Goal \<times> goals" where
  "goal_set new_id now sid objective raw G =
     (let text = squeeze objective in
      if text = [] then Inl NoObjective
      else if OBJECTIVE_MAX_CHARS < length text then Inl ObjectiveTooLong
      else (case clean_budget raw of
              Inl e \<Rightarrow> Inl e
            | Inr caps \<Rightarrow>
                (let g = \<lparr>g_session = sid, g_id = new_id, g_objective = text, g_state = Pursuing,
                          g_budget = caps, g_iteration = 0, g_tokens = 0, g_seconds = 0, g_quiet = 0,
                          g_assessment = no_assessment, g_reason = [],
                          g_revision = (case dict_get G sid of None \<Rightarrow> 0 | Some c \<Rightarrow> g_revision c) + 1,
                          g_started = now, g_updated = now\<rparr>
                 in Inr (g, dict_set sid g G))))"

definition goal_pause :: "string \<Rightarrow> string \<Rightarrow> string \<Rightarrow> goals \<Rightarrow> goal_error + Goal \<times> goals" where
  "goal_pause now sid why G =
     (case goal_require G sid of
        Inl e \<Rightarrow> Inl e
      | Inr g \<Rightarrow>
          if g_state g = Pursuing \<or> g_state g = WaitingLimits
          then Inr (goal_update now sid g (no_changes\<lparr>ch_state := Some Paused, ch_reason := Some why\<rparr>) G)
          else Inl (GoalIs (g_state g)))"

definition goal_resume :: "string \<Rightarrow> string \<Rightarrow> goals \<Rightarrow> goal_error + Goal \<times> goals" where
  "goal_resume now sid G =
     (case goal_require G sid of
        Inl e \<Rightarrow> Inl e
      | Inr g \<Rightarrow>
          if g_state g = Achieved \<or> g_state g = ClearedGoal then Inl GoalOver
          else Inr (goal_update now sid g
                 (no_changes\<lparr>ch_state := Some Pursuing, ch_reason := Some [], ch_quiet := Some 0\<rparr>) G))"

definition goal_clear :: "string \<Rightarrow> string \<Rightarrow> goals \<Rightarrow> goals" where
  "goal_clear now sid G =
     (case dict_get G sid of
        None \<Rightarrow> G
      | Some g \<Rightarrow>
          if g_state g = ClearedGoal then G
          else snd (goal_update now sid g (no_changes\<lparr>ch_state := Some ClearedGoal, ch_reason := Some []\<rparr>) G))"

definition goal_set_budget :: "string \<Rightarrow> string \<Rightarrow> json \<Rightarrow> goals \<Rightarrow> goal_error + Goal \<times> goals" where
  "goal_set_budget now sid raw G =
     (case goal_require G sid of
        Inl e \<Rightarrow> Inl e
      | Inr g \<Rightarrow>
          (case clean_budget raw of
             Inl e \<Rightarrow> Inl e
           | Inr b \<Rightarrow> Inr (goal_update now sid g (no_changes\<lparr>ch_budget := Some b\<rparr>) G)))"

definition goal_report_op ::
  "string \<Rightarrow> string \<Rightarrow> string \<Rightarrow> string \<Rightarrow> string \<Rightarrow> string \<Rightarrow> goals \<Rightarrow> goal_error + Goal \<times> goals" where
  "goal_report_op now sid st summary evid remaining G =
     (if st \<notin> set [''progress'', ''achieved'', ''blocked''] then Inl BadReportStatus
      else if strip summary = [] then Inl SummaryRequired
      else (case goal_require G sid of
              Inl e \<Rightarrow> Inl e
            | Inr g \<Rightarrow>
                if g_state g \<noteq> Pursuing then Inl (GoalIs (g_state g))
                else Inr (goal_update now sid g
                       (no_changes\<lparr>ch_assessment := Some \<lparr>as_report = Some
                          \<lparr>gr_status = st, gr_summary = take 600 (squeeze summary),
                           gr_evidence = take 1200 (squeeze evid),
                           gr_remaining = take 600 (squeeze remaining),
                           gr_iteration = g_iteration g\<rparr>, as_gate = None, as_signature = None\<rparr>\<rparr>) G)))"

definition begin_iteration :: "string \<Rightarrow> string \<Rightarrow> goals \<Rightarrow> goals" where
  "begin_iteration now sid G =
     (case dict_get G sid of
        None \<Rightarrow> G
      | Some g \<Rightarrow>
          if g_state g \<noteq> Pursuing then G
          else snd (goal_update now sid g (no_changes\<lparr>ch_iteration := Some (g_iteration g + 1)\<rparr>) G))"

section \<open>After a turn\<close>

definition cap_reached :: "int option \<Rightarrow> (int \<Rightarrow> bool) \<Rightarrow> bool" where
  "cap_reached cap p = (case cap of None \<Rightarrow> False | Some n \<Rightarrow> if n = 0 then False else p n)"

definition goal_exhausted :: "Goal \<Rightarrow> int \<Rightarrow> rat \<Rightarrow> string" where
  "goal_exhausted g tokens seconds =
     (let b = g_budget g; used = (\<lambda>n what. ''the '' @ int_to_string (the n) @ '' '' @ what @ '' allowed are used'') in
      if cap_reached (b_turns b) (\<lambda>n. n \<le> g_iteration g) then used (b_turns b) ''turns''
      else if cap_reached (b_minutes b) (\<lambda>n. of_int (n * 60) \<le> seconds) then used (b_minutes b) ''minutes''
      else if cap_reached (b_tokens b) (\<lambda>n. n \<le> tokens) then used (b_tokens b) ''tokens''
      else [])"

definition report_of :: "Goal \<Rightarrow> goal_report option" where
  "report_of g =
     (case as_report (g_assessment g) of
        None \<Rightarrow> None
      | Some r \<Rightarrow> if gr_iteration r = g_iteration g then Some r else None)"

definition first_nonempty :: "string list \<Rightarrow> string" where
  "first_nonempty xs = (case find_first (\<lambda>x. x \<noteq> []) xs of Some x \<Rightarrow> x | None \<Rightarrow> [])"

text \<open>A verdict other than DONE: the gate evaluated the turn and did not agree.\<close>

definition gate_objects :: "TurnOutcome \<Rightarrow> (string \<times> string list) option" where
  "gate_objects oc =
     (case to_gate oc of
        Some (Some v, rs) \<Rightarrow> if v \<noteq> [] \<and> v \<noteq> ''DONE'' then Some (v, rs) else None
      | _ \<Rightarrow> None)"

definition turn_signature :: "Goal \<Rightarrow> TurnOutcome \<Rightarrow> signature" where
  "turn_signature g oc =
     (map_option gr_summary (report_of g), to_files_changed oc, to_checklist_revision oc)"

definition quiet_after :: "Goal \<Rightarrow> TurnOutcome \<Rightarrow> int" where
  "quiet_after g oc =
     (if to_files_changed oc = 0 \<and>
         (report_of g = None \<or> as_signature (g_assessment g) = Some (turn_signature g oc))
      then g_quiet g + 1 else 0)"

definition quiet_or_go ::
  "Goal \<Rightarrow> TurnOutcome \<Rightarrow> int \<Rightarrow> rat \<Rightarrow> goal_changes \<Rightarrow> assessment \<Rightarrow> goal_changes option \<times> bool" where
  "quiet_or_go g oc tokens seconds base asm =
     (let quiet = quiet_after g oc;
          ch = base\<lparr>ch_assessment := Some (asm\<lparr>as_signature := Some (turn_signature g oc)\<rparr>),
                    ch_quiet := Some quiet\<rparr>;
          finish = (\<lambda>st why. (Some (ch\<lparr>ch_state := Some st, ch_reason := Some why\<rparr>), False))
      in if STALL_AFTER \<le> quiet
         then finish Stalled (int_to_string quiet @ '' iterations in a row without progress'')
         else if goal_exhausted g tokens seconds \<noteq> []
         then finish BudgetLimited (goal_exhausted g tokens seconds)
         else (Some ch, True))"

text \<open>What a finished turn changes, and whether the goal goes on; \<open>None\<close> when it is not pursued.\<close>

definition after_turn_changes :: "Goal \<Rightarrow> TurnOutcome \<Rightarrow> goal_changes option \<times> bool" where
  "after_turn_changes g oc =
     (if g_state g \<noteq> Pursuing then (None, False)
      else
        (let tokens = g_tokens g + max 0 (to_tokens oc);
             seconds = g_seconds g + max 0 (to_seconds oc);
             base = no_changes\<lparr>ch_tokens := Some tokens, ch_seconds := Some seconds\<rparr>;
             finish = (\<lambda>ch st why. (Some (ch\<lparr>ch_state := Some st, ch_reason := Some why\<rparr>), False))
         in if to_terminal oc = ''cancelled'' then finish base Paused ''stopped''
            else if to_terminal oc = ''failed''
            then finish base (if to_error_code oc \<in> set [''RATE_LIMIT'', ''QUOTA_EXHAUSTED'']
                              then WaitingLimits else Paused)
                   (take 300 (first_nonempty [to_error_message oc, to_error_code oc, ''the turn failed'']))
            else (case report_of g of
                Some r \<Rightarrow>
                  if gr_status r = ''blocked''
                  then finish base Blocked (first_nonempty [gr_remaining r, gr_summary r])
                  else if gr_status r = ''achieved'' \<and> gate_objects oc = None
                  then finish base Achieved []
                  else quiet_or_go g oc tokens seconds base
                         (if gr_status r = ''achieved'' then (g_assessment g)\<lparr>as_gate := gate_objects oc\<rparr>
                          else g_assessment g)
              | None \<Rightarrow> quiet_or_go g oc tokens seconds base (g_assessment g))))"

definition after_turn :: "string \<Rightarrow> string \<Rightarrow> TurnOutcome \<Rightarrow> goals \<Rightarrow> bool \<times> goals" where
  "after_turn now sid oc G =
     (case dict_get G sid of
        None \<Rightarrow> (False, G)
      | Some g \<Rightarrow>
          (case after_turn_changes g oc of
             (None, go) \<Rightarrow> (go, G)
           | (Some ch, go) \<Rightarrow> (go, snd (goal_update now sid g ch G))))"

section \<open>Runs\<close>

datatype goal_op =
    SetGoal string string string string json
  | PauseGoal string string string
  | ResumeGoal string string
  | ClearGoal string string
  | SetBudget string string json
  | ReportGoal string string string string string string
  | BeginIteration string string
  | AfterTurn string string TurnOutcome

definition kept :: "goals \<Rightarrow> goal_error + Goal \<times> goals \<Rightarrow> goals" where
  "kept G r = (case r of Inl _ \<Rightarrow> G | Inr (_, G') \<Rightarrow> G')"

fun goal_step :: "goal_op \<Rightarrow> goals \<Rightarrow> goals" where
  "goal_step (SetGoal new_id now sid objective raw) G = kept G (goal_set new_id now sid objective raw G)"
| "goal_step (PauseGoal now sid why) G = kept G (goal_pause now sid why G)"
| "goal_step (ResumeGoal now sid) G = kept G (goal_resume now sid G)"
| "goal_step (ClearGoal now sid) G = goal_clear now sid G"
| "goal_step (SetBudget now sid raw) G = kept G (goal_set_budget now sid raw G)"
| "goal_step (ReportGoal now sid st summary evid remaining) G =
     kept G (goal_report_op now sid st summary evid remaining G)"
| "goal_step (BeginIteration now sid) G = begin_iteration now sid G"
| "goal_step (AfterTurn now sid oc) G = snd (after_turn now sid oc G)"

lemma apply_changes_sel [simp]:
  "g_state (apply_changes now ch g) = chosen (ch_state ch) (g_state g)"
  "g_quiet (apply_changes now ch g) = chosen (ch_quiet ch) (g_quiet g)"
  "g_assessment (apply_changes now ch g) = chosen (ch_assessment ch) (g_assessment g)"
  "g_iteration (apply_changes now ch g) = chosen (ch_iteration ch) (g_iteration g)"
  "g_budget (apply_changes now ch g) = chosen (ch_budget ch) (g_budget g)"
  "g_revision (apply_changes now ch g) = g_revision g + 1"
  by (simp_all add: apply_changes_def)

lemma chosen_simps [simp]: "chosen None x = x" "chosen (Some y) x = y"
  by (simp_all add: chosen_def)

lemma no_changes_sel [simp]:
  "ch_state no_changes = None" "ch_quiet no_changes = None" "ch_assessment no_changes = None"
  "ch_iteration no_changes = None" "ch_budget no_changes = None"
  by (simp_all add: no_changes_def)

text \<open>Every operation is a refused one, a new goal or one \<open>_update\<close> of the session's row.\<close>

lemma goal_update_get:
  assumes "dict_get G sid = Some g"
  shows "dict_get (snd (goal_update now sid g ch G)) sid' =
    (if sid' = sid then Some (apply_changes now ch g) else dict_get G sid')"
  using assms by (simp add: goal_update_def Let_def)

lemma goal_require_Inr: "goal_require G sid = Inr g \<Longrightarrow> dict_get G sid = Some g \<and> g_state g \<noteq> ClearedGoal"
  by (auto simp: goal_require_def split: option.splits if_splits)

lemma kept_simps [simp]: "kept G (Inl e) = G" "kept G (Inr p) = snd p"
  by (simp_all add: kept_def case_prod_beta)

text \<open>An operation that refuses or makes one \<open>_update\<close> that does not write \<open>achieved\<close>.\<close>

definition plain_update :: "goals \<Rightarrow> string \<Rightarrow> goals \<Rightarrow> bool" where
  "plain_update G sid G' \<longleftrightarrow> G' = G \<or> (\<exists>now g ch. dict_get G sid = Some g \<and> ch_state ch \<noteq> Some Achieved \<and>
     G' = snd (goal_update now sid g ch G))"

lemma plain_same [intro, simp]: "plain_update G sid G"
  by (simp add: plain_update_def)

lemma plain_change [intro]:
  "dict_get G sid = Some g \<Longrightarrow> ch_state ch \<noteq> Some Achieved \<Longrightarrow> plain_update G sid (snd (goal_update now sid g ch G))"
  unfolding plain_update_def by blast

lemma plain_ops:
  "plain_update G sid (kept G (goal_pause now sid why G))"
  "plain_update G sid (kept G (goal_resume now sid G))"
  "plain_update G sid (goal_clear now sid G)"
  "plain_update G sid (kept G (goal_set_budget now sid raw G))"
  "plain_update G sid (kept G (goal_report_op now sid st summary evid remaining G))"
  "plain_update G sid (begin_iteration now sid G)"
  by (auto simp: goal_pause_def goal_resume_def goal_clear_def goal_set_budget_def goal_report_op_def
      begin_iteration_def split: sum.splits option.splits if_splits dest!: goal_require_Inr)

lemma goal_step_cases:
  "(\<exists>sid. plain_update G sid (goal_step x G)) \<or>
   (\<exists>sid g. goal_step x G = dict_set sid g G \<and> g_state g = Pursuing \<and>
      g_revision g = (case dict_get G sid of None \<Rightarrow> 0 | Some c \<Rightarrow> g_revision c) + 1) \<or>
   (\<exists>now sid g oc ch. x = AfterTurn now sid oc \<and> dict_get G sid = Some g \<and>
      fst (after_turn_changes g oc) = Some ch \<and> goal_step x G = snd (goal_update now sid g ch G))"
proof (cases x)
  case (SetGoal new_id now sid objective raw)
  show ?thesis
  proof (cases "goal_set new_id now sid objective raw G")
    case (Inl e)
    then show ?thesis using SetGoal plain_same [of G sid] by auto
  next
    case (Inr r)
    then have "snd r = dict_set sid (fst r) G" "g_state (fst r) = Pursuing"
      "g_revision (fst r) = (case dict_get G sid of None \<Rightarrow> 0 | Some c \<Rightarrow> g_revision c) + 1"
      by (auto simp: goal_set_def Let_def split: if_splits sum.splits)
    then show ?thesis using SetGoal Inr by auto
  qed
next
  case (AfterTurn now sid oc)
  show ?thesis
  proof (cases "dict_get G sid")
    case None
    then show ?thesis using AfterTurn by (auto simp: after_turn_def)
  next
    case (Some g)
    then show ?thesis
      using AfterTurn
      by (cases "after_turn_changes g oc"; cases "fst (after_turn_changes g oc)")
        (auto simp: after_turn_def)
  qed
qed (simp; blast intro: plain_ops)+

text \<open>The revision of a session's goal never decreases.\<close>

definition goal_revision :: "string \<Rightarrow> goals \<Rightarrow> int" where
  "goal_revision sid G = (case dict_get G sid of None \<Rightarrow> 0 | Some g \<Rightarrow> g_revision g)"

interpretation goal_rows: monotone_steps goal_step "goal_revision sid" for sid
proof
  fix G x
  show "goal_revision sid G \<le> goal_revision sid (goal_step x G)"
    using goal_step_cases [of G x] unfolding plain_update_def
    by (elim disjE exE conjE) (simp_all add: goal_revision_def goal_update_get)
qed

section \<open>When a goal ends\<close>

lemma after_turn_achieved:
  assumes "fst (after_turn_changes g oc) = Some ch" and "ch_state ch = Some Achieved"
  shows "g_state g = Pursuing \<and> to_terminal oc \<noteq> ''cancelled'' \<and> to_terminal oc \<noteq> ''failed'' \<and>
    gate_objects oc = None \<and> (\<exists>r. report_of g = Some r \<and> gr_status r = ''achieved'')"
  using assms
  by (auto simp: after_turn_changes_def quiet_or_go_def Let_def no_changes_def
      split: if_splits option.splits)

text \<open>
  C29. A goal becomes achieved in one way only: a turn that neither failed nor was cancelled ended
  a pursued goal, the model reported it achieved in that very iteration, and the verification
  gate did not evaluate the turn or said DONE.
\<close>

theorem achieved_needs_report_and_gate:
  assumes "dict_get (goal_step x G) sid = Some g'" and "g_state g' = Achieved"
    and "dict_get G sid = Some g" and "g_state g \<noteq> Achieved"
  shows "\<exists>now oc r. x = AfterTurn now sid oc \<and> g_state g = Pursuing \<and>
    to_terminal oc \<noteq> ''cancelled'' \<and> to_terminal oc \<noteq> ''failed'' \<and> gate_objects oc = None \<and>
    as_report (g_assessment g) = Some r \<and> gr_status r = ''achieved'' \<and> gr_iteration r = g_iteration g"
proof -
  consider sid2 where "plain_update G sid2 (goal_step x G)"
    | sid2 g2 where "goal_step x G = dict_set sid2 g2 G" "g_state g2 = Pursuing"
    | now sid2 g2 oc ch where "x = AfterTurn now sid2 oc" "dict_get G sid2 = Some g2"
        "fst (after_turn_changes g2 oc) = Some ch" "goal_step x G = snd (goal_update now sid2 g2 ch G)"
    using goal_step_cases [of G x] by blast
  then show ?thesis
  proof cases
    case 1
    with assms show ?thesis
      by (auto simp: plain_update_def goal_update_get chosen_def split: if_splits option.splits)
  next
    case 2
    with assms show ?thesis by (auto split: if_splits)
  next
    case 3
    have eq: "sid2 = sid" "g2 = g" "g' = apply_changes now ch g"
      using assms(1-4) 3 by (auto simp: goal_update_get split: if_splits)
    then have ach: "ch_state ch = Some Achieved"
      using assms(2,4) by (cases "ch_state ch") auto
    from after_turn_achieved [OF 3(3) ach] 3(1) show ?thesis
      by (auto simp: eq report_of_def split: option.splits if_splits)
  qed
qed

text \<open>
  The pursuit: turn after turn, each counted, with the reports of the turn, until a turn says
  stop. The result is the number of turns run.
\<close>

definition run_reports :: "string \<Rightarrow> string \<Rightarrow> (string \<times> string \<times> string \<times> string) list \<Rightarrow> goals \<Rightarrow> goals" where
  "run_reports now sid reports G =
     fold (\<lambda>(st, sm, ev, rem) H. goal_step (ReportGoal now sid st sm ev rem) H) reports G"

fun pursue :: "string \<Rightarrow> string \<Rightarrow> ((string \<times> string \<times> string \<times> string) list \<times> TurnOutcome) list \<Rightarrow> goals \<Rightarrow> nat \<times> goals" where
  "pursue now sid [] G = (0, G)"
| "pursue now sid ((reports, oc) # turns) G =
     (let G1 = begin_iteration now sid G;
          G2 = run_reports now sid reports G1
      in case after_turn now sid oc G2 of
           (go, G3) \<Rightarrow> if go then (let (n, G4) = pursue now sid turns G3 in (Suc n, G4)) else (1, G3))"

lemma report_keeps:
  assumes "dict_get G sid = Some g"
  shows "\<exists>g'. dict_get (goal_step (ReportGoal now sid st sm ev rem) G) sid = Some g' \<and>
    g_iteration g' = g_iteration g \<and> g_budget g' = g_budget g \<and> g_state g' = g_state g"
proof (cases "goal_report_op now sid st sm ev rem G")
  case (Inl e)
  with assms show ?thesis by (simp add: kept_def)
next
  case (Inr r)
  with assms show ?thesis
    by (auto simp: goal_report_op_def goal_require_def goal_update_def Let_def
        split: if_splits sum.splits)
qed

lemma reports_keep:
  assumes "dict_get G sid = Some g"
  shows "\<exists>g'. dict_get (run_reports now sid reports G) sid = Some g' \<and> g_iteration g' = g_iteration g \<and> g_budget g' = g_budget g \<and> g_state g' = g_state g"
  using assms unfolding run_reports_def
proof (induction reports arbitrary: G g)
  case (Cons r rs)
  obtain st sm ev rem where r: "r = (st, sm, ev, rem)" by (cases r)
  obtain g1 where g1: "dict_get (goal_step (ReportGoal now sid st sm ev rem) G) sid = Some g1"
    "g_iteration g1 = g_iteration g" "g_budget g1 = g_budget g" "g_state g1 = g_state g"
    using report_keeps [OF Cons.prems] by blast
  from Cons.IH [OF g1(1)] g1 show ?case by (simp add: r)
qed simp

lemma after_turn_goes_on:
  assumes "dict_get G sid = Some g" and "after_turn now sid oc G = (True, G')"
  shows "g_state g = Pursuing"
    and "\<And>n. b_turns (g_budget g) = Some n \<Longrightarrow> n \<noteq> 0 \<Longrightarrow> g_iteration g < n"
    and "\<exists>g'. dict_get G' sid = Some g' \<and> g_iteration g' = g_iteration g \<and> g_budget g' = g_budget g \<and>
      g_state g' = Pursuing"
proof -
  obtain c go where c: "after_turn_changes g oc = (c, go)" by (cases "after_turn_changes g oc")
  have "c = None \<Longrightarrow> \<not> go"
    using c by (auto simp: after_turn_changes_def quiet_or_go_def Let_def split: if_splits option.splits)
  then obtain ch where ch: "after_turn_changes g oc = (Some ch, True)" "G' = snd (goal_update now sid g ch G)"
    using assms c by (cases c) (auto simp: after_turn_def)
  have facts: "g_state g = Pursuing" "ch_state ch = None" "ch_iteration ch = None" "ch_budget ch = None"
    "goal_exhausted g (g_tokens g + max 0 (to_tokens oc)) (g_seconds g + max 0 (to_seconds oc)) = []"
    using ch(1)
    by (auto simp: after_turn_changes_def quiet_or_go_def Let_def no_changes_def split: if_splits option.splits)
  then show "g_state g = Pursuing" by simp
  show "g_iteration g < n" if "b_turns (g_budget g) = Some n" "n \<noteq> 0" for n
    using facts(5) that by (auto simp: goal_exhausted_def cap_reached_def Let_def split: if_splits)
  show "\<exists>g'. dict_get G' sid = Some g' \<and> g_iteration g' = g_iteration g \<and> g_budget g' = g_budget g \<and>
      g_state g' = Pursuing"
    using assms(1) ch(2) facts by (simp add: goal_update_get)
qed

lemma begin_iteration_get:
  assumes "dict_get G sid = Some g"
  shows "\<exists>g'. dict_get (begin_iteration now sid G) sid = Some g' \<and> g_budget g' = g_budget g \<and>
    g_state g' = g_state g \<and> g_quiet g' = g_quiet g \<and> g_assessment g' = g_assessment g \<and>
    g_iteration g' = (if g_state g = Pursuing then g_iteration g + 1 else g_iteration g)"
  using assms by (simp add: begin_iteration_def goal_update_get)

lemma pursue_capped:
  assumes "dict_get G sid = Some g" and "b_turns (g_budget g) = Some n" and "1 \<le> n"
  shows "int (fst (pursue now sid turns G)) \<le> max 1 (n - g_iteration g)"
  using assms
proof (induction turns arbitrary: G g)
  case (Cons t turns)
  obtain reports oc where t: "t = (reports, oc)" by (cases t)
  obtain g1 where g1: "dict_get (begin_iteration now sid G) sid = Some g1" "g_budget g1 = g_budget g"
      "g_iteration g1 = (if g_state g = Pursuing then g_iteration g + 1 else g_iteration g)" "g_state g1 = g_state g"
    using begin_iteration_get [OF Cons.prems(1)] by blast
  let ?G2 = "run_reports now sid reports (begin_iteration now sid G)"
  obtain g2 where g2: "dict_get ?G2 sid = Some g2" "g_budget g2 = g_budget g"
      "g_iteration g2 = g_iteration g1" "g_state g2 = g_state g"
    using reports_keep [OF g1(1)] g1 by metis
  obtain go G3 where a: "after_turn now sid oc ?G2 = (go, G3)" by (cases "after_turn now sid oc ?G2")
  show ?case
  proof (cases go)
    case True
    note on = after_turn_goes_on [OF g2(1), of now oc G3]
    have i: "g_state g = Pursuing" "g_iteration g + 1 < n"
      using on(1,2) a True Cons.prems g2 g1(3) by auto
    obtain g3 where g3: "dict_get G3 sid = Some g3" "g_iteration g3 = g_iteration g + 1" "g_budget g3 = g_budget g"
      using on(3) a True g2 g1(3) i(1) by auto
    have "int (fst (pursue now sid turns G3)) \<le> max 1 (n - g_iteration g3)"
      using Cons.IH [OF g3(1)] g3(3) Cons.prems by simp
    then show ?thesis using a True i g3(2) by (simp add: t Let_def case_prod_beta)
  next
    case False
    then show ?thesis using a by (simp add: t Let_def)
  qed
qed simp

text \<open>A turn without a report that changed no file.\<close>

definition silent_turn :: "(string \<times> string \<times> string \<times> string) list \<times> TurnOutcome \<Rightarrow> bool" where
  "silent_turn t \<longleftrightarrow> fst t = [] \<and> to_files_changed (snd t) = 0"

definition report_in_past :: "Goal \<Rightarrow> bool" where
  "report_in_past g \<longleftrightarrow> (case as_report (g_assessment g) of None \<Rightarrow> True | Some r \<Rightarrow> gr_iteration r \<le> g_iteration g)"

lemma after_silent_turn:
  assumes "dict_get G sid = Some g" and "report_of g = None" and "to_files_changed oc = 0"
    and "after_turn now sid oc G = (True, G')"
  shows "g_quiet g + 1 < STALL_AFTER \<and> (\<exists>g'. dict_get G' sid = Some g' \<and> g_quiet g' = g_quiet g + 1 \<and>
    as_report (g_assessment g') = as_report (g_assessment g) \<and> g_iteration g' = g_iteration g \<and> g_state g' = Pursuing)"
proof -
  have q: "quiet_after g oc = g_quiet g + 1" using assms(2,3) by (simp add: quiet_after_def)
  obtain c go where c: "after_turn_changes g oc = (c, go)" by (cases "after_turn_changes g oc")
  have st: "g_state g = Pursuing" using after_turn_goes_on(1) [OF assms(1,4)] .
  have "go" using assms(1,4) c by (cases c) (auto simp: after_turn_def)
  with c obtain ch where ch: "c = Some ch" "ch_quiet ch = Some (g_quiet g + 1)" "ch_iteration ch = None" "ch_state ch = None"
      "ch_assessment ch = Some ((g_assessment g)\<lparr>as_signature := Some (turn_signature g oc)\<rparr>)"
      "g_quiet g + 1 < STALL_AFTER"
    using st assms(2) q
    by (auto simp: after_turn_changes_def quiet_or_go_def Let_def no_changes_def split: if_splits)
  with assms(1,4) c st show ?thesis
    by (auto simp: after_turn_def goal_update_get)
qed

lemma pursue_silent:
  assumes "dict_get G sid = Some g" and "list_all silent_turn turns" and "report_in_past g"
  shows "int (fst (pursue now sid turns G)) \<le> max 1 (STALL_AFTER - g_quiet g)"
  using assms
proof (induction turns arbitrary: G g)
  case (Cons t turns)
  have "silent_turn t" and silent: "list_all silent_turn turns" using Cons.prems(2) by simp_all
  then obtain oc where t: "t = ([], oc)" "to_files_changed oc = 0"
    by (cases t) (auto simp: silent_turn_def)
  obtain g1 where g1: "dict_get (begin_iteration now sid G) sid = Some g1" "g_quiet g1 = g_quiet g"
      "g_iteration g1 = (if g_state g = Pursuing then g_iteration g + 1 else g_iteration g)" "g_state g1 = g_state g"
      "g_assessment g1 = g_assessment g"
    using begin_iteration_get [OF Cons.prems(1)] by blast
  obtain go G3 where a: "after_turn now sid oc (begin_iteration now sid G) = (go, G3)"
    by (cases "after_turn now sid oc (begin_iteration now sid G)")
  show ?case
  proof (cases go)
    case True
    then have "g_state g = Pursuing" using after_turn_goes_on(1) [OF g1(1)] a g1(4) by simp
    then have none: "report_of g1 = None"
      using Cons.prems(3) g1 by (auto simp: report_of_def report_in_past_def split: option.splits)
    then obtain g3 where g3: "g_quiet g + 1 < STALL_AFTER" "dict_get G3 sid = Some g3" "g_quiet g3 = g_quiet g + 1"
        "as_report (g_assessment g3) = as_report (g_assessment g)" "g_iteration g3 = g_iteration g1"
      using after_silent_turn [OF g1(1) none t(2)] a True g1 by auto
    have "report_in_past g3"
      using Cons.prems(3) g3 g1(3) by (auto simp: report_in_past_def split: option.splits if_splits)
    from Cons.IH [OF g3(2) silent this] g3 a True show ?thesis
      by (simp add: t Let_def case_prod_beta run_reports_def)
  next
    case False
    then show ?thesis using a by (simp add: t Let_def run_reports_def)
  qed
qed simp


definition sample_goal :: Goal where
  "sample_goal = \<lparr>g_session = ''s'', g_id = ''g'', g_objective = ''ship it'', g_state = Pursuing,
     g_budget = no_budget, g_iteration = 0, g_tokens = 0, g_seconds = 0, g_quiet = 0,
     g_assessment = no_assessment, g_reason = [], g_revision = 1, g_started = [], g_updated = []\<rparr>"

definition idle_turn :: TurnOutcome where
  "idle_turn = \<lparr>to_terminal = ''completed'', to_error_code = [], to_error_message = [], to_gate = None,
     to_tokens = 0, to_seconds = 0, to_files_changed = 0, to_checklist_revision = None\<rparr>"


theorem achieved_needs_report_and_gate_witness:
  "let rep = \<lparr>gr_status = ''achieved'', gr_summary = ''done'', gr_evidence = [], gr_remaining = [], gr_iteration = 0\<rparr>;
       g = sample_goal\<lparr>g_assessment := no_assessment\<lparr>as_report := Some rep\<rparr>\<rparr>
   in g_state g = Pursuing"
proof -
  let ?rep = "\<lparr>gr_status = ''achieved'', gr_summary = ''done'', gr_evidence = [], gr_remaining = [], gr_iteration = 0\<rparr>"
  let ?g = "sample_goal\<lparr>g_assessment := no_assessment\<lparr>as_report := Some ?rep\<rparr>\<rparr>"
  let ?G = "goal_step (AfterTurn [] ''s'' idle_turn) [(''s'', ?g)]"
  have "map_option g_state (dict_get ?G ''s'') = Some Achieved" by code_simp
  then obtain g' where "dict_get ?G ''s'' = Some g'" "g_state g' = Achieved" by auto
  from achieved_needs_report_and_gate [OF this, of ?g] show ?thesis by (simp add: sample_goal_def)
qed

text \<open>
  C34. A goal whose model reports never stalls: a report replaces the assessment without its
  signature, so a turn with a report is never quiet. Six turns with the same report, no file
  changed and the same checklist all go on, where six turns without a report stop after three.
\<close>

theorem repeated_report_never_stalls:
  "(let r = pursue [] ''s'' (replicate 6 ([(''progress'', ''same summary'', [], [])], idle_turn)) [(''s'', sample_goal)] in
      fst r = 6 \<and> map (\<lambda>(k, g). (g_state g, g_quiet g)) (snd r) = [(Pursuing, 0)]) \<and>
   (let r = pursue [] ''s'' (replicate 6 ([], idle_turn)) [(''s'', sample_goal)] in
      fst r = 3 \<and> map (\<lambda>(k, g). (g_state g, g_quiet g)) (snd r) = [(Stalled, 3)])"
  by code_simp

end
