(* ===== verification/Websocket.thy ===== *)
theory Websocket
  imports Rinari_Prelude "HOL-Library.Word"
begin

unbundle bit_operations_syntax

text \<open>
  The WebSocket client of the browser driver (\<^verbatim>\<open>src/src/rinari/browser/ws.py\<close>): building frames,
  reading frames from a socket that delivers bytes in arbitrary pieces, and reassembling
  messages, with the buffers that survive a timeout.

  A byte is an \<^typ>\<open>8 word\<close>. The socket is the list of what will happen on it: bytes arriving, a
  read deadline passing, the peer closing, an error (an empty \<open>Chunk\<close> is nothing happening: the
  empty read of the code is \<open>Eof\<close>). \<open>os.urandom\<close> is an argument, read at the number of frames sent
  so far. \<open>recv\<close> returns the bytes of the message; the code then decodes them as UTF-8. Pongs and
  close frames count as sent whether or not the socket took them, since the code ignores their
  errors. The text of \<open>Frame too large\<close> and \<open>Unsupported message opcode\<close> leaves out the number.
  The HTTP handshake is not modelled.
\<close>

section \<open>Bytes\<close>

type_synonym byte = "8 word"

definition unpack_be :: "byte list \<Rightarrow> nat" where
  "unpack_be bs = foldl (\<lambda>acc b. 256 * acc + unat b) 0 bs"

text \<open>\<open>struct.pack(">H", n)\<close> and \<open>struct.pack(">Q", n)\<close> for \<open>k = 2\<close> and \<open>k = 8\<close>.\<close>

fun pack_be :: "nat \<Rightarrow> nat \<Rightarrow> byte list" where
  "pack_be 0 n = []"
| "pack_be (Suc k) n = pack_be k (n div 256) @ [of_nat (n mod 256)]"

abbreviation OP_CONTINUATION :: byte where "OP_CONTINUATION \<equiv> 0"
abbreviation OP_TEXT :: byte where "OP_TEXT \<equiv> 1"
abbreviation OP_BINARY :: byte where "OP_BINARY \<equiv> 2"
abbreviation OP_CLOSE :: byte where "OP_CLOSE \<equiv> 8"
abbreviation OP_PING :: byte where "OP_PING \<equiv> 9"
abbreviation OP_PONG :: byte where "OP_PONG \<equiv> 10"

abbreviation MAX_MESSAGE_BYTES :: nat where "MAX_MESSAGE_BYTES \<equiv> 8 * 1024 * 1024"

section \<open>Building frames\<close>

definition apply_mask :: "byte list \<Rightarrow> byte list \<Rightarrow> byte list" where
  "apply_mask key bs = map (\<lambda>i. bs ! i XOR key ! (i mod 4)) [0..<length bs]"

definition length_field :: "byte \<Rightarrow> nat \<Rightarrow> byte list" where
  "length_field flag n =
     (if n < 126 then [flag OR of_nat n]
      else if n < 65536 then (flag OR 126) # pack_be 2 n
      else (flag OR 127) # pack_be 8 n)"

definition build_frame :: "byte list \<Rightarrow> byte \<Rightarrow> byte list \<Rightarrow> byte list" where
  "build_frame key opc payload =
     (0x80 OR opc) # length_field 0x80 (length payload) @ key @ apply_mask key payload"

section \<open>Reading frames\<close>

datatype net_event = Chunk "byte list" | Quiet | Eof | NetError

datatype fill_result = FillOk | FillTimeout | FillClosed | FillOsError

text \<open>\<open>_fill\<close>: never takes more bytes off the socket than it needs. Nothing more happening on the
  socket is a timeout.\<close>

fun fill :: "nat \<Rightarrow> byte list \<Rightarrow> net_event list \<Rightarrow> fill_result \<times> byte list \<times> net_event list" where
  "fill n inc [] = (if n \<le> length inc then (FillOk, inc, []) else (FillTimeout, inc, []))"
| "fill n inc (e # es) =
     (if n \<le> length inc then (FillOk, inc, e # es)
      else (case e of
              Quiet \<Rightarrow> (FillTimeout, inc, es)
            | Eof \<Rightarrow> (FillClosed, inc, es)
            | NetError \<Rightarrow> (FillOsError, inc, es)
            | Chunk bs \<Rightarrow>
                (let k = n - length inc in
                 if length bs \<le> k then fill n (inc @ bs) es
                 else (FillOk, inc @ take k bs, Chunk (drop k bs) # es))))"

datatype read_result =
    ReadFrame byte bool "byte list"
  | ReadTimeout
  | ReadClosed
  | ReadOsError
  | ReadProtocol string

definition read_failure :: "fill_result \<Rightarrow> read_result" where
  "read_failure r =
     (case r of FillClosed \<Rightarrow> ReadClosed | FillOsError \<Rightarrow> ReadOsError | _ \<Rightarrow> ReadTimeout)"

text \<open>The part of \<open>_read_frame\<close> after the length is known.\<close>

definition read_payload ::
  "nat \<Rightarrow> byte \<Rightarrow> nat \<Rightarrow> nat \<Rightarrow> byte list \<Rightarrow> net_event list \<Rightarrow> read_result \<times> byte list \<times> net_event list" where
  "read_payload limit b0 offset len inc evs =
     (if limit < len then (ReadProtocol ''Frame too large'', inc, evs)
      else (case fill (offset + len) inc evs of
              (FillOk, inc', evs') \<Rightarrow>
                (ReadFrame (b0 AND 0x0F) (b0 AND 0x80 \<noteq> 0) (take len (drop offset inc')),
                 drop (offset + len) inc', evs')
            | (r, inc', evs') \<Rightarrow> (read_failure r, inc', evs')))"

text \<open>The two longer headers: \<open>n\<close> bytes in all, the length in the bytes after the first two.\<close>

definition read_extended ::
  "nat \<Rightarrow> byte \<Rightarrow> nat \<Rightarrow> byte list \<Rightarrow> net_event list \<Rightarrow> read_result \<times> byte list \<times> net_event list" where
  "read_extended limit b0 n inc evs =
     (case fill n inc evs of
        (FillOk, inc', evs') \<Rightarrow> read_payload limit b0 n (unpack_be (take (n - 2) (drop 2 inc'))) inc' evs'
      | (r, inc', evs') \<Rightarrow> (read_failure r, inc', evs'))"

definition read_frame ::
  "nat \<Rightarrow> byte list \<Rightarrow> net_event list \<Rightarrow> read_result \<times> byte list \<times> net_event list" where
  "read_frame limit inc evs =
     (case fill 2 inc evs of
        (FillOk, inc1, evs1) \<Rightarrow>
          (let b0 = inc1 ! 0; b1 = inc1 ! 1; len = unat (b1 AND 0x7F) in
           if b1 AND 0x80 \<noteq> 0 then (ReadProtocol ''Server frame is masked (RFC 6455 violation)'', inc1, evs1)
           else if len = 126 then read_extended limit b0 4 inc1 evs1
           else if len = 127 then read_extended limit b0 10 inc1 evs1
           else read_payload limit b0 2 len inc1 evs1)
      | (r, inc1, evs1) \<Rightarrow> (read_failure r, inc1, evs1))"

section \<open>Frames on a byte stream\<close>

text \<open>The reference: what a frame is, read off the bytes still to come.\<close>

datatype parsed = Incomplete | Malformed string | Parsed byte bool "byte list" "byte list"

definition parse_payload :: "nat \<Rightarrow> byte \<Rightarrow> nat \<Rightarrow> nat \<Rightarrow> byte list \<Rightarrow> parsed" where
  "parse_payload limit b0 offset len s =
     (if limit < len then Malformed ''Frame too large''
      else if length s < offset + len then Incomplete
      else Parsed (b0 AND 0x0F) (b0 AND 0x80 \<noteq> 0) (take len (drop offset s)) (drop (offset + len) s))"

definition parse_extended :: "nat \<Rightarrow> byte \<Rightarrow> nat \<Rightarrow> byte list \<Rightarrow> parsed" where
  "parse_extended limit b0 n s =
     (if length s < n then Incomplete
      else parse_payload limit b0 n (unpack_be (take (n - 2) (drop 2 s))) s)"

definition parse_frame :: "nat \<Rightarrow> byte list \<Rightarrow> parsed" where
  "parse_frame limit s =
     (if length s < 2 then Incomplete
      else (let b1 = s ! 1; len = unat (b1 AND 0x7F) in
            if b1 AND 0x80 \<noteq> 0 then Malformed ''Server frame is masked (RFC 6455 violation)''
            else if len = 126 then parse_extended limit (s ! 0) 4 s
            else if len = 127 then parse_extended limit (s ! 0) 10 s
            else parse_payload limit (s ! 0) 2 len s))"

fun chunk_bytes :: "net_event \<Rightarrow> byte list" where
  "chunk_bytes (Chunk bs) = bs"
| "chunk_bytes _ = []"

definition stream_of :: "net_event list \<Rightarrow> byte list" where
  "stream_of evs = concat (map chunk_bytes evs)"

lemma stream_simps [simp]:
  "stream_of [] = []" "stream_of (e # es) = chunk_bytes e @ stream_of es"
  by (simp_all add: stream_of_def)

lemma fill_stream:
  assumes "fill n inc evs = (r, inc', evs')"
  shows "inc' @ stream_of evs' = inc @ stream_of evs" and "r = FillOk \<Longrightarrow> n \<le> length inc'"
    and "\<exists>x. inc' = inc @ x"
proof -
  have "inc' @ stream_of evs' = inc @ stream_of evs \<and> (r = FillOk \<longrightarrow> n \<le> length inc') \<and> (\<exists>x. inc' = inc @ x)"
    using assms
  proof (induction evs arbitrary: inc)
    case Nil
    then show ?case by (auto split: if_splits)
  next
    case (Cons e es)
    show ?case
    proof (cases "n \<le> length inc")
      case True
      with Cons.prems show ?thesis by auto
    next
      case False
      show ?thesis
      proof (cases e)
        case (Chunk bs)
        show ?thesis
        proof (cases "length bs \<le> n - length inc")
          case True
          with Cons.prems False Chunk have "fill n (inc @ bs) es = (r, inc', evs')" by simp
          from Cons.IH [OF this] Chunk show ?thesis by auto
        next
          case long: False
          with Cons.prems False Chunk show ?thesis by (auto simp: Let_def)
        qed
      qed (use Cons.prems False in auto)
    qed
  qed
  then show "inc' @ stream_of evs' = inc @ stream_of evs" and "r = FillOk \<Longrightarrow> n \<le> length inc'"
    and "\<exists>x. inc' = inc @ x" by blast+
qed

lemma read_payload_refines:
  assumes "read_payload limit b0 offset len inc evs = (r, inc', evs')"
  shows "case r of
      ReadFrame opc fin p \<Rightarrow>
        parse_payload limit b0 offset len (inc @ stream_of evs) = Parsed opc fin p (inc' @ stream_of evs')
    | ReadProtocol e \<Rightarrow> parse_payload limit b0 offset len (inc @ stream_of evs) = Malformed e
    | _ \<Rightarrow> inc' @ stream_of evs' = inc @ stream_of evs"
proof -
  obtain r1 inc1 evs1 where f: "fill (offset + len) inc evs = (r1, inc1, evs1)"
    by (cases "fill (offset + len) inc evs")
  note fs = fill_stream [OF f]
  show ?thesis
  proof (cases "limit < len")
    case True
    then show ?thesis using assms by (auto simp: read_payload_def parse_payload_def)
  next
    case False
    then show ?thesis
      using assms f fs
      by (cases r1) (auto simp: read_payload_def parse_payload_def read_failure_def fs(1) [symmetric])
  qed
qed

text \<open>What a read of one frame promises about the bytes buffered and still to come.\<close>

definition refines_frame :: "parsed \<Rightarrow> byte list \<Rightarrow> read_result \<times> byte list \<times> net_event list \<Rightarrow> bool" where
  "refines_frame spec s out =
     (case out of (r, inc', evs') \<Rightarrow>
        (case r of
           ReadFrame opc fin p \<Rightarrow> spec = Parsed opc fin p (inc' @ stream_of evs')
         | ReadProtocol e \<Rightarrow> spec = Malformed e
         | _ \<Rightarrow> inc' @ stream_of evs' = s))"

lemma read_payload_refines':
  "s = inc @ stream_of evs \<Longrightarrow>
     refines_frame (parse_payload limit b0 offset len s) s (read_payload limit b0 offset len inc evs)"
  using read_payload_refines [of limit b0 offset len inc evs]
  by (cases "read_payload limit b0 offset len inc evs") (auto simp: refines_frame_def)

lemma fill_failed_refines:
  assumes "fill n inc evs = (r, inc', evs')" and "r \<noteq> FillOk" and "s = inc @ stream_of evs"
  shows "refines_frame spec s (read_failure r, inc', evs')"
  using fill_stream [OF assms(1)] assms(2,3)
  by (cases r) (simp_all add: refines_frame_def read_failure_def)

lemma read_extended_refines:
  assumes "s = inc @ stream_of evs"
  shows "refines_frame (parse_extended limit b0 n s) s (read_extended limit b0 n inc evs)"
proof -
  obtain r2 inc2 evs2 where g: "fill n inc evs = (r2, inc2, evs2)" by (cases "fill n inc evs")
  note s2 = fill_stream [OF g]
  show ?thesis
  proof (cases "r2 = FillOk")
    case True
    then have "n \<le> length inc2" using s2 by simp
    then have "take (n - 2) (drop 2 s) = take (n - 2) (drop 2 inc2)" "\<not> length s < n"
      by (simp_all add: assms s2(1) [symmetric])
    then show ?thesis
      using True g read_payload_refines' [of s inc2 evs2] assms s2(1)
      by (simp add: read_extended_def parse_extended_def)
  next
    case False
    then show ?thesis
      using fill_failed_refines [OF g False] g assms by (cases r2) (simp_all add: read_extended_def)
  qed
qed

lemma read_frame_refines:
  "refines_frame (parse_frame limit (inc @ stream_of evs)) (inc @ stream_of evs) (read_frame limit inc evs)"
proof -
  let ?s = "inc @ stream_of evs"
  obtain r1 inc1 evs1 where f: "fill 2 inc evs = (r1, inc1, evs1)" by (cases "fill 2 inc evs")
  note s1 = fill_stream [OF f]
  show ?thesis
  proof (cases "r1 = FillOk")
    case False
    then show ?thesis
      using fill_failed_refines [OF f] f by (cases r1) (simp_all add: read_frame_def)
  next
    case True
    then have len1: "2 \<le> length inc1" using s1 by simp
    have b: "?s ! 0 = inc1 ! 0" "?s ! 1 = inc1 ! 1" "\<not> length ?s < 2"
      using len1 by (auto simp: s1(1) [symmetric] nth_append)
    have "read_frame limit inc evs =
        (if inc1 ! 1 AND 0x80 \<noteq> 0 then (ReadProtocol ''Server frame is masked (RFC 6455 violation)'', inc1, evs1)
         else if unat (inc1 ! 1 AND 0x7F) = 126 then read_extended limit (inc1 ! 0) 4 inc1 evs1
         else if unat (inc1 ! 1 AND 0x7F) = 127 then read_extended limit (inc1 ! 0) 10 inc1 evs1
         else read_payload limit (inc1 ! 0) 2 (unat (inc1 ! 1 AND 0x7F)) inc1 evs1)"
      using True f by (simp add: read_frame_def Let_def)
    moreover have "parse_frame limit ?s =
        (if inc1 ! 1 AND 0x80 \<noteq> 0 then Malformed ''Server frame is masked (RFC 6455 violation)''
         else if unat (inc1 ! 1 AND 0x7F) = 126 then parse_extended limit (inc1 ! 0) 4 ?s
         else if unat (inc1 ! 1 AND 0x7F) = 127 then parse_extended limit (inc1 ! 0) 10 ?s
         else parse_payload limit (inc1 ! 0) 2 (unat (inc1 ! 1 AND 0x7F)) ?s)"
      using b by (simp only: parse_frame_def Let_def if_False)
    ultimately show ?thesis
      using read_extended_refines [OF s1(1) [symmetric]] read_payload_refines' [OF s1(1) [symmetric]]
      by (simp add: refines_frame_def [of "Malformed e" for e])
  qed
qed

section \<open>Messages\<close>

record ws =
  incoming :: "byte list"
  message :: "byte list"
  message_opcode :: "byte option"
  is_open :: bool
  sent :: "byte list list"

datatype recv_result =
    Message "byte list"
  | PeerClosed
  | WsTimeout
  | WsClosed
  | WsProtocol string

lemma parse_frame_shrinks:
  "parse_frame limit s = Parsed opc fin p rest \<Longrightarrow> length rest < length s"
  by (auto simp: parse_frame_def parse_extended_def parse_payload_def Let_def split: if_splits)

lemma read_frame_shrinks:
  assumes "read_frame limit inc evs = (ReadFrame opc fin p, inc', evs')"
  shows "length inc' + length (stream_of evs') < length inc + length (stream_of evs)"
  using read_frame_refines [of limit inc evs] assms parse_frame_shrinks
  by (fastforce simp: refines_frame_def)

text \<open>The loop of \<open>recv\<close>; it ends because each frame takes bytes off the stream.\<close>

function recv_loop ::
  "(nat \<Rightarrow> byte list) \<Rightarrow> nat \<Rightarrow> ws \<Rightarrow> net_event list \<Rightarrow> recv_result \<times> ws \<times> net_event list" where
  "recv_loop urandom limit w evs =
     (case read_frame limit (incoming w) evs of
        (ReadTimeout, inc, evs') \<Rightarrow> (WsTimeout, w\<lparr>incoming := inc\<rparr>, evs')
      | (ReadClosed, inc, evs') \<Rightarrow> (WsClosed, w\<lparr>incoming := inc, is_open := False\<rparr>, evs')
      | (ReadOsError, inc, evs') \<Rightarrow> (WsClosed, w\<lparr>incoming := inc, is_open := False\<rparr>, evs')
      | (ReadProtocol e, inc, evs') \<Rightarrow> (WsProtocol e, w\<lparr>incoming := inc, is_open := False\<rparr>, evs')
      | (ReadFrame opc fin p, inc, evs') \<Rightarrow>
          (let w1 = w\<lparr>incoming := inc\<rparr> in
           if opc = OP_PING
           then recv_loop urandom limit
                  (w1\<lparr>sent := sent w1 @ [build_frame (urandom (length (sent w1))) OP_PONG p]\<rparr>) evs'
           else if opc = OP_PONG then recv_loop urandom limit w1 evs'
           else if opc = OP_CLOSE
           then (PeerClosed,
                 w1\<lparr>is_open := False,
                    sent := sent w1 @ [build_frame (urandom (length (sent w1))) OP_CLOSE (pack_be 2 1000)]\<rparr>, evs')
           else if message_opcode w1 = None \<and> opc = OP_CONTINUATION
           then (WsProtocol ''Unsolicited continuation frame'', w1\<lparr>is_open := False\<rparr>, evs')
           else if message_opcode w1 \<noteq> None \<and> opc \<noteq> OP_CONTINUATION
           then (WsProtocol ''New message before continuation finished'', w1\<lparr>is_open := False\<rparr>, evs')
           else (let w2 = w1\<lparr>message := message w1 @ p,
                             message_opcode := (if message_opcode w1 = None then Some opc else message_opcode w1)\<rparr> in
                 if limit < length (message w2)
                 then (WsProtocol ''Message exceeds size budget'', w2\<lparr>is_open := False\<rparr>, evs')
                 else if \<not> fin then recv_loop urandom limit w2 evs'
                 else if message_opcode w2 \<noteq> Some OP_TEXT \<and> message_opcode w2 \<noteq> Some OP_BINARY
                 then (WsProtocol ''Unsupported message opcode'', w2, evs')
                 else (Message (message w2), w2\<lparr>message := [], message_opcode := None\<rparr>, evs'))))"
  by pat_completeness auto
termination
proof (relation "measure (\<lambda>(u, l, w, evs). length (incoming w @ stream_of evs))", goal_cases)
  case 1
  show ?case by simp
qed (auto dest: read_frame_shrinks [OF sym])

declare recv_loop.simps [simp del]

definition ws_close :: "(nat \<Rightarrow> byte list) \<Rightarrow> ws \<Rightarrow> ws" where
  "ws_close urandom w =
     (if \<not> is_open w then w
      else w\<lparr>is_open := False,
             sent := sent w @ [build_frame (urandom (length (sent w))) OP_CLOSE (pack_be 2 1000)]\<rparr>)"

definition recv ::
  "(nat \<Rightarrow> byte list) \<Rightarrow> nat \<Rightarrow> ws \<Rightarrow> net_event list \<Rightarrow> recv_result \<times> ws \<times> net_event list" where
  "recv urandom limit w evs =
     (if \<not> is_open w then (WsClosed, w, evs) else recv_loop urandom limit w evs)"

definition send_text :: "(nat \<Rightarrow> byte list) \<Rightarrow> bool \<Rightarrow> ws \<Rightarrow> byte list \<Rightarrow> recv_result + ws" where
  "send_text urandom socket_takes_it w payload =
     (if \<not> is_open w \<or> \<not> socket_takes_it then Inl WsClosed
      else Inr (w\<lparr>sent := sent w @ [build_frame (urandom (length (sent w))) OP_TEXT payload]\<rparr>))"

section \<open>Messages on a byte stream\<close>

text \<open>The reference for \<open>recv\<close>: what the bytes to come mean, given the message so far. \<open>None\<close> is
  that more bytes are needed.\<close>

function stream_recv ::
  "nat \<Rightarrow> byte list \<Rightarrow> byte option \<Rightarrow> byte list \<Rightarrow> (recv_result \<times> byte list) option" where
  "stream_recv limit msg mo s =
     (case parse_frame limit s of
        Incomplete \<Rightarrow> None
      | Malformed e \<Rightarrow> Some (WsProtocol e, s)
      | Parsed opc fin p rest \<Rightarrow>
          if opc = OP_PING \<or> opc = OP_PONG then stream_recv limit msg mo rest
          else if opc = OP_CLOSE then Some (PeerClosed, rest)
          else if mo = None \<and> opc = OP_CONTINUATION
          then Some (WsProtocol ''Unsolicited continuation frame'', rest)
          else if mo \<noteq> None \<and> opc \<noteq> OP_CONTINUATION
          then Some (WsProtocol ''New message before continuation finished'', rest)
          else if limit < length (msg @ p) then Some (WsProtocol ''Message exceeds size budget'', rest)
          else (let mo' = (if mo = None then Some opc else mo) in
                if \<not> fin then stream_recv limit (msg @ p) mo' rest
                else if mo' \<noteq> Some OP_TEXT \<and> mo' \<noteq> Some OP_BINARY
                then Some (WsProtocol ''Unsupported message opcode'', rest)
                else Some (Message (msg @ p), rest)))"
  by pat_completeness auto
termination
  by (relation "measure (\<lambda>(l, m, mo, s). length s)") (auto dest: parse_frame_shrinks)

declare stream_recv.simps [simp del]

definition reference_of :: "nat \<Rightarrow> ws \<Rightarrow> net_event list \<Rightarrow> (recv_result \<times> byte list) option" where
  "reference_of limit w evs =
     stream_recv limit (message w) (message_opcode w) (incoming w @ stream_of evs)"

definition refines_recv ::
  "nat \<Rightarrow> (recv_result \<times> byte list) option \<Rightarrow> recv_result \<times> ws \<times> net_event list \<Rightarrow> bool" where
  "refines_recv limit spec out =
     (case out of (r, w', evs') \<Rightarrow>
        (case r of
           WsTimeout \<Rightarrow> reference_of limit w' evs' = spec
         | WsClosed \<Rightarrow> reference_of limit w' evs' = spec
         | WsProtocol e \<Rightarrow> map_option fst spec = Some r
         | _ \<Rightarrow> spec = Some (r, incoming w' @ stream_of evs')))"

lemma stream_recv_frame:
  assumes "parse_frame limit s = Parsed opc fin p rest"
  shows "opc = OP_PING \<or> opc = OP_PONG \<Longrightarrow> stream_recv limit msg mo s = stream_recv limit msg mo rest"
    and "opc \<noteq> OP_PING \<Longrightarrow> opc \<noteq> OP_PONG \<Longrightarrow> opc \<noteq> OP_CLOSE \<Longrightarrow> (mo = None) \<noteq> (opc = OP_CONTINUATION) \<Longrightarrow>
      \<not> limit < length (msg @ p) \<Longrightarrow> \<not> fin \<Longrightarrow>
      stream_recv limit msg mo s = stream_recv limit (msg @ p) (if mo = None then Some opc else mo) rest"
  using assms by (simp_all add: stream_recv.simps [of limit msg mo s] Let_def)

lemma keep_opcode [simp]:
  "message_opcode w = Some y \<Longrightarrow> w\<lparr>incoming := i, message := m, message_opcode := Some y\<rparr> = w\<lparr>incoming := i, message := m\<rparr>"
  by (cases w) simp

lemma frame_cases [case_names ping pong close more last]:
  fixes opc :: byte and fin :: bool and p :: "byte list" and w :: ws and limit :: nat
  obtains "opc = OP_PING" | "opc = OP_PONG" | "opc = OP_CLOSE"
  | "opc \<noteq> OP_PING" "opc \<noteq> OP_PONG" "opc \<noteq> OP_CLOSE" "(message_opcode w = None) \<noteq> (opc = OP_CONTINUATION)"
    "\<not> limit < length (message w @ p)" "\<not> fin"
  | "opc \<noteq> OP_PING" "opc \<noteq> OP_PONG" "opc \<noteq> OP_CLOSE"
    "(message_opcode w = None) = (opc = OP_CONTINUATION) \<or> limit < length (message w @ p) \<or> fin"
  by argo

lemma recv_loop_refines: "refines_recv limit (reference_of limit w evs) (recv_loop urandom limit w evs)"
proof (induction urandom limit w evs rule: recv_loop.induct)
  case (1 urandom limit w evs)
  let ?s = "incoming w @ stream_of evs"
  obtain r inc evs' where rf: "read_frame limit (incoming w) evs = (r, inc, evs')"
    by (cases "read_frame limit (incoming w) evs")
  note ref = read_frame_refines [of limit "incoming w" evs, unfolded rf refines_frame_def, simplified]
  have spec: "reference_of limit w evs = stream_recv limit (message w) (message_opcode w) ?s"
    by (simp add: reference_of_def)
  show ?case
  proof (cases r)
    case (ReadFrame opc fin p)
    with ref have parsed: "parse_frame limit ?s = Parsed opc fin p (inc @ stream_of evs')" by simp
    note IH = 1 [OF rf [symmetric] ReadFrame refl refl]
    note frame = stream_recv_frame [OF parsed, where msg = "message w" and mo = "message_opcode w"]
    show ?thesis
    proof (cases rule: frame_cases [where opc = opc and fin = fin and p = p and w = w and limit = limit])
      case ping
      with IH(1) rf ReadFrame frame(1) show ?thesis
        by (simp add: recv_loop.simps [of urandom limit w evs] spec reference_of_def Let_def)
    next
      case pong
      with IH(2) rf ReadFrame frame(1) show ?thesis
        by (simp add: recv_loop.simps [of urandom limit w evs] spec reference_of_def Let_def)
    next
      case close
      with rf ReadFrame parsed show ?thesis
        by (simp add: recv_loop.simps [of urandom limit w evs] spec refines_recv_def Let_def
            stream_recv.simps [of limit "message w" "message_opcode w" ?s])
    next
      case more
      with IH(3) rf ReadFrame frame(2) show ?thesis
        by (cases "message_opcode w") (simp_all add: recv_loop.simps [of urandom limit w evs] spec reference_of_def Let_def)
    next
      case last
      with rf ReadFrame parsed show ?thesis
        by (auto simp: recv_loop.simps [of urandom limit w evs] spec refines_recv_def Let_def
            stream_recv.simps [of limit "message w" "message_opcode w" ?s])
    qed
  qed (use rf ref in \<open>auto simp: recv_loop.simps [of urandom limit w evs] refines_recv_def reference_of_def
      stream_recv.simps [of limit "message w" "message_opcode w" ?s]\<close>)
qed

section \<open>A message that has arrived is returned\<close>

fun is_chunk :: "net_event \<Rightarrow> bool" where
  "is_chunk (Chunk bs) = True"
| "is_chunk _ = False"

lemma fill_chunks:
  assumes "list_all is_chunk evs" and "n \<le> length inc + length (stream_of evs)"
  obtains inc' evs' where "fill n inc evs = (FillOk, inc', evs')" "list_all is_chunk evs'"
proof -
  have "\<exists>inc' evs'. fill n inc evs = (FillOk, inc', evs') \<and> list_all is_chunk evs'"
    using assms
  proof (induction evs arbitrary: inc)
    case (Cons e es)
    then obtain bs where "e = Chunk bs" by (cases e) auto
    with Cons.prems Cons.IH [of "inc @ bs"] show ?case by (auto simp: Let_def)
  qed auto
  then show ?thesis using that by blast
qed

lemma fill_chunks':
  assumes "list_all is_chunk evs" and "fill n inc evs = (r, inc', evs')"
  shows "n \<le> length inc + length (stream_of evs) \<Longrightarrow> r = FillOk" and "r = FillOk \<Longrightarrow> list_all is_chunk evs'"
  using fill_chunks [OF assms(1), of n inc] fill_stream [OF assms(2)] assms(2)
  by (force, metis fill_chunks assms(1) fill_stream(1,2) length_append le_add1 le_trans prod.inject)

definition delivered :: "read_result \<times> byte list \<times> net_event list \<Rightarrow> bool" where
  "delivered out = (case out of (r, inc', evs') \<Rightarrow>
     (case r of ReadFrame opc fin p \<Rightarrow> list_all is_chunk evs' | ReadProtocol e \<Rightarrow> True | _ \<Rightarrow> False))"

lemma read_payload_delivered:
  assumes "list_all is_chunk evs" and "parse_payload limit b0 offset len (inc @ stream_of evs) \<noteq> Incomplete"
  shows "delivered (read_payload limit b0 offset len inc evs)"
proof (cases "limit < len")
  case True
  then show ?thesis by (simp add: read_payload_def delivered_def)
next
  case False
  with assms(2) have "offset + len \<le> length inc + length (stream_of evs)"
    by (auto simp: parse_payload_def split: if_splits)
  then obtain inc' evs' where "fill (offset + len) inc evs = (FillOk, inc', evs')" "list_all is_chunk evs'"
    by (rule fill_chunks [OF assms(1)])
  with False show ?thesis by (simp add: read_payload_def delivered_def)
qed

lemma read_extended_delivered:
  assumes "list_all is_chunk evs" and "parse_extended limit b0 n (inc @ stream_of evs) \<noteq> Incomplete"
  shows "delivered (read_extended limit b0 n inc evs)"
proof -
  let ?s = "inc @ stream_of evs"
  have n: "n \<le> length inc + length (stream_of evs)"
    using assms(2) by (auto simp: parse_extended_def split: if_splits)
  obtain inc2 evs2 where f: "fill n inc evs = (FillOk, inc2, evs2)" and ch: "list_all is_chunk evs2"
    by (rule fill_chunks [OF assms(1) n])
  note s2 = fill_stream [OF f]
  have "take (n - 2) (drop 2 ?s) = take (n - 2) (drop 2 inc2)"
    using s2(2) by (simp add: s2(1) [symmetric])
  then have "parse_payload limit b0 n (unpack_be (take (n - 2) (drop 2 inc2))) (inc2 @ stream_of evs2) \<noteq> Incomplete"
    using assms(2) n s2(1) by (simp add: parse_extended_def)
  from read_payload_delivered [OF ch this] f show ?thesis by (simp add: read_extended_def)
qed

lemma read_frame_delivered:
  assumes "list_all is_chunk evs" and "parse_frame limit (inc @ stream_of evs) \<noteq> Incomplete"
  shows "delivered (read_frame limit inc evs)"
proof -
  let ?s = "inc @ stream_of evs"
  have n: "2 \<le> length inc + length (stream_of evs)"
    using assms(2) by (auto simp: parse_frame_def split: if_splits)
  obtain inc1 evs1 where f: "fill 2 inc evs = (FillOk, inc1, evs1)" and ch: "list_all is_chunk evs1"
    by (rule fill_chunks [OF assms(1) n])
  note s1 = fill_stream [OF f]
  have b: "(inc1 @ stream_of evs1) ! 0 = inc1 ! 0" "(inc1 @ stream_of evs1) ! Suc 0 = inc1 ! Suc 0"
    using s1(2) by (auto simp: nth_append)
  have "parse_frame limit (inc1 @ stream_of evs1) \<noteq> Incomplete" using assms(2) s1(1) by simp
  then show ?thesis
    using read_extended_delivered [OF ch] read_payload_delivered [OF ch] f
    by (auto simp: read_frame_def parse_frame_def Let_def b delivered_def [of "(ReadProtocol e, inc, evs)" for e inc evs]
        split: if_splits)
qed

lemma recv_loop_delivered:
  assumes "list_all is_chunk evs" and "reference_of limit w evs \<noteq> None"
  shows "fst (recv_loop urandom limit w evs) \<noteq> WsTimeout \<and> fst (recv_loop urandom limit w evs) \<noteq> WsClosed"
  using assms
proof (induction urandom limit w evs rule: recv_loop.induct)
  case (1 urandom limit w evs)
  let ?s = "incoming w @ stream_of evs"
  obtain r inc evs' where rf: "read_frame limit (incoming w) evs = (r, inc, evs')"
    by (cases "read_frame limit (incoming w) evs")
  note ref = read_frame_refines [of limit "incoming w" evs, unfolded rf refines_frame_def, simplified]
  have some: "stream_recv limit (message w) (message_opcode w) ?s \<noteq> None"
    using 1(5) by (simp add: reference_of_def)
  then have "parse_frame limit ?s \<noteq> Incomplete"
    by (auto simp: stream_recv.simps [of limit "message w" "message_opcode w" ?s])
  from read_frame_delivered [OF 1(4) this] rf
  have del: "delivered (r, inc, evs')" by simp
  show ?case
  proof (cases r)
    case (ReadFrame opc fin p)
    with del have ch: "list_all is_chunk evs'" by (simp add: delivered_def)
    from ReadFrame ref have parsed: "parse_frame limit ?s = Parsed opc fin p (inc @ stream_of evs')" by simp
    note IH = 1(1-3) [OF rf [symmetric] ReadFrame refl refl]
    note frame = stream_recv_frame [OF parsed, where msg = "message w" and mo = "message_opcode w"]
    show ?thesis
    proof (cases rule: frame_cases [where opc = opc and fin = fin and p = p and w = w and limit = limit])
      case ping
      with IH(1) ch rf ReadFrame frame(1) some show ?thesis
        by (simp add: recv_loop.simps [of urandom limit w evs] reference_of_def Let_def)
    next
      case pong
      with IH(2) ch rf ReadFrame frame(1) some show ?thesis
        by (simp add: recv_loop.simps [of urandom limit w evs] reference_of_def Let_def)
    next
      case close
      with rf ReadFrame show ?thesis
        by (simp add: recv_loop.simps [of urandom limit w evs] Let_def)
    next
      case more
      with IH(3) ch rf ReadFrame frame(2) some show ?thesis
        by (cases "message_opcode w") (simp_all add: recv_loop.simps [of urandom limit w evs] reference_of_def Let_def)
    next
      case last
      with rf ReadFrame show ?thesis
        by (auto simp: recv_loop.simps [of urandom limit w evs] Let_def)
    qed
  qed (use rf del in \<open>auto simp: recv_loop.simps [of urandom limit w evs] delivered_def\<close>)
qed

text \<open>C31. Receiving refines reading messages off the byte stream: however the socket cuts the
  stream into pieces, a returned message (or a close, or a protocol error) is the one the stream
  holds and leaves the rest of the stream to be read; a timeout or a lost connection leaves what
  was buffered so that nothing of the stream is lost. And when the bytes of the message have
  arrived, \<open>recv\<close> returns it: it neither times out nor waits for more.\<close>

theorem recv_refines_stream:
  assumes "is_open w"
  shows "refines_recv limit (reference_of limit w evs) (recv urandom limit w evs) \<and>
    (list_all is_chunk evs \<longrightarrow> reference_of limit w evs \<noteq> None \<longrightarrow>
       map_option fst (reference_of limit w evs) = Some (fst (recv urandom limit w evs)))"
proof (intro conjI impI)
  show ref: "refines_recv limit (reference_of limit w evs) (recv urandom limit w evs)"
    using recv_loop_refines assms by (simp add: recv_def)
  assume "list_all is_chunk evs" "reference_of limit w evs \<noteq> None"
  from recv_loop_delivered [OF this, of urandom]
  show "map_option fst (reference_of limit w evs) = Some (fst (recv urandom limit w evs))"
    using ref assms by (cases "recv urandom limit w evs"; cases "fst (recv urandom limit w evs)")
      (auto simp: refines_recv_def recv_def)
qed

definition hello_ws :: ws where
  "hello_ws = \<lparr>incoming = [1], message = [], message_opcode = None, is_open = True, sent = []\<rparr>"

definition hello_events :: "net_event list" where
  "hello_events = [Chunk [2, 72], Chunk [69, 0x80, 1], Chunk [76]]"

theorem recv_refines_stream_witness:
  "reference_of 100 hello_ws hello_events = Some (Message [72, 69, 76], []) \<and>
   fst (recv (\<lambda>n. [0, 0, 0, 0]) 100 hello_ws hello_events) = Message [72, 69, 76]"
proof -
  have s: "reference_of 100 hello_ws hello_events = Some (Message [72, 69, 76], [])"
    by code_simp
  moreover have "is_open hello_ws" "list_all is_chunk hello_events" by code_simp+
  ultimately show ?thesis
    using recv_refines_stream [of hello_ws 100 hello_events "\<lambda>n. [0, 0, 0, 0]"] by simp
qed

section \<open>The buffers stay bounded\<close>

lemma fill_bound: "fill n inc evs = (r, inc', evs') \<Longrightarrow> length inc' \<le> max n (length inc)"
  by (induction n inc evs rule: fill.induct) (auto simp: Let_def split: if_splits net_event.splits)

lemma read_payload_bound:
  "read_payload limit b0 offset len inc evs = (r, inc', evs') \<Longrightarrow>
     length inc' \<le> max (offset + limit) (length inc)"
  using fill_bound [of "offset + len" inc evs]
  by (cases "fill (offset + len) inc evs"; cases "fst (fill (offset + len) inc evs)")
     (auto simp: read_payload_def split: if_splits)

lemma read_extended_bound:
  "read_extended limit b0 n inc evs = (r, inc', evs') \<Longrightarrow> length inc' \<le> max (n + limit) (length inc)"
  using fill_bound [of n inc evs] read_payload_bound [of limit b0 n]
  by (cases "fill n inc evs"; cases "fst (fill n inc evs)") (fastforce simp: read_extended_def)+

lemma read_frame_bound:
  assumes "read_frame limit inc evs = (r, inc', evs')"
  shows "length inc' \<le> max (10 + limit) (length inc)"
proof -
  obtain r1 inc1 evs1 where f: "fill 2 inc evs = (r1, inc1, evs1)" by (cases "fill 2 inc evs")
  have i1: "length inc1 \<le> max 2 (length inc)" by (rule fill_bound [OF f])
  have ext: "length inc' \<le> max (10 + limit) (length inc)"
    if "read_extended limit b0 n inc1 evs1 = (r, inc', evs')" "n \<le> 10" for b0 n
    using read_extended_bound [OF that(1)] that(2) i1 by simp
  have pay: "length inc' \<le> max (10 + limit) (length inc)"
    if "read_payload limit b0 2 len inc1 evs1 = (r, inc', evs')" for b0 len
    using read_payload_bound [OF that] i1 by simp
  show ?thesis
  proof (cases "r1 = FillOk")
    case True
    with assms f ext pay i1 show ?thesis
      by (simp add: read_frame_def Let_def split: if_splits) 
  next
    case False
    with assms f i1 show ?thesis by (cases r1) (auto simp: read_frame_def)
  qed
qed

definition buffers_bounded :: "nat \<Rightarrow> ws \<Rightarrow> bool" where
  "buffers_bounded limit w =
     (length (incoming w) \<le> limit + 10 \<and> length (message w) \<le> (if is_open w then limit else 2 * limit))"

lemma parse_frame_payload:
  "parse_frame limit s = Parsed opc fin p rest \<Longrightarrow> length p \<le> limit"
  by (auto simp: parse_frame_def parse_extended_def parse_payload_def Let_def split: if_splits)

lemma read_frame_payload:
  "read_frame limit inc evs = (ReadFrame opc fin p, inc', evs') \<Longrightarrow> length p \<le> limit"
  using read_frame_refines [of limit inc evs] parse_frame_payload by (fastforce simp: refines_frame_def)

definition message_bounded :: "nat \<Rightarrow> recv_result \<Rightarrow> bool" where
  "message_bounded limit r = (case r of Message m \<Rightarrow> length m \<le> limit | _ \<Rightarrow> True)"

lemma recv_loop_bounded:
  assumes "length (incoming w) \<le> limit + 10" "length (message w) \<le> limit"
    and "recv_loop urandom limit w evs = (r, w', evs')" and "is_open w"
  shows "buffers_bounded limit w' \<and> message_bounded limit r"
  using assms
proof (induction urandom limit w evs rule: recv_loop.induct)
  case (1 urandom limit w evs)
  obtain rr inc es where rf: "read_frame limit (incoming w) evs = (rr, inc, es)"
    by (cases "read_frame limit (incoming w) evs")
  have inc: "length inc \<le> limit + 10" using read_frame_bound [OF rf] 1(4) by simp
  show ?case
  proof (cases rr)
    case (ReadFrame opc fin p)
    have p: "length p \<le> limit" using read_frame_payload rf ReadFrame by blast
    note IH = 1(1-3) [OF rf [symmetric] ReadFrame refl refl]
    note run = 1(6) [unfolded recv_loop.simps [of urandom limit w evs] rf ReadFrame, simplified]
    show ?thesis
    proof (cases rule: frame_cases [where opc = opc and fin = fin and p = p and w = w and limit = limit])
      case ping
      with IH(1) run inc 1(5,7) show ?thesis by (simp add: Let_def)
    next
      case pong
      with IH(2) run inc 1(5,7) show ?thesis by (simp add: Let_def)
    next
      case close
      with run inc 1(5) show ?thesis by (auto simp: Let_def buffers_bounded_def message_bounded_def)
    next
      case more
      with IH(3) run inc 1(5,7) show ?thesis
        by (cases "message_opcode w") (simp_all add: Let_def)
    next
      case last
      with run inc p 1(5,7) show ?thesis
        by (auto simp: Let_def buffers_bounded_def message_bounded_def split: if_splits)
    qed
  qed (use 1(5-7) inc rf in \<open>auto simp: recv_loop.simps [of urandom limit w evs] buffers_bounded_def
      message_bounded_def\<close>)
qed

text \<open>Memory stays bounded by the message limit whatever the peer sends: \<open>recv\<close> keeps at most
  one frame of it and its header buffered, at most the limit of an unfinished message (twice that
  when the connection has just been given up), and returns no message longer than the limit.\<close>

theorem recv_bounded:
  assumes "buffers_bounded limit w" and "recv urandom limit w evs = (r, w', evs')"
  shows "buffers_bounded limit w' \<and> message_bounded limit r"
proof (cases "is_open w")
  case True
  with assms recv_loop_bounded [of w limit urandom evs r w' evs'] show ?thesis
    by (simp add: recv_def buffers_bounded_def)
next
  case False
  with assms show ?thesis by (auto simp: recv_def message_bounded_def)
qed

theorem recv_bounded_witness:
  "buffers_bounded 2 (fst (snd (recv (\<lambda>n. [0, 0, 0, 0]) 2 hello_ws hello_events)))"
  using recv_bounded [of 2 hello_ws "\<lambda>n. [0, 0, 0, 0]" hello_events]
  by (cases "recv (\<lambda>n. [0, 0, 0, 0]) 2 hello_ws hello_events") (simp add: buffers_bounded_def hello_ws_def)

section \<open>What is sent is what a server reads\<close>

lemma length_pack_be [simp]: "length (pack_be k n) = k"
  by (induction k arbitrary: n) auto

lemma unpack_snoc: "unpack_be (bs @ [b]) = 256 * unpack_be bs + unat b"
  by (simp add: unpack_be_def)

lemma unpack_pack [simp]: "n < 256 ^ k \<Longrightarrow> unpack_be (pack_be k n) = n"
proof (induction k arbitrary: n)
  case 0
  then show ?case by (simp add: unpack_be_def)
next
  case (Suc k)
  have "n div 256 < 256 ^ k" using Suc.prems by (simp add: less_mult_imp_div_less mult.commute)
  with Suc.IH show ?case by (simp add: unpack_snoc unat_of_nat)
qed

lemma length_apply_mask [simp]: "length (apply_mask key bs) = length bs"
  by (simp add: apply_mask_def)

lemma apply_mask_twice [simp]: "apply_mask key (apply_mask key bs) = bs"
  by (rule nth_equalityI) (simp_all add: apply_mask_def xor.assoc)

lemma top_set: "(0x80 OR x :: byte) AND 0x80 = 0x80"
  by (simp add: bit.conj_disj_distrib2)

lemma low_opcode: "x AND 0x0F = x \<Longrightarrow> (0x80 OR x :: byte) AND 0x0F = x"
  by (simp add: bit.conj_disj_distrib2)

lemma low_bits:
  assumes "n < 128"
  shows "unat ((0x80 OR of_nat n :: byte) AND 0x7F) = n"
proof -
  have m: "(0x7F :: byte) = mask 7" by (simp add: mask_eq_exp_minus_1)
  have "(0x80 OR of_nat n :: byte) AND 0x7F = take_bit 7 (of_nat n)"
    by (simp add: m bit.conj_disj_distrib2 flip: take_bit_eq_mask)
  moreover have "unat (take_bit 7 (of_nat n :: byte)) = n"
    using assms by (simp add: unsigned_take_bit_eq unsigned_of_nat) (simp add: take_bit_eq_mod)
  ultimately show ?thesis by simp
qed

definition server_payload :: "byte \<Rightarrow> nat \<Rightarrow> byte list \<Rightarrow> (byte \<times> bool \<times> byte list \<times> byte list) option" where
  "server_payload b0 len s =
     (if length s < 4 + len then None
      else Some (b0 AND 0x0F, b0 AND 0x80 \<noteq> 0, apply_mask (take 4 s) (take len (drop 4 s)), drop (4 + len) s))"

definition server_read :: "byte list \<Rightarrow> (byte \<times> bool \<times> byte list \<times> byte list) option" where
  "server_read s =
     (case s of
        b0 # b1 # body \<Rightarrow>
          if b1 AND 0x80 = 0 then None
          else (let len = unat (b1 AND 0x7F) in
                if len = 126 then server_payload b0 (unpack_be (take 2 body)) (drop 2 body)
                else if len = 127 then server_payload b0 (unpack_be (take 8 body)) (drop 8 body)
                else server_payload b0 len body)
      | _ \<Rightarrow> None)"

lemma server_payload_mask:
  "length key = 4 \<Longrightarrow> server_payload b0 (length p) (key @ apply_mask key p @ rest) = Some (b0 AND 0x0F, b0 AND 0x80 \<noteq> 0, p, rest)"
  by (simp add: server_payload_def)


text \<open>C32. A server that reads a frame as RFC 6455 has it gets back what was sent: of the bytes
  built for an opcode and a payload, with any key and whatever follows, it reads the opcode, the
  final bit, the unmasked payload and the bytes that follow. This holds for the short, the
  two-byte and the eight-byte length.\<close>

theorem build_frame_read_back:
  assumes "length key = 4" and "opc AND 0x0F = opc" and "length p < 2 ^ 64"
  shows "server_read (build_frame key opc p @ rest) = Some (opc, True, p, rest)"
proof -
  let ?b0 = "0x80 OR opc"
  note pay = server_payload_mask [OF assms(1), of ?b0 p rest]
  have b0: "?b0 AND 0x0F = opc" "?b0 AND 0x80 \<noteq> 0" using low_opcode [OF assms(2)] top_set by simp_all
  consider "length p < 126" | "126 \<le> length p" "length p < 65536" | "65536 \<le> length p" by linarith
  then show ?thesis
  proof cases
    case 1
    then show ?thesis
      using pay b0 low_bits [of "length p"]
      by (simp add: build_frame_def length_field_def server_read_def top_set Let_def)
  next
    case 2
    then show ?thesis
      using pay b0 by (simp add: build_frame_def length_field_def server_read_def Let_def)
  next
    case 3
    then show ?thesis
      using pay b0 assms(3) by (simp add: build_frame_def length_field_def server_read_def Let_def)
  qed
qed

theorem build_frame_read_back_witness:
  "server_read (build_frame [1, 2, 3, 4] OP_TEXT (replicate 300 7) @ [9]) = Some (OP_TEXT, True, replicate 300 7, [9])"
  by (rule build_frame_read_back) simp_all

section \<open>After an unsupported opcode\<close>

text \<open>A finished message with a reserved opcode raises outside the \<open>try\<close>: the connection stays
  open and the message state is kept, so the next, well-formed text frame is refused and only then
  is the connection given up.\<close>

definition odd_events :: "net_event list" where
  "odd_events = [Chunk [0x83, 1, 7, 0x81, 1, 65]]"

definition fresh_ws :: ws where
  "fresh_ws = \<lparr>incoming = [], message = [], message_opcode = None, is_open = True, sent = []\<rparr>"

theorem unsupported_opcode_poisons:
  "(case recv (\<lambda>n. [0, 0, 0, 0]) 100 fresh_ws odd_events of
      (r, w, evs) \<Rightarrow> r = WsProtocol ''Unsupported message opcode'' \<and> is_open w \<and>
        fst (recv (\<lambda>n. [0, 0, 0, 0]) 100 w evs) = WsProtocol ''New message before continuation finished'')"
  by code_simp

end
