(* ===== verification/Turn_Control.thy ===== *)
theory Turn_Control
  imports Rinari_Prelude "HOL-Library.Multiset"
begin

text \<open>
  What steers one automatic turn from the side: the grouping of a response's tool calls
  (\<^verbatim>\<open>src/src/rinari/tools/scheduler.py\<close>), the cancellation token (\<^verbatim>\<open>runtime/cancellation.py\<close>), the
  progress monitor (\<^verbatim>\<open>runtime/progress.py\<close>) and the turn governor (\<^verbatim>\<open>runtime/governor.py\<close>).

  A tool's \<open>classify_actions\<close> is part of the tool (\<open>None\<close> when it raises); the digest of a call
  and its result (SHA-256 of its JSON) is a parameter. The token is shared by threads: its
  methods are split at the lock, and the threads' steps interleave.
\<close>

section \<open>Grouping tool calls\<close>

record 'a tool =
  concurrency :: string
  side_effects :: string
  idempotent :: bool
  classify_actions :: "'a \<Rightarrow> string list option"

abbreviation SIDE_EFFECT_NONE :: string where "SIDE_EFFECT_NONE \<equiv> ''none''"

definition is_parallelizable :: "'a tool \<Rightarrow> 'a \<Rightarrow> bool" where
  "is_parallelizable t arguments =
     (if concurrency t \<noteq> ''local-read'' then False
      else if side_effects t \<noteq> SIDE_EFFECT_NONE then False
      else if \<not> idempotent t then False
      else (case classify_actions t arguments of
              None \<Rightarrow> False
            | Some capabilities \<Rightarrow> list_all (\<lambda>c. c \<noteq> ''network.outbound'') capabilities))"

text \<open>\<open>arguments[index]\<close> raises past the end of the list (\<open>None\<close> here), and is read only for a
  tool the registry knows. \<open>no_arguments\<close> is the empty dictionary.\<close>

definition parallel_call ::
  "(string \<Rightarrow> 'a tool option) \<Rightarrow> 'a \<Rightarrow> 'a list option \<Rightarrow> nat \<Rightarrow> string \<Rightarrow> bool option" where
  "parallel_call registry no_arguments arguments index name =
     (case registry name of
        None \<Rightarrow> Some False
      | Some t \<Rightarrow>
          (case arguments of
             None \<Rightarrow> Some (is_parallelizable t no_arguments)
           | Some xs \<Rightarrow> if index < length xs then Some (is_parallelizable t (xs ! index)) else None))"

fun schedule_loop ::
  "(string \<Rightarrow> 'a tool option) \<Rightarrow> 'a \<Rightarrow> 'a list option \<Rightarrow> nat \<Rightarrow> string list list \<Rightarrow> string list \<Rightarrow>
     string list \<Rightarrow> string list list option" where
  "schedule_loop registry no_arguments arguments index groups current [] =
     Some (if current \<noteq> [] then groups @ [current] else groups)"
| "schedule_loop registry no_arguments arguments index groups current (name # names) =
     (case parallel_call registry no_arguments arguments index name of
        None \<Rightarrow> None
      | Some True \<Rightarrow>
          schedule_loop registry no_arguments arguments (Suc index) groups (current @ [name]) names
      | Some False \<Rightarrow>
          schedule_loop registry no_arguments arguments (Suc index)
            ((if current \<noteq> [] then groups @ [current] else groups) @ [[name]]) [] names)"

definition schedule ::
  "string list \<Rightarrow> (string \<Rightarrow> 'a tool option) \<Rightarrow> 'a \<Rightarrow> 'a list option \<Rightarrow> string list list option" where
  "schedule names registry no_arguments arguments =
     schedule_loop registry no_arguments arguments 0 [] [] names"

text \<open>The reference: the maximal runs of parallel calls, every other call alone.\<close>

function runs_of :: "(string \<times> bool) list \<Rightarrow> string list list" where
  "runs_of [] = []"
| "runs_of ((x, par) # rest) =
     (if \<not> par then [x] # runs_of rest
      else (x # map fst (takeWhile snd rest)) # runs_of (dropWhile snd rest))"
  by pat_completeness auto
termination
  by (relation "measure length") (auto simp: le_imp_less_Suc length_dropWhile_le)

definition call_flags ::
  "string list \<Rightarrow> (string \<Rightarrow> 'a tool option) \<Rightarrow> 'a \<Rightarrow> 'a list option \<Rightarrow> bool option list" where
  "call_flags names registry no_arguments arguments =
     map (\<lambda>i. parallel_call registry no_arguments arguments i (names ! i)) [0..<length names]"

definition flags_from ::
  "nat \<Rightarrow> string list \<Rightarrow> (string \<Rightarrow> 'a tool option) \<Rightarrow> 'a \<Rightarrow> 'a list option \<Rightarrow> bool option list" where
  "flags_from k names registry no_arguments arguments =
     map (\<lambda>i. parallel_call registry no_arguments arguments (k + i) (names ! i)) [0..<length names]"

lemma flags_from_Cons:
  "flags_from k (name # names) registry na arguments =
     parallel_call registry na arguments k name # flags_from (Suc k) names registry na arguments"
  by (rule nth_equalityI) (auto simp: flags_from_def nth_Cons' simp del: upt_Suc)

lemma dropWhile_everything [simp]: "dropWhile (\<lambda>x. True) xs = []"
  by (induction xs) auto

lemma runs_pending:
  "runs_of (map (\<lambda>x. (x, True)) cur @ (y, False) # rest) = (if cur = [] then [] else [cur]) @ [y] # runs_of rest"
  by (cases cur) (simp_all add: takeWhile_append dropWhile_append comp_def)

lemma runs_pending_end: "runs_of (map (\<lambda>x. (x, True)) cur) = (if cur = [] then [] else [cur])"
  by (cases cur) (simp_all add: takeWhile_map dropWhile_map comp_def)

lemma concat_runs: "concat (runs_of xs) = map fst xs"
  by (induction xs rule: runs_of.induct) (simp_all flip: map_append)

lemma schedule_loop_runs:
  "schedule_loop registry na arguments k groups cur names =
     (let flags = flags_from k names registry na arguments in
      if None \<in> set flags then None
      else Some (groups @ runs_of (map (\<lambda>x. (x, True)) cur @ zip names (map the flags))))"
proof (induction names arbitrary: k groups cur)
  case Nil
  show ?case by (simp add: flags_from_def runs_pending_end)
next
  case (Cons name names)
  have "map (\<lambda>x. (x, True)) cur @ (name, True) # xs = map (\<lambda>x. (x, True)) (cur @ [name]) @ xs" for xs
    by simp
  then show ?case
    by (cases "parallel_call registry na arguments k name" rule: option.exhaust)
      (auto simp: Cons.IH Let_def flags_from_Cons runs_pending split: bool.splits)
qed

text \<open>The tool calls of a response are grouped into the maximal runs of parallelizable calls,
  every other call alone; the groups together are the calls in the order the model made them.
  Grouping raises exactly when a known tool has no arguments at its index.\<close>

theorem schedule_is_maximal_runs:
  "(let flags = call_flags names registry na arguments; calls = zip names (map the flags) in
    schedule names registry na arguments = (if None \<in> set flags then None else Some (runs_of calls)) \<and>
    concat (runs_of calls) = names)"
proof -
  have "flags_from 0 names registry na arguments = call_flags names registry na arguments"
    by (simp add: flags_from_def call_flags_def)
  moreover have "map fst (zip names (map the (call_flags names registry na arguments))) = names"
    by (simp add: call_flags_def)
  ultimately show ?thesis
    using schedule_loop_runs [of registry na arguments 0 "[]" "[]" names]
    by (simp add: schedule_def Let_def concat_runs)
qed

section \<open>Cancellation\<close>

record 'c token =
  cancelled :: bool
  callbacks :: "'c list"

text \<open>The part of each method under the lock: what the calling thread fires afterwards, and the
  token.\<close>

definition on_cancel :: "'c \<Rightarrow> 'c token \<Rightarrow> 'c list \<times> 'c token" where
  "on_cancel callback t =
     (if cancelled t then ([callback], t) else ([], t\<lparr>callbacks := callbacks t @ [callback]\<rparr>))"

definition remove_callback :: "'c \<Rightarrow> 'c token \<Rightarrow> 'c token" where
  "remove_callback callback t = t\<lparr>callbacks := remove1 callback (callbacks t)\<rparr>"

definition cancel :: "'c token \<Rightarrow> 'c list \<times> 'c token" where
  "cancel t = (callbacks t, t\<lparr>cancelled := True, callbacks := []\<rparr>)"

definition reset :: "'c token \<Rightarrow> 'c token" where
  "reset t = t\<lparr>cancelled := False\<rparr>"

definition throw_if_cancelled :: "'c token \<Rightarrow> string + unit" where
  "throw_if_cancelled t = (if cancelled t then Inl ''Operation cancelled'' else Inr ())"

definition fresh_token :: "'c token" where
  "fresh_token = \<lparr>cancelled = False, callbacks = []\<rparr>"

text \<open>Threads and the token they share. \<open>firing\<close> holds, for every call that left the lock, the
  callbacks it still has to run; \<open>fired\<close> is what ran. \<open>registered\<close> and \<open>removed\<close> record the calls
  of \<open>on_cancel\<close> and the removals that found their callback.\<close>

record 'c shared =
  token_of :: "'c token"
  firing :: "'c list list"
  fired :: "'c list"
  registered :: "'c list"
  removed :: "'c list"

definition initial :: "'c shared" where
  "initial = \<lparr>token_of = fresh_token, firing = [], fired = [], registered = [], removed = []\<rparr>"

inductive shared_step :: "'c shared \<Rightarrow> 'c shared \<Rightarrow> bool" where
  register: "on_cancel c (token_of s) = (todo, t) \<Longrightarrow>
    shared_step s (s\<lparr>token_of := t, firing := firing s @ [todo], registered := registered s @ [c]\<rparr>)"
| unregister: "c \<in> set (callbacks (token_of s)) \<Longrightarrow>
    shared_step s (s\<lparr>token_of := remove_callback c (token_of s), removed := removed s @ [c]\<rparr>)"
| unregister_absent: "c \<notin> set (callbacks (token_of s)) \<Longrightarrow>
    shared_step s (s\<lparr>token_of := remove_callback c (token_of s)\<rparr>)"
| cancelling: "cancel (token_of s) = (todo, t) \<Longrightarrow>
    shared_step s (s\<lparr>token_of := t, firing := firing s @ [todo]\<rparr>)"
| resetting: "shared_step s (s\<lparr>token_of := reset (token_of s)\<rparr>)"
| fire: "i < length (firing s) \<Longrightarrow> firing s ! i = c # cs \<Longrightarrow>
    shared_step s (s\<lparr>firing := (firing s)[i := cs], fired := fired s @ [c]\<rparr>)"

inductive shared_reachable :: "'c shared \<Rightarrow> bool" where
  start: "shared_reachable initial"
| step: "shared_reachable s \<Longrightarrow> shared_step s s' \<Longrightarrow> shared_reachable s'"

lemma mset_concat_update:
  "i < length xss \<Longrightarrow> xss ! i = c # cs \<Longrightarrow> mset (concat xss) = add_mset c (mset (concat (xss[i := cs])))"
proof (induction xss arbitrary: i)
  case (Cons xs xss)
  then show ?case by (cases i) auto
qed simp

definition accounted :: "'c shared \<Rightarrow> bool" where
  "accounted s =
     (mset (registered s) =
        mset (callbacks (token_of s)) + mset (concat (firing s)) + mset (fired s) + mset (removed s) \<and>
      (cancelled (token_of s) \<longrightarrow> callbacks (token_of s) = []))"

lemma step_accounted: "shared_step s s' \<Longrightarrow> accounted s \<Longrightarrow> accounted s'"
proof (induction rule: shared_step.induct)
  case (fire i s c cs)
  then show ?case using mset_concat_update [OF fire(1,2)] by (auto simp: accounted_def)
qed (auto simp: accounted_def on_cancel_def remove_callback_def cancel_def reset_def
      split: if_splits)

lemma reachable_accounted: "shared_reachable s \<Longrightarrow> accounted s"
proof (induction rule: shared_reachable.induct)
  case start
  show ?case by (simp add: accounted_def initial_def fresh_token_def)
qed (rule step_accounted)

text \<open>C34. However the threads sharing a cancellation token interleave, every registration is in
  exactly one place: still registered, taken by a call that is about to fire it, fired, or removed.
  So once the token is cancelled and the pending calls have finished, each callback fired exactly
  as often as it was registered less the removals that found it, and a removed registration never
  fires.\<close>

theorem callbacks_fire_once:
  assumes "shared_reachable s"
  shows "mset (registered s) =
      mset (callbacks (token_of s)) + mset (concat (firing s)) + mset (fired s) + mset (removed s) \<and>
    (cancelled (token_of s) \<and> concat (firing s) = [] \<longrightarrow>
       mset (fired s) = mset (registered s) - mset (removed s))"
  using reachable_accounted [OF assms] by (auto simp: accounted_def)

text \<open>A callback registered, then cancelled and fired while another thread registers late.\<close>

definition race :: "nat shared" where
  "race = \<lparr>token_of = \<lparr>cancelled = True, callbacks = []\<rparr>, firing = [[], [], []], fired = [8, 7],
     registered = [7, 8], removed = []\<rparr>"

lemma race_reachable: "shared_reachable race"
proof -
  let ?s1 = "initial\<lparr>token_of := \<lparr>cancelled = False, callbacks = [7]\<rparr>, firing := [[]], registered := [7]\<rparr> :: nat shared"
  let ?s2 = "?s1\<lparr>token_of := \<lparr>cancelled = True, callbacks = []\<rparr>, firing := [[], [7]]\<rparr>"
  let ?s3 = "?s2\<lparr>firing := [[], [7], [8]], registered := [7, 8]\<rparr>"
  let ?s4 = "?s3\<lparr>firing := [[], [7], []], fired := [8]\<rparr>"
  have "shared_step initial ?s1"
    using register [of 7 initial] by (simp add: on_cancel_def initial_def fresh_token_def)
  moreover have "shared_step ?s1 ?s2" using cancelling [of ?s1] by (simp add: cancel_def initial_def)
  moreover have "shared_step ?s2 ?s3" using register [of 8 ?s2] by (simp add: on_cancel_def initial_def)
  moreover have "shared_step ?s3 ?s4" using fire [of 2 ?s3 8 "[]"] by (simp add: initial_def)
  moreover have "shared_step ?s4 race" using fire [of 1 ?s4 7 "[]"] by (simp add: initial_def race_def)
  ultimately show ?thesis by (meson start step)
qed

theorem callbacks_fire_once_witness: "mset (fired race) = mset (registered race) - mset (removed race)"
  using callbacks_fire_once [OF race_reachable] by (simp add: race_def)

section \<open>Progress\<close>

definition is_hex_char :: "char \<Rightarrow> bool" where
  "is_hex_char c = (is_ascii_digit c \<or> 97 \<le> cp c \<and> cp c \<le> 102)"

definition is_drive_letter :: "char \<Rightarrow> bool" where
  "is_drive_letter c = (65 \<le> cp c \<and> cp c \<le> 90 \<or> 97 \<le> cp c \<and> cp c \<le> 122)"

definition is_slash :: "char \<Rightarrow> bool" where
  "is_slash c = (cp c = 47 \<or> cp c = 92)"

definition is_path_char :: "char \<Rightarrow> bool" where
  "is_path_char c = (is_word_char c \<or> cp c = 46 \<or> is_slash c \<or> cp c = 45)"

text \<open>\<open>PREFIX\\S+\<close>.\<close>

definition re_locator :: "string \<Rightarrow> regex" where
  "re_locator prefix prev s =
     (let body = takeWhile (\<lambda>c. \<not> is_space c) (drop (length prefix) s) in
      if startswith s prefix \<and> body \<noteq> [] then Some (prefix @ body) else None)"

text \<open>\<open>(?:[A-Za-z]:)?[/\\\\][\\w./\\\\-]+\<close>.\<close>

definition re_path :: regex where
  "re_path prev s =
     (let drive = (case s of a # b # r \<Rightarrow> if is_drive_letter a \<and> b = CHR '':'' then [a, b] else [] | _ \<Rightarrow> []);
          r = drop (length drive) s
      in (case r of
            c # cs \<Rightarrow>
              (let body = takeWhile is_path_char cs in
               if is_slash c \<and> body \<noteq> [] then Some (drive @ c # body) else None)
          | [] \<Rightarrow> None))"

text \<open>\<open>\\b[0-9a-f]{7,40}\\b\<close>: inside a run of word characters there is no boundary, so only the
  whole run can match.\<close>

definition re_commit :: regex where
  "re_commit prev s =
     (let run = takeWhile is_hex_char s in
      if boundary prev (head_opt s) \<and> 7 \<le> length run \<and> length run \<le> 40 \<and>
         \<not> word_opt (head_opt (drop (length run) s))
      then Some run else None)"

definition EVIDENCE :: regex where
  "EVIDENCE prev s =
     (case re_locator ''artifact://'' prev s of
        Some m \<Rightarrow> Some m
      | None \<Rightarrow>
          (case re_locator ''https://'' prev s of
             Some m \<Rightarrow> Some m
           | None \<Rightarrow>
               (case re_locator ''http://'' prev s of
                  Some m \<Rightarrow> Some m
                | None \<Rightarrow> (case re_path prev s of Some m \<Rightarrow> Some m | None \<Rightarrow> re_commit prev s))))"

datatype ProgressKind = HEALTHY | SLOW | STAGNANT | LOOPING

record ProgressObservation =
  obs_kind :: ProgressKind
  new_evidence :: nat
  obs_repeated_failures :: nat
  obs_stagnant_cycles :: nat

record ProgressMonitor =
  fingerprints :: "string list"
  seen_evidence :: "string list"
  cycle_progress :: nat
  cycle_failures :: nat
  repeated_failures :: nat
  stagnant_cycles :: nat

definition new_monitor :: ProgressMonitor where
  "new_monitor = \<lparr>fingerprints = [], seen_evidence = [], cycle_progress = 0, cycle_failures = 0,
     repeated_failures = 0, stagnant_cycles = 0\<rparr>"

definition observe_tool ::
  "(string \<Rightarrow> 'a \<Rightarrow> string \<Rightarrow> string) \<Rightarrow> string \<Rightarrow> 'a \<Rightarrow> string \<Rightarrow> bool \<Rightarrow> ProgressMonitor \<Rightarrow> ProgressMonitor" where
  "observe_tool digest name arguments output ok m =
     (let fingerprint = digest name arguments (take 4000 output);
          new = filter (\<lambda>e. e \<notin> set (seen_evidence m)) (remdups (re_findall EVIDENCE None output));
          novel = (fingerprint \<notin> set (fingerprints m) \<or> new \<noteq> []);
          m1 = m\<lparr>fingerprints := List.insert fingerprint (fingerprints m),
                 seen_evidence := seen_evidence m @ new\<rparr>
      in if novel \<and> ok
         then m1\<lparr>cycle_progress := cycle_progress m1 + 1 + length new, repeated_failures := 0\<rparr>
         else if \<not> ok
         then m1\<lparr>cycle_failures := cycle_failures m1 + 1, repeated_failures := repeated_failures m1 + 1\<rparr>
         else m1)"

definition finish_cycle :: "bool \<Rightarrow> ProgressMonitor \<Rightarrow> ProgressObservation \<times> ProgressMonitor" where
  "finish_cycle looping m =
     (let stagnant = (if looping then stagnant_cycles m
                      else if 0 < cycle_progress m then 0 else stagnant_cycles m + 1);
          kind = (if looping then LOOPING else if 0 < cycle_progress m then HEALTHY
                  else if 2 \<le> stagnant then STAGNANT else SLOW)
      in (\<lparr>obs_kind = kind, new_evidence = cycle_progress m, obs_repeated_failures = repeated_failures m,
           obs_stagnant_cycles = stagnant\<rparr>,
          m\<lparr>stagnant_cycles := stagnant, cycle_progress := 0, cycle_failures := 0\<rparr>))"

section \<open>The governor\<close>

datatype GovernorAction = CONTINUE | COMPACT | CONSOLIDATE | NUDGE | FINALIZE | STOP

record GovernorDecision =
  action :: GovernorAction
  progress_kind :: ProgressKind
  d_stagnant_cycles :: nat
  d_recovery_attempts :: nat
  reason :: "string option"

record TurnGovernor =
  progress :: ProgressMonitor
  max_recovery_attempts :: nat
  recovery_attempts :: nat
  last_observation :: "ProgressObservation option"
  compactions :: nat
  last_compacted_history_size :: int
  last_context_pressure :: "rat option"

definition new_governor :: "int \<Rightarrow> TurnGovernor" where
  "new_governor max_attempts =
     \<lparr>progress = new_monitor, max_recovery_attempts = nat (max 1 max_attempts), recovery_attempts = 0,
      last_observation = None, compactions = 0, last_compacted_history_size = -1,
      last_context_pressure = None\<rparr>"

definition governor_decision ::
  "GovernorAction \<Rightarrow> ProgressObservation \<Rightarrow> string option \<Rightarrow> TurnGovernor \<Rightarrow> GovernorDecision" where
  "governor_decision act observation why g =
     \<lparr>action = act, progress_kind = obs_kind observation, d_stagnant_cycles = obs_stagnant_cycles observation,
      d_recovery_attempts = recovery_attempts g, reason = why\<rparr>"

definition after_tool ::
  "(string \<Rightarrow> 'a \<Rightarrow> string \<Rightarrow> string) \<Rightarrow> string \<Rightarrow> 'a \<Rightarrow> string \<Rightarrow> bool \<Rightarrow> TurnGovernor \<Rightarrow> TurnGovernor" where
  "after_tool digest name arguments result ok g =
     g\<lparr>progress := observe_tool digest name arguments result ok (progress g)\<rparr>"

definition context_pressure ::
  "rat \<Rightarrow> int \<Rightarrow> bool \<Rightarrow> TurnGovernor \<Rightarrow> GovernorDecision \<times> TurnGovernor" where
  "context_pressure pressure history_size compaction_enabled g =
     (let (observation, mon) =
            (case last_observation g of Some x \<Rightarrow> (x, progress g) | None \<Rightarrow> finish_cycle False (progress g));
          g1 = g\<lparr>last_context_pressure := Some pressure, progress := mon, last_observation := Some observation\<rparr>
      in if compaction_enabled \<and> last_compacted_history_size g1 < history_size
         then (governor_decision COMPACT observation (Some ''context_pressure'') g1, g1)
         else (governor_decision CONTINUE observation None g1, g1))"

definition record_compaction :: "int \<Rightarrow> bool \<Rightarrow> TurnGovernor \<Rightarrow> TurnGovernor" where
  "record_compaction history_size completed g =
     (if \<not> completed then g
      else g\<lparr>compactions := compactions g + 1,
             last_compacted_history_size := max (last_compacted_history_size g) history_size\<rparr>)"

definition after_cycle :: "bool \<Rightarrow> TurnGovernor \<Rightarrow> GovernorDecision \<times> TurnGovernor" where
  "after_cycle looping g =
     (let (observation, mon) = finish_cycle looping (progress g);
          g1 = g\<lparr>progress := mon, last_observation := Some observation\<rparr>;
          g2 = (if obs_kind observation = HEALTHY then g1\<lparr>recovery_attempts := 0\<rparr> else g1)
      in if obs_kind observation = HEALTHY \<or> obs_kind observation = SLOW
         then (governor_decision CONTINUE observation None g2, g2)
         else (let g3 = g2\<lparr>recovery_attempts := recovery_attempts g2 + 1\<rparr>; n = recovery_attempts g3 in
               if looping \<and> max_recovery_attempts g3 \<le> n
               then (governor_decision STOP observation (Some ''persistent_loop'') g3, g3)
               else (let act = (if n = 1 then CONSOLIDATE else if n = 2 then NUDGE
                                else if n = 3 then FINALIZE else STOP) in
                     (governor_decision act observation (if act = STOP then Some ''stagnation'' else None) g3,
                      g3))))"

section \<open>A turn under the governor\<close>

text \<open>One cycle of a turn: the tool results observed, then the end of the cycle.\<close>

datatype 'a observed = Observed string 'a string bool

fun observe :: "(string \<Rightarrow> 'a \<Rightarrow> string \<Rightarrow> string) \<Rightarrow> 'a observed \<Rightarrow> TurnGovernor \<Rightarrow> TurnGovernor" where
  "observe digest (Observed name arguments result ok) g = after_tool digest name arguments result ok g"

fun run_cycles ::
  "(string \<Rightarrow> 'a \<Rightarrow> string \<Rightarrow> string) \<Rightarrow> ('a observed list \<times> bool) list \<Rightarrow> TurnGovernor \<Rightarrow>
     GovernorAction list \<times> TurnGovernor" where
  "run_cycles digest [] g = ([], g)"
| "run_cycles digest ((tools, looping) # cycles) g =
     (let (d, g1) = after_cycle looping (fold (observe digest) tools g);
          (acts, g2) = run_cycles digest cycles g1
      in (action d # acts, g2))"

text \<open>No cycle of the run brings anything new.\<close>

fun barren ::
  "(string \<Rightarrow> 'a \<Rightarrow> string \<Rightarrow> string) \<Rightarrow> ('a observed list \<times> bool) list \<Rightarrow> TurnGovernor \<Rightarrow> bool" where
  "barren digest [] g = True"
| "barren digest ((tools, looping) # cycles) g =
     (let g1 = fold (observe digest) tools g in
      cycle_progress (progress g1) = 0 \<and> barren digest cycles (snd (after_cycle looping g1)))"

lemma observe_keeps:
  "recovery_attempts (fold (observe digest) tools g) = recovery_attempts g \<and>
   stagnant_cycles (progress (fold (observe digest) tools g)) = stagnant_cycles (progress g) \<and>
   last_compacted_history_size (fold (observe digest) tools g) = last_compacted_history_size g"
proof (induction tools arbitrary: g)
  case (Cons t tools)
  have "recovery_attempts (observe digest t g) = recovery_attempts g \<and>
    stagnant_cycles (progress (observe digest t g)) = stagnant_cycles (progress g) \<and>
    last_compacted_history_size (observe digest t g) = last_compacted_history_size g"
    by (cases t) (simp add: after_tool_def observe_tool_def Let_def)
  with Cons show ?case by simp
qed simp

definition effort :: "TurnGovernor \<Rightarrow> nat" where
  "effort g = recovery_attempts g + (if stagnant_cycles (progress g) = 0 then 0 else 1)"

lemma barren_cycle:
  assumes "cycle_progress (progress g) = 0" and "after_cycle looping g = (d, g')"
  shows "effort g + 1 \<le> effort g'"
    and "action d \<noteq> STOP \<Longrightarrow> recovery_attempts g' \<le> 3 \<or> recovery_attempts g' = recovery_attempts g"
proof -
  have rec: "recovery_attempts g' =
      (if \<not> looping \<and> stagnant_cycles (progress g) = 0 then recovery_attempts g else recovery_attempts g + 1)"
    and stag: "stagnant_cycles (progress g') =
      (if looping then stagnant_cycles (progress g) else stagnant_cycles (progress g) + 1)"
    using assms by (cases looping; cases "stagnant_cycles (progress g)";
        simp add: after_cycle_def finish_cycle_def Let_def split: if_splits; force)+
  show "effort g + 1 \<le> effort g'" by (simp add: effort_def rec stag)
  assume "action d \<noteq> STOP"
  then show "recovery_attempts g' \<le> 3 \<or> recovery_attempts g' = recovery_attempts g"
    using assms by (cases "3 \<le> recovery_attempts g"; cases looping; cases "stagnant_cycles (progress g)")
      (auto simp: after_cycle_def finish_cycle_def governor_decision_def Let_def split: if_splits)
qed

lemma barren_run:
  assumes "barren digest cycles g" and "run_cycles digest cycles g = (acts, g')" and "STOP \<notin> set acts"
  shows "effort g + length cycles \<le> effort g' \<and>
    (recovery_attempts g' \<le> 3 \<or> recovery_attempts g' = recovery_attempts g)"
  using assms
proof (induction cycles arbitrary: g acts)
  case (Cons c cycles)
  obtain tools looping where c: "c = (tools, looping)" by (cases c)
  define h where "h = fold (observe digest) tools g"
  obtain d g1 where d: "after_cycle looping h = (d, g1)" by (cases "after_cycle looping h")
  obtain acts1 g2 where r: "run_cycles digest cycles g1 = (acts1, g2)" by (cases "run_cycles digest cycles g1")
  have prog: "cycle_progress (progress h) = 0" and rest: "barren digest cycles g1"
    using Cons.prems(1) c d by (simp_all add: h_def Let_def)
  have acts: "acts = action d # acts1" "g' = g2"
    using Cons.prems(2) c d r by (simp_all add: h_def)
  have same: "effort h = effort g" "recovery_attempts h = recovery_attempts g"
    using observe_keeps [of digest tools g] by (simp_all add: effort_def h_def)
  from Cons.IH [OF rest r [folded acts(2)]] Cons.prems(3) acts
  have "effort g1 + length cycles \<le> effort g2 \<and> (recovery_attempts g2 \<le> 3 \<or> recovery_attempts g2 = recovery_attempts g1)"
    by simp
  with barren_cycle [OF prog d] same acts Cons.prems(3) show ?case by auto
qed simp

text \<open>C33. A turn that brings nothing new cannot go on: whatever state the governor is in, whichever
  tools ran and whichever cycles were reported as looping, among any five cycles in a row without
  progress one is answered with \<open>STOP\<close>.\<close>

theorem governor_stops_barren_turn:
  assumes "barren digest cycles g" and "5 \<le> length cycles"
  shows "STOP \<in> set (fst (run_cycles digest cycles g))"
proof (rule ccontr)
  assume no: "STOP \<notin> set (fst (run_cycles digest cycles g))"
  obtain acts g' where run: "run_cycles digest cycles g = (acts, g')" by (cases "run_cycles digest cycles g")
  from barren_run [OF assms(1) run] no run assms(2) show False
    by (auto simp: effort_def split: if_splits)
qed

definition stuck_cycles :: "(nat observed list \<times> bool) list" where
  "stuck_cycles = replicate 5 ([Observed ''fs.read'' 0 ''missing'' False], False)"

theorem governor_stops_barren_turn_witness:
  "fst (run_cycles (\<lambda>n a r. n @ r) stuck_cycles (new_governor 3)) = [CONTINUE, CONSOLIDATE, NUDGE, FINALIZE, STOP] \<and>
   STOP \<in> set (fst (run_cycles (\<lambda>n a r. n @ r) stuck_cycles (new_governor 3)))"
proof
  show "fst (run_cycles (\<lambda>n a r. n @ r) stuck_cycles (new_governor 3)) = [CONTINUE, CONSOLIDATE, NUDGE, FINALIZE, STOP]"
    by code_simp
  have "barren (\<lambda>n a r. n @ r) stuck_cycles (new_governor 3)" by code_simp
  then show "STOP \<in> set (fst (run_cycles (\<lambda>n a r. n @ r) stuck_cycles (new_governor 3)))"
    by (rule governor_stops_barren_turn) (simp add: stuck_cycles_def)
qed

text \<open>The operations of the governor, in any order.\<close>

datatype 'a governor_op =
    OpTool "'a observed"
  | OpPressure rat int bool
  | OpCompacted int bool
  | OpCycle bool

fun governor_step :: "(string \<Rightarrow> 'a \<Rightarrow> string \<Rightarrow> string) \<Rightarrow> 'a governor_op \<Rightarrow> TurnGovernor \<Rightarrow> TurnGovernor" where
  "governor_step digest (OpTool t) g = observe digest t g"
| "governor_step digest (OpPressure p h e) g = snd (context_pressure p h e g)"
| "governor_step digest (OpCompacted h completed) g = record_compaction h completed g"
| "governor_step digest (OpCycle looping) g = snd (after_cycle looping g)"

lemma governor_step_compacted:
  "last_compacted_history_size g \<le> last_compacted_history_size (governor_step digest x g)"
proof (cases x)
  case (OpTool t)
  then show ?thesis using observe_keeps [of digest "[t]" g] by simp
qed (auto simp: context_pressure_def record_compaction_def after_cycle_def case_prod_beta Let_def)

interpretation governors: monotone_steps "governor_step digest" last_compacted_history_size
  by unfold_locales (rule governor_step_compacted)

text \<open>A history is compacted at most once: after a compaction that completed, and whatever the
  governor is told since, context pressure never asks to compact a history of that size or a
  smaller one again.\<close>

theorem compacted_at_most_once:
  assumes "history_size \<le> compacted"
  shows "action (fst (context_pressure pressure history_size enabled
    (fold (governor_step digest) ops (record_compaction compacted True g)))) \<noteq> COMPACT"
proof -
  let ?g = "fold (governor_step digest) ops (record_compaction compacted True g)"
  have "compacted \<le> last_compacted_history_size (record_compaction compacted True g)"
    by (simp add: record_compaction_def)
  also have "\<dots> \<le> last_compacted_history_size ?g" by (rule governors.run_mono)
  finally show ?thesis
    using assms by (auto simp: context_pressure_def governor_decision_def case_prod_beta Let_def)
qed

theorem compacted_at_most_once_witness:
  "action (fst (context_pressure 1 40 True (record_compaction 40 True (new_governor 3)))) \<noteq> COMPACT"
  using compacted_at_most_once [of 40 40 1 True "\<lambda>n a r. n" "[]" "new_governor 3"] by simp

text \<open>Asking about context pressure before the first cycle has ended ends a cycle itself: the
  progress made so far is dropped, and the cycle that made it is then not healthy.\<close>

theorem pressure_swallows_progress:
  "(let g = observe (\<lambda>n a r. n @ r) (Observed ''fs.read'' (0::nat) ''text'' True) (new_governor 3) in
    action (fst (after_cycle False g)) = CONTINUE \<and>
    progress_kind (fst (after_cycle False g)) = HEALTHY \<and>
    progress_kind (fst (after_cycle False (snd (context_pressure (1 / 2) 10 False g)))) = SLOW)"
  by code_simp

end
