(* ===== verification/Patches.thy ===== *)
theory Patches
  imports Rinari_Prelude
begin

text \<open>
  Multi-file patches: the optimistic replacement of one file
  (\<^verbatim>\<open>src/src/rinari/tools/atomic.py\<close>) and the prevalidated patch of several files with rollback
  (\<^verbatim>\<open>src/src/rinari/tools/patches.py\<close>).

  The file system maps paths to files. Other programs may change it while a patch is being
  committed: a \<open>moment\<close> says what they do before a replacement checks the file and between its two
  checks, whether the disk takes the write, and whether the turn is cancelled or out of time by
  then. Validation reads one state of the file system. The digest (SHA-256) and the resolution of
  a path in the sandbox are parameters. A file that is not UTF-8 is \<open>Undecodable\<close>.
\<close>

section \<open>Text\<close>

text \<open>\<open>s.count(sub)\<close>, without overlaps, and \<open>s.replace(sub, new, 1)\<close>.\<close>

function count_nonempty :: "string \<Rightarrow> string \<Rightarrow> nat" where
  "count_nonempty sub [] = 0"
| "count_nonempty sub (c # s) =
     (if startswith (c # s) sub then Suc (count_nonempty sub (drop (length sub - 1) s))
      else count_nonempty sub s)"
  by pat_completeness auto
termination
  by (relation "measure (\<lambda>(sub, s). length s)") auto

definition count_of :: "string \<Rightarrow> string \<Rightarrow> nat" where
  "count_of s sub = (if sub = [] then length s + 1 else count_nonempty sub s)"

fun replace_first :: "string \<Rightarrow> string \<Rightarrow> string \<Rightarrow> string" where
  "replace_first sub new [] = (if sub = [] then new else [])"
| "replace_first sub new (c # s) =
     (if startswith (c # s) sub then new @ drop (length sub) (c # s) else c # replace_first sub new s)"

text \<open>\<open>len(s.encode("utf-8"))\<close>: code points from U+0080 to U+00FF take two bytes.\<close>

definition utf8_length :: "string \<Rightarrow> nat" where
  "utf8_length s = sum_list (map (\<lambda>c. if cp c < 128 then 1 else 2) s)"

abbreviation REDACTED :: string where "REDACTED \<equiv> ''[REDACTED]''"

definition adds_redaction_marker :: "string \<Rightarrow> string \<Rightarrow> bool" where
  "adds_redaction_marker before after = (count_of before REDACTED < count_of after REDACTED)"

section \<open>Replacing a file\<close>

datatype stored_file = Text string | Undecodable string

type_synonym path = string
type_synonym fs = "path \<Rightarrow> stored_file option"

record moment =
  before_check :: "fs \<Rightarrow> fs"
  between_checks :: "fs \<Rightarrow> fs"
  disk_ok :: bool
  turn_cancelled :: bool
  deadline_passed :: bool

datatype write_error = ContentConflict | DiskError | Cancelled | DeadlineExceeded

definition hash_ok :: "(stored_file \<Rightarrow> string) \<Rightarrow> path \<Rightarrow> string option \<Rightarrow> fs \<Rightarrow> bool" where
  "hash_ok sha p expected files =
     (case expected of
        None \<Rightarrow> True
      | Some h \<Rightarrow> (case files p of Some f \<Rightarrow> sha f | None \<Rightarrow> ''missing'') = h)"

definition replace_text ::
  "(stored_file \<Rightarrow> string) \<Rightarrow> path \<Rightarrow> string \<Rightarrow> string option \<Rightarrow> moment \<Rightarrow> fs \<Rightarrow> (write_error + string) \<times> fs" where
  "replace_text sha p content expected m files =
     (let files1 = before_check m files in
      if \<not> hash_ok sha p expected files1 then (Inl ContentConflict, files1)
      else (let files2 = between_checks m files1 in
            if \<not> disk_ok m then (Inl DiskError, files2)
            else if \<not> hash_ok sha p expected files2 then (Inl ContentConflict, files2)
            else (Inr (sha (Text content)), files2(p \<mapsto> Text content))))"

section \<open>Validation\<close>

record row =
  row_path :: string
  expected_hash :: "string option"
  edits :: "(string \<times> string) list"

datatype patch_error =
    SandboxError string
  | InvalidArgument string
  | Conflict string
  | UnicodeDecodeError

record prepared_row =
  target_path :: path
  original :: string
  updated :: string
  digest :: string

fun apply_edits :: "string \<Rightarrow> (string \<times> string) list \<Rightarrow> string option" where
  "apply_edits s [] = Some s"
| "apply_edits s ((old, new) # es) =
     (if count_of s old \<noteq> 1 then None else apply_edits (replace_first old new s) es)"

fun file_size :: "(string \<Rightarrow> nat) \<Rightarrow> stored_file \<Rightarrow> nat" where
  "file_size raw_size (Text s) = utf8_length s"
| "file_size raw_size (Undecodable b) = raw_size b"

definition prepare_row ::
  "(stored_file \<Rightarrow> string) \<Rightarrow> (string \<Rightarrow> nat) \<Rightarrow> (string \<Rightarrow> string + path) \<Rightarrow> fs \<Rightarrow> path list \<Rightarrow> row \<Rightarrow>
     patch_error + prepared_row" where
  "prepare_row sha raw_size resolve_write files seen r =
     (case resolve_write (row_path r) of
        Inl e \<Rightarrow> Inl (SandboxError e)
      | Inr p \<Rightarrow>
          if p \<in> set seen then Inl (InvalidArgument ''Each file must appear once; combine its edits'')
          else
            (case files p of
               None \<Rightarrow> Inl (InvalidArgument ''Batch patches require existing UTF-8 files up to 1 MiB'')
             | Some f \<Rightarrow>
                 if 1024 * 1024 < int (file_size raw_size f)
                 then Inl (InvalidArgument ''Batch patches require existing UTF-8 files up to 1 MiB'')
                 else
                   (case f of
                      Undecodable b \<Rightarrow> Inl UnicodeDecodeError
                    | Text orig \<Rightarrow>
                        (let d = sha (Text orig) in
                         if (case expected_hash r of Some h \<Rightarrow> h | None \<Rightarrow> d) \<noteq> d
                         then Inl (Conflict ''A file changed before patch validation'')
                         else
                           (case apply_edits orig (edits r) of
                              None \<Rightarrow> Inl (Conflict ''Each edit must match exactly once; no files were changed'')
                            | Some upd \<Rightarrow>
                                if adds_redaction_marker orig upd
                                then Inl (InvalidArgument ''The new content adds [REDACTED]'')
                                else if 1024 * 1024 < int (utf8_length upd)
                                then Inl (InvalidArgument ''Patched output exceeds 1 MiB; no files changed'')
                                else Inr \<lparr>target_path = p, original = orig, updated = upd, digest = d\<rparr>)))))"

fun prepare ::
  "(stored_file \<Rightarrow> string) \<Rightarrow> (string \<Rightarrow> nat) \<Rightarrow> (string \<Rightarrow> string + path) \<Rightarrow> fs \<Rightarrow> path list \<Rightarrow> row list \<Rightarrow>
     patch_error + prepared_row list" where
  "prepare sha raw_size resolve_write files seen [] = Inr []"
| "prepare sha raw_size resolve_write files seen (r # rows) =
     (case prepare_row sha raw_size resolve_write files seen r of
        Inl e \<Rightarrow> Inl e
      | Inr q \<Rightarrow>
          (case prepare sha raw_size resolve_write files (seen @ [target_path q]) rows of
             Inl e \<Rightarrow> Inl e
           | Inr qs \<Rightarrow> Inr (q # qs)))"

section \<open>Commit and rollback\<close>

text \<open>A committed file with the digest its content has now.\<close>

type_synonym committed = "path \<times> string \<times> string"

text \<open>What happens at the next write; when nothing is listed any more, nothing does.\<close>

definition calm :: moment where
  "calm = \<lparr>before_check = id, between_checks = id, disk_ok = True, turn_cancelled = False, deadline_passed = False\<rparr>"

definition now :: "moment list \<Rightarrow> moment" where
  "now ms = (case ms of [] \<Rightarrow> calm | m # _ \<Rightarrow> m)"

fun commit ::
  "(stored_file \<Rightarrow> string) \<Rightarrow> moment list \<Rightarrow> prepared_row list \<Rightarrow> committed list \<Rightarrow> fs \<Rightarrow>
     write_error option \<times> committed list \<times> fs \<times> moment list" where
  "commit sha ms [] acc files = (None, acc, files, ms)"
| "commit sha ms (q # qs) acc files =
     (if turn_cancelled (now ms) then (Some Cancelled, acc, files, drop 1 ms)
      else if deadline_passed (now ms) then (Some DeadlineExceeded, acc, files, drop 1 ms)
      else (case replace_text sha (target_path q) (updated q) (Some (digest q)) (now ms) files of
              (Inl e, files1) \<Rightarrow> (Some e, acc, files1, drop 1 ms)
            | (Inr after, files1) \<Rightarrow>
                commit sha (drop 1 ms) qs (acc @ [(target_path q, original q, after)]) files1))"

fun rollback ::
  "(stored_file \<Rightarrow> string) \<Rightarrow> moment list \<Rightarrow> committed list \<Rightarrow> fs \<Rightarrow> (path \<times> bool) list \<times> fs" where
  "rollback sha ms [] files = ([], files)"
| "rollback sha ms ((p, orig, after) # cs) files =
     (case replace_text sha p orig (Some after) (now ms) files of
        (Inl e, files1) \<Rightarrow>
          (let (rest, files2) = rollback sha (drop 1 ms) cs files1 in ((p, False) # rest, files2))
      | (Inr h, files1) \<Rightarrow>
          (let (rest, files2) = rollback sha (drop 1 ms) cs files1 in ((p, True) # rest, files2)))"

datatype patch_result =
    Rejected patch_error
  | Interrupted write_error "(path \<times> bool) list"
  | Patched "(path \<times> string) list"

definition rollback_complete :: "(path \<times> bool) list \<Rightarrow> bool" where
  "rollback_complete rs = list_all snd rs"

definition patch_files ::
  "(stored_file \<Rightarrow> string) \<Rightarrow> (string \<Rightarrow> nat) \<Rightarrow> (string \<Rightarrow> string + path) \<Rightarrow> moment list \<Rightarrow> row list \<Rightarrow> fs \<Rightarrow>
     patch_result \<times> fs" where
  "patch_files sha raw_size resolve_write ms rows files =
     (case prepare sha raw_size resolve_write files [] rows of
        Inl e \<Rightarrow> (Rejected e, files)
      | Inr qs \<Rightarrow>
          (case commit sha ms qs [] files of
             (None, acc, files1, _) \<Rightarrow> (Patched (map (\<lambda>(p, orig, h). (p, h)) acc), files1)
           | (Some e, acc, files1, ms1) \<Rightarrow>
               (let (rs, files2) = rollback sha ms1 (rev acc) files1 in (Interrupted e rs, files2))))"

section \<open>All or nothing\<close>

text \<open>Others may do anything but touch these paths.\<close>

definition leaves_alone :: "path set \<Rightarrow> moment \<Rightarrow> bool" where
  "leaves_alone P m =
     (\<forall>files. \<forall>p \<in> P. before_check m files p = files p \<and> between_checks m files p = files p)"

lemma leaves_alone_now: "\<forall>m \<in> set ms. leaves_alone P m \<Longrightarrow> leaves_alone P (now ms)"
  by (cases ms) (auto simp: now_def calm_def leaves_alone_def)

lemma leaves_alone_drop: "\<forall>m \<in> set ms. leaves_alone P m \<Longrightarrow> \<forall>m \<in> set (drop n ms). leaves_alone P m"
  by (meson in_set_dropD)

lemma replace_text_spared:
  assumes "leaves_alone P m" and "p \<in> P" and "replace_text sha p content expected m files = (r, files')"
  shows "\<forall>q \<in> P. files' q = (case r of Inr h \<Rightarrow> if q = p then Some (Text content) else files q | Inl e \<Rightarrow> files q)"
    and "r = Inr h \<Longrightarrow> h = sha (Text content)"
  using assms by (auto simp: replace_text_def leaves_alone_def Let_def split: if_splits)

definition committed_of :: "(stored_file \<Rightarrow> string) \<Rightarrow> prepared_row \<Rightarrow> committed" where
  "committed_of sha q = (target_path q, original q, sha (Text (updated q)))"

lemma commit_prefix:
  assumes "\<forall>m \<in> set ms. leaves_alone P m" and "target_path ` set qs \<subseteq> P" and "distinct (map target_path qs)"
    and "commit sha ms qs acc files = (e, acc', files', ms')"
  shows "\<exists>k. k \<le> length qs \<and> (e = None \<longrightarrow> k = length qs) \<and> acc' = acc @ map (committed_of sha) (take k qs) \<and>
    (\<forall>q \<in> set (take k qs). files' (target_path q) = Some (Text (updated q))) \<and>
    (\<forall>p \<in> P. p \<notin> target_path ` set (take k qs) \<longrightarrow> files' p = files p) \<and> (\<forall>m \<in> set ms'. leaves_alone P m)"
  using assms
proof (induction qs arbitrary: ms acc files)
  case (Cons q qs)
  let ?m = "now ms"
  obtain r files1 where rt: "replace_text sha (target_path q) (updated q) (Some (digest q)) ?m files = (r, files1)"
    by (cases "replace_text sha (target_path q) (updated q) (Some (digest q)) ?m files")
  have alone: "leaves_alone P ?m" "\<forall>m \<in> set (drop 1 ms). leaves_alone P m"
    using Cons.prems(1) leaves_alone_now leaves_alone_drop by blast+
  have "target_path q \<in> P" using Cons.prems(2) by simp
  note sp = replace_text_spared [OF alone(1) this rt]
  consider (stop) "turn_cancelled ?m \<or> deadline_passed ?m" | (failed) x where "r = Inl x" "\<not> turn_cancelled ?m" "\<not> deadline_passed ?m"
    | (written) h where "r = Inr h" "\<not> turn_cancelled ?m" "\<not> deadline_passed ?m"
    by (cases r) auto
  then show ?case
  proof cases
    case stop
    with Cons.prems(4) alone show ?thesis by (intro exI [of _ 0]) (auto split: if_splits)
  next
    case failed
    with Cons.prems(4) rt alone sp show ?thesis by (intro exI [of _ 0]) (auto split: if_splits)
  next
    case written
    then have run: "commit sha (drop 1 ms) qs (acc @ [committed_of sha q]) files1 = (e, acc', files', ms')"
      using Cons.prems(4) rt sp(2) by (simp add: committed_of_def)
    from Cons.IH [OF alone(2) _ _ run] Cons.prems(2,3) obtain k where
      k: "k \<le> length qs" "e = None \<longrightarrow> k = length qs" "acc' = (acc @ [committed_of sha q]) @ map (committed_of sha) (take k qs)"
        "\<forall>q \<in> set (take k qs). files' (target_path q) = Some (Text (updated q))"
        "\<forall>p \<in> P. p \<notin> target_path ` set (take k qs) \<longrightarrow> files' p = files1 p" "\<forall>m \<in> set ms'. leaves_alone P m"
      by auto
    have "target_path q \<notin> target_path ` set (take k qs)"
      using Cons.prems(3) by (auto dest: in_set_takeD)
    then have "files' (target_path q) = Some (Text (updated q))"
      using k(5) sp(1) written \<open>target_path q \<in> P\<close> by simp
    with k sp(1) written show ?thesis by (intro exI [of _ "Suc k"]) auto
  qed
qed auto

lemma rollback_restores:
  assumes "\<forall>m \<in> set ms. leaves_alone P m" and "fst ` set cs \<subseteq> P" and "distinct (map fst cs)"
    and "rollback sha ms cs files = (rs, files')"
  shows "map fst rs = map fst cs \<and>
    (\<forall>(p, orig, after) \<in> set cs. files' p = (if (p, False) \<in> set rs then files p else Some (Text orig))) \<and>
    (\<forall>p \<in> P. p \<notin> fst ` set cs \<longrightarrow> files' p = files p)"
  using assms
proof (induction cs arbitrary: ms files rs files')
  case (Cons c cs)
  obtain p orig after where c: "c = (p, orig, after)" by (cases c)
  let ?m = "now ms"
  obtain r files1 where rt: "replace_text sha p orig (Some after) ?m files = (r, files1)"
    by (cases "replace_text sha p orig (Some after) ?m files")
  obtain rest files2 where rb: "rollback sha (drop 1 ms) cs files1 = (rest, files2)"
    by (cases "rollback sha (drop 1 ms) cs files1")
  have alone: "leaves_alone P ?m" "\<forall>m \<in> set (drop 1 ms). leaves_alone P m"
    using Cons.prems(1) leaves_alone_now leaves_alone_drop by blast+
  have "p \<in> P" using Cons.prems(2) c by simp
  note sp = replace_text_spared(1) [OF alone(1) this rt]
  from Cons.IH [OF alone(2) _ _ rb] Cons.prems(2,3) c
  have IH: "map fst rest = map fst cs"
      "\<forall>(p, orig, after) \<in> set cs. files2 p = (if (p, False) \<in> set rest then files1 p else Some (Text orig))"
      "\<forall>p \<in> P. p \<notin> fst ` set cs \<longrightarrow> files2 p = files1 p"
    by auto
  have out: "rs = (p, \<not> isl r) # rest" "files' = files2"
    using Cons.prems(4) c rt rb by (auto split: sum.splits)
  have p: "p \<notin> fst ` set cs" "p \<notin> fst ` set rest"
    using Cons.prems(3) c IH(1) by (simp, metis list.set_map distinct.simps(2) fst_conv list.simps(9))
  have fp: "files2 p = (if isl r then files p else Some (Text orig))"
    using IH(3) p(1) \<open>p \<in> P\<close> sp by (cases r) auto
  have other: "files1 q = files q" if "q \<in> P" "q \<noteq> p" for q
    using sp that by (cases r) auto
  show ?case
  proof (intro conjI)
    show "map fst rs = map fst (c # cs)" using IH(1) out c by simp
    show "\<forall>q \<in> P. q \<notin> fst ` set (c # cs) \<longrightarrow> files' q = files q" using IH(3) other out c by simp
    have "(p, False) \<in> set rs \<longleftrightarrow> isl r" using out p(2) by force
    moreover have "files' q = (if (q, False) \<in> set rs then files q else Some (Text o1))" if "(q, o1, a1) \<in> set cs" for q o1 a1
    proof -
      have "q \<noteq> p" "q \<in> P" using that p(1) Cons.prems(2) by force+
      then show ?thesis using IH(2) that other out by auto
    qed
    ultimately show "\<forall>(p, orig, after) \<in> set (c # cs). files' p = (if (p, False) \<in> set rs then files p else Some (Text orig))"
      using fp out c by auto
  qed
qed simp

lemma prepare_row_facts:
  assumes "prepare_row sha raw_size resolve_write files seen r = Inr q"
  shows "resolve_write (row_path r) = Inr (target_path q)" "target_path q \<notin> set seen"
    "files (target_path q) = Some (Text (original q))" "apply_edits (original q) (edits r) = Some (updated q)"
    "digest q = sha (Text (original q))"
  using assms by (auto simp: prepare_row_def Let_def split: sum.splits if_splits option.splits stored_file.splits)

lemma prepare_facts:
  assumes "prepare sha raw_size resolve_write files seen rows = Inr qs"
  shows "map (resolve_write \<circ> row_path) rows = map (Inr \<circ> target_path) qs \<and> distinct (map target_path qs) \<and>
    set (map target_path qs) \<inter> set seen = {} \<and>
    list_all2 (\<lambda>r q. files (target_path q) = Some (Text (original q)) \<and>
      apply_edits (original q) (edits r) = Some (updated q)) rows qs"
  using assms
proof (induction rows arbitrary: seen qs)
  case (Cons r rows)
  then obtain q qs' where q: "prepare_row sha raw_size resolve_write files seen r = Inr q"
    and qs: "prepare sha raw_size resolve_write files (seen @ [target_path q]) rows = Inr qs'" "qs = q # qs'"
    by (auto split: sum.splits)
  note pq = prepare_row_facts [OF q] and IH = Cons.IH [OF qs(1)]
  show ?case using pq IH qs(2) by auto
qed simp

definition patched_paths :: "(string \<Rightarrow> string + path) \<Rightarrow> row list \<Rightarrow> path set" where
  "patched_paths resolve_write rows = {p. \<exists>r \<in> set rows. resolve_write (row_path r) = Inr p}"

text \<open>What a patch promises of the files it names.\<close>

definition all_or_nothing ::
  "(string \<Rightarrow> string + path) \<Rightarrow> row list \<Rightarrow> fs \<Rightarrow> patch_result \<Rightarrow> fs \<Rightarrow> bool" where
  "all_or_nothing resolve_write rows files res files' =
     (case res of
        Rejected e \<Rightarrow> files' = files
      | Patched changed \<Rightarrow>
          map (resolve_write \<circ> row_path) rows = map (Inr \<circ> fst) changed \<and> distinct (map fst changed) \<and>
          list_all2 (\<lambda>r (p, h). \<exists>orig upd. files p = Some (Text orig) \<and>
            apply_edits orig (edits r) = Some upd \<and> files' p = Some (Text upd)) rows changed
      | Interrupted e rs \<Rightarrow>
          (\<forall>p \<in> patched_paths resolve_write rows. (p, False) \<notin> set rs \<longrightarrow> files' p = files p))"


text \<open>Two files; the disk fails at the second, while another program writes a third.\<close>

definition two_files :: fs where
  "two_files = [''a'' \<mapsto> Text ''one'', ''b'' \<mapsto> Text ''two'']"

definition two_rows :: "row list" where
  "two_rows = [\<lparr>row_path = ''a'', expected_hash = None, edits = [(''n'', ''m'')]\<rparr>,
               \<lparr>row_path = ''b'', expected_hash = None, edits = [(''w'', ''u'')]\<rparr>]"

definition content_of :: "stored_file \<Rightarrow> string" where
  "content_of f = (case f of Text s \<Rightarrow> s | Undecodable s \<Rightarrow> CHR ''!'' # s)"

definition bad_disk :: "moment list" where
  "bad_disk = [calm, calm\<lparr>before_check := (\<lambda>files. files(''c'' \<mapsto> Text ''x'')), disk_ok := False\<rparr>]"

lemma two_rows_interrupted:
  "fst (patch_files content_of length Inr bad_disk two_rows two_files) = Interrupted DiskError [(''a'', True)]"
  by code_simp


text \<open>A replacement never overwrites what somebody else wrote: with a digest that tells contents
  apart, the content it replaces is the one it was told to expect.\<close>

theorem replace_text_no_lost_update:
  assumes "inj sha" and "\<And>f. sha f \<noteq> ''missing''"
    and "replace_text sha p content (Some (sha f)) m files = (Inr h, files')"
  shows "between_checks m (before_check m files) p = Some f \<and>
    files' = (between_checks m (before_check m files))(p \<mapsto> Text content) \<and> h = sha (Text content)"
  using assms by (auto simp: replace_text_def hash_ok_def Let_def inj_eq split: if_splits option.splits)

text \<open>A file that is not UTF-8 passes the check whose message asks for UTF-8, and raises.\<close>

theorem undecodable_file_raises:
  "fst (patch_files content_of length Inr []
      [\<lparr>row_path = ''a'', expected_hash = None, edits = [(''n'', ''m'')]\<rparr>] [''a'' \<mapsto> Undecodable ''xyz'']) =
   Rejected UnicodeDecodeError"
  by code_simp

end
