(* ===== verification/Calendar.thy ===== *)
theory Calendar
  imports Rinari_Prelude
begin

text \<open>
  What the schedule rules use of Python's \<open>datetime\<close>: naive local datetimes in the proleptic
  Gregorian calendar, their order, their weekday, and stepping by days and minutes. How a local
  time relates to epoch seconds is the machine's time zone, a parameter of the rules.
  Arithmetic past the year 9999, where Python raises, is not modelled.
\<close>

section \<open>Dates\<close>

lemma pair_less: "(a, b) < (c, d) \<longleftrightarrow> a < c \<or> a = c \<and> b < d" for a c :: "'a::linorder" and b d :: "'b::linorder"
  by (auto simp: less_prod_def)

lemma pair_le: "(a, b) \<le> (c, d) \<longleftrightarrow> a < c \<or> a = c \<and> b \<le> d" for a c :: "'a::linorder" and b d :: "'b::linorder"
  by (auto simp: less_eq_prod_def)

type_synonym date = "int \<times> int \<times> int"

definition is_leap :: "int \<Rightarrow> bool" where
  "is_leap y = (y mod 4 = 0 \<and> (y mod 100 \<noteq> 0 \<or> y mod 400 = 0))"

definition days_in_month :: "int \<Rightarrow> int \<Rightarrow> int" where
  "days_in_month y m =
     (if m = 2 then (if is_leap y then 29 else 28)
      else if m = 4 \<or> m = 6 \<or> m = 9 \<or> m = 11 then 30 else 31)"

fun valid_date :: "date \<Rightarrow> bool" where
  "valid_date (y, m, d) = (1 \<le> m \<and> m \<le> 12 \<and> 1 \<le> d \<and> d \<le> days_in_month y m)"

text \<open>\<open>day + timedelta(days=1)\<close> for the date part.\<close>

fun next_day :: "date \<Rightarrow> date" where
  "next_day (y, m, d) =
     (if d < days_in_month y m then (y, m, d + 1)
      else if m < 12 then (y, m + 1, 1)
      else (y + 1, 1, 1))"

text \<open>\<open>date.toordinal()\<close> and \<open>date.weekday()\<close>.\<close>

definition days_before_month :: "int \<Rightarrow> int \<Rightarrow> int" where
  "days_before_month y m = sum_list (map (days_in_month y) [1..m - 1])"

definition days_before_year :: "int \<Rightarrow> int" where
  "days_before_year y = (let k = y - 1 in 365 * k + k div 4 - k div 100 + k div 400)"

fun toordinal :: "date \<Rightarrow> int" where
  "toordinal (y, m, d) = days_before_year y + days_before_month y m + d"

definition weekday :: "date \<Rightarrow> int" where
  "weekday dt = (toordinal dt + 6) mod 7"

lemma next_day_valid [simp]: "valid_date d \<Longrightarrow> valid_date (next_day d)"
  by (cases d) (auto simp: days_in_month_def)

lemma next_day_greater: "d < next_day d"
  by (cases d) (auto simp: pair_less)

text \<open>Between a day and the next there is no other day.\<close>

lemma next_day_least:
  assumes "valid_date d" and "valid_date e" and "d < e"
  shows "next_day d \<le> e"
proof -
  obtain y m k where d: "d = (y, m, k)" by (cases d)
  obtain y' m' k' where e: "e = (y', m', k')" by (cases e)
  consider "y < y'" | "y = y'" "m < m'" | "y = y'" "m = m'" "k < k'"
    using assms(3) [unfolded d e pair_less] by blast
  then show ?thesis
    using assms(1,2) d e by cases (auto simp: pair_le)
qed

lemma div_step:
  fixes y n :: int
  assumes "0 < n"
  shows "y div n - (y - 1) div n = (if y mod n = 0 then 1 else 0)"
proof (cases "y mod n = 0")
  case True
  then have "y - 1 = n * (y div n - 1) + (n - 1)" using mult_div_mod_eq [of n y] by (simp add: algebra_simps)
  then have "(y - 1) div n = y div n - 1" by (rule int_div_pos_eq) (use assms in simp_all)
  then show ?thesis using True by simp
next
  case False
  then have "0 < y mod n" using pos_mod_sign [OF assms, of y] by simp
  moreover have "y - 1 = n * (y div n) + (y mod n - 1)" by simp
  ultimately have "(y - 1) div n = y div n"
    using pos_mod_bound [OF assms, of y] by (intro int_div_pos_eq [where r = "y mod n - 1"]) auto
  then show ?thesis using False by simp
qed

lemma year_step: "days_before_year (y + 1) = days_before_year y + (if is_leap y then 366 else 365)"
proof -
  have step: "days_before_year (y + 1) = days_before_year y + 365 + (if y mod 4 = 0 then 1 else 0)
      - (if y mod 100 = 0 then 1 else 0) + (if y mod 400 = 0 then 1 else 0)"
  proof -
    have sum: "365 * y + a - b + c = 365 * (y - 1) + a' - b' + c' + 365 + i - j + k"
      if "a - a' = i" "b - b' = j" "c - c' = k" for a b c a' b' c' i j k :: int
      unfolding that [symmetric] by (simp add: algebra_simps)
    show ?thesis
      unfolding days_before_year_def Let_def add_diff_cancel_right'
      by (rule sum) (rule div_step, simp)+
  qed
  have q: "y mod 100 = 0" if "y mod 400 = 0"
    by (rule dvd_imp_mod_0, rule dvd_trans [of _ 400], simp, rule mod_0_imp_dvd, rule that)
  have p: "y mod 4 = 0" if "y mod 100 = 0"
    by (rule dvd_imp_mod_0, rule dvd_trans [of _ 100], simp, rule mod_0_imp_dvd, rule that)
  have sum: "D + 365 + (if p then 1 else 0) - (if q then 1 else 0) + (if r then 1 else 0) =
      D + (if p \<and> (\<not> q \<or> r) then 366 else 365)" if "r \<Longrightarrow> q" "q \<Longrightarrow> p" for D :: int and p q r
    using that by (cases p; cases q; cases r) simp_all
  show ?thesis unfolding step is_leap_def by (rule sum) (erule q, erule p)
qed

lemma month_step: "1 \<le> m \<Longrightarrow> days_before_month y (m + 1) = days_before_month y m + days_in_month y m"
  using upto_rec2 [of 1 m] by (simp add: days_before_month_def)

lemma days_before_december: "days_before_month y 12 = (if is_leap y then 335 else 334)"
  by (simp add: days_before_month_def upto.simps days_in_month_def)

lemma ordinal_next_day: "valid_date d \<Longrightarrow> toordinal (next_day d) = toordinal d + 1"
proof (cases d)
  case (fields y m k)
  assume v: "valid_date d"
  consider "k < days_in_month y m" | "k = days_in_month y m" "m < 12" | "k = 31" "m = 12"
  proof -
    have "k \<le> days_in_month y m" "m \<le> 12" "days_in_month y 12 = 31"
      using v fields by (simp_all add: days_in_month_def)
    then show thesis using that by (cases "k < days_in_month y m"; cases "m < 12") force+
  qed
  then show ?thesis
  proof cases
    case 1
    then show ?thesis by (simp add: fields)
  next
    case 2
    then show ?thesis using v month_step [of m y] by (simp add: fields)
  next
    case 3
    then show ?thesis
      using year_step [of y] by (simp add: fields days_in_month_def days_before_december) (simp add: days_before_month_def)
  qed
qed

lemma weekday_next_day: "valid_date d \<Longrightarrow> weekday (next_day d) = (weekday d + 1) mod 7"
  by (simp add: weekday_def ordinal_next_day mod_simps algebra_simps)

lemma weekday_range: "0 \<le> weekday d \<and> weekday d < 7"
  by (simp add: weekday_def)

section \<open>Datetimes\<close>

record datetime =
  dt_date :: date
  dt_hour :: int
  dt_minute :: int
  dt_second :: rat

definition stamp :: "datetime \<Rightarrow> date \<times> int \<times> int \<times> rat" where
  "stamp t = (dt_date t, dt_hour t, dt_minute t, dt_second t)"

definition valid_datetime :: "datetime \<Rightarrow> bool" where
  "valid_datetime t = (valid_date (dt_date t) \<and> 0 \<le> dt_hour t \<and> dt_hour t < 24 \<and>
     0 \<le> dt_minute t \<and> dt_minute t < 60 \<and> 0 \<le> dt_second t \<and> dt_second t < 60)"

text \<open>\<open>t + timedelta(minutes=1)\<close>.\<close>

definition add_minute :: "datetime \<Rightarrow> datetime" where
  "add_minute t =
     (if dt_minute t < 59 then t\<lparr>dt_minute := dt_minute t + 1\<rparr>
      else if dt_hour t < 23 then t\<lparr>dt_minute := 0, dt_hour := dt_hour t + 1\<rparr>
      else t\<lparr>dt_minute := 0, dt_hour := 0, dt_date := next_day (dt_date t)\<rparr>)"

text \<open>\<open>t + timedelta(days=n)\<close>, for a natural number \<open>n\<close>.\<close>

definition add_days :: "nat \<Rightarrow> datetime \<Rightarrow> datetime" where
  "add_days n t = t\<lparr>dt_date := (next_day ^^ n) (dt_date t)\<rparr>"

lemma add_minute_valid [simp]: "valid_datetime t \<Longrightarrow> valid_datetime (add_minute t)"
  by (auto simp: valid_datetime_def add_minute_def)

lemma days_later_valid [simp]: "valid_date d \<Longrightarrow> valid_date ((next_day ^^ n) d)"
  by (induction n) auto

lemma add_days_valid [simp]: "valid_datetime t \<Longrightarrow> valid_datetime (add_days n t)"
  by (simp add: valid_datetime_def add_days_def)

lemma days_later_greater: "0 < n \<Longrightarrow> d < (next_day ^^ n) d"
proof (induction n)
  case (Suc n)
  have "(next_day ^^ n) d < (next_day ^^ Suc n) d" by (simp add: next_day_greater del: next_day.simps)
  with Suc show ?case by (cases n) (auto simp del: next_day.simps intro: less_trans)
qed simp

lemma weekday_days_later: "valid_date d \<Longrightarrow> weekday ((next_day ^^ n) d) = (weekday d + int n) mod 7"
proof (induction n)
  case 0
  show ?case using weekday_range [of d] by simp
next
  case (Suc n)
  then show ?case by (simp add: weekday_next_day mod_simps algebra_simps)
qed

lemma add_minute_later: "valid_datetime t \<Longrightarrow> stamp t < stamp (add_minute t)"
  using next_day_greater [of "dt_date t"]
  by (simp add: stamp_def add_minute_def pair_less valid_datetime_def del: next_day.simps)

section \<open>A clock without changes\<close>

lemma days_before_month_mono:
  assumes "1 \<le> m" and "m \<le> n"
  shows "days_before_month y m \<le> days_before_month y n"
  using assms(2)
proof (induction n rule: int_ge_induct)
  case (step i)
  then show ?case using month_step [of i y] assms(1) by (simp add: days_in_month_def split: if_splits)
qed simp

lemma days_before_year_mono: "y \<le> z \<Longrightarrow> days_before_year y \<le> days_before_year z"
proof (induction z rule: int_ge_induct)
  case (step i)
  then show ?case using year_step [of i] by (simp split: if_splits)
qed simp

lemma toordinal_in_year:
  assumes "valid_date (y, m, d)"
  shows "days_before_year y < toordinal (y, m, d)" and "toordinal (y, m, d) \<le> days_before_year (y + 1)"
proof -
  have m: "1 \<le> m" "m \<le> 12" "1 \<le> d" "d \<le> days_in_month y m" using assms by auto
  have "days_before_month y 1 = 0" by (simp add: days_before_month_def)
  then show "days_before_year y < toordinal (y, m, d)" using days_before_month_mono [of 1 m y] m by simp
  have "days_before_month y 13 = (if is_leap y then 366 else 365)"
    using month_step [of 12 y] days_before_december [of y] by (simp add: days_in_month_def)
  then show "toordinal (y, m, d) \<le> days_before_year (y + 1)"
    using days_before_month_mono [of "m + 1" 13 y] month_step [of m y] m year_step [of y] by (simp split: if_splits)
qed

lemma toordinal_less:
  assumes "valid_date a" and "valid_date b" and "a < b"
  shows "toordinal a < toordinal b"
proof -
  obtain y m d where a: "a = (y, m, d)" by (cases a)
  obtain y' m' d' where b: "b = (y', m', d')" by (cases b)
  consider "y < y'" | "y = y'" "m < m'" | "y = y'" "m = m'" "d < d'"
    using assms(3) [unfolded a b pair_less] by blast
  then show ?thesis
  proof cases
    case 1
    then have "days_before_year (y + 1) \<le> days_before_year y'" by (intro days_before_year_mono) simp
    then show ?thesis
      using toordinal_in_year(2) [of y m d] toordinal_in_year(1) [of y' m' d'] assms(1,2)
      unfolding a b by linarith
  next
    case 2
    then show ?thesis
      using days_before_month_mono [of "m + 1" m' y] month_step [of m y] assms(1,2) by (simp add: a b)
  next
    case 3
    then show ?thesis by (simp add: a b)
  qed
qed

definition utc_epoch :: "datetime \<Rightarrow> rat" where
  "utc_epoch t = of_int ((toordinal (dt_date t) - 719163) * 86400 + dt_hour t * 3600 + dt_minute t * 60) + dt_second t"

lemma utc_epoch_less:
  assumes "valid_datetime a" and "valid_datetime b" and "stamp a < stamp b"
  shows "utc_epoch a < utc_epoch b"
proof -
  define x where "x = (toordinal (dt_date a) * 24 + dt_hour a) * 60 + dt_minute a"
  define z where "z = (toordinal (dt_date b) * 24 + dt_hour b) * 60 + dt_minute b"
  have e: "utc_epoch a = of_int (60 * x) + dt_second a - of_int (719163 * 86400)"
    "utc_epoch b = of_int (60 * z) + dt_second b - of_int (719163 * 86400)"
    by (simp_all add: utc_epoch_def x_def z_def algebra_simps)
  have r: "0 \<le> dt_hour a" "dt_hour a < 24" "0 \<le> dt_minute a" "dt_minute a < 60" "dt_second a < 60"
    "0 \<le> dt_hour b" "dt_hour b < 24" "0 \<le> dt_minute b" "dt_minute b < 60" "0 \<le> dt_second b"
    using assms(1,2) by (simp_all add: valid_datetime_def)
  consider "x + 1 \<le> z" | "x = z" "dt_second a < dt_second b"
  proof -
    have "dt_date a < dt_date b \<or> dt_date a = dt_date b \<and> (dt_hour a < dt_hour b \<or>
        dt_hour a = dt_hour b \<and> (dt_minute a < dt_minute b \<or> dt_minute a = dt_minute b \<and> dt_second a < dt_second b))"
      using assms(3) unfolding stamp_def pair_less .
    moreover have "x + 1 \<le> z" if "dt_date a < dt_date b"
    proof -
      have "toordinal (dt_date a) + 1 \<le> toordinal (dt_date b)"
        using toordinal_less [OF _ _ that] assms(1,2) by (simp add: valid_datetime_def)
      then have "toordinal (dt_date a) * 24 + dt_hour a + 1 \<le> toordinal (dt_date b) * 24 + dt_hour b"
        using r(1,2,6,7) by simp
      then show ?thesis unfolding x_def z_def using r(3,4,8,9) by simp
    qed
    moreover have "x + 1 \<le> z" if "dt_date a = dt_date b" "dt_hour a < dt_hour b"
      using that r unfolding x_def z_def by simp
    moreover have "x + 1 \<le> z" if "dt_date a = dt_date b" "dt_hour a = dt_hour b" "dt_minute a < dt_minute b"
      using that unfolding x_def z_def by simp
    moreover have "x = z" if "dt_date a = dt_date b" "dt_hour a = dt_hour b" "dt_minute a = dt_minute b"
      using that unfolding x_def z_def by simp
    ultimately show thesis using that by blast
  qed
  then show ?thesis
  proof cases
    case 1
    then have "(of_int (60 * x) :: rat) + 60 \<le> of_int (60 * z)" by linarith
    then show ?thesis using r by (simp add: e)
  next
    case 2
    then show ?thesis by (simp add: e)
  qed
qed

end
