(* ===== verification/Schedule_Rules.thy ===== *)
theory Schedule_Rules
  imports Calendar
begin

text \<open>
  When a scheduled task runs next (\<^verbatim>\<open>src/src/rinari/schedule/rules.py\<close>): parsing a schedule, its
  stored form, relative one-time schedules, the next run of each kind and cron expressions.

  The time zone is a pair of parameters, \<open>epoch\<close> (\<open>datetime.timestamp\<close>) and \<open>local\<close>
  (\<open>datetime.fromtimestamp\<close>); \<open>datetime.fromisoformat\<close> is a parameter too, with the datetime and
  whether it carries an offset as its result, and so is \<open>str\<close> of a value that is no string.
  A naive datetime carries no fold here: every datetime the code computes with comes from an
  addition, which clears it.
\<close>

section \<open>Schedules\<close>

abbreviation MIN_INTERVAL_SECONDS :: int where "MIN_INTERVAL_SECONDS \<equiv> 5"
abbreviation MAX_INTERVAL_SECONDS :: int where "MAX_INTERVAL_SECONDS \<equiv> 7 * 24 * 3600"
abbreviation MAX_AFTER_S :: int where "MAX_AFTER_S \<equiv> 366 * 86400"
abbreviation CRON_HORIZON_DAYS :: nat where "CRON_HORIZON_DAYS \<equiv> 366 * 4"

text \<open>\<open>ScheduleError\<close>, and the \<open>ValueError\<close> of \<open>int\<close> that the code does not turn into one.\<close>

datatype schedule_error = ScheduleError string | PlainValueError

datatype Schedule =
    Once datetime
  | Interval int
  | Daily int int
  | Weekly "int list" int int
  | Cron string

definition pad2 :: "int \<Rightarrow> string" where
  "pad2 n = (if 0 \<le> n \<and> n < 10 then ''0'' @ int_to_string n else int_to_string n)"

definition hh_mm :: "int \<Rightarrow> int \<Rightarrow> string" where
  "hh_mm h m = pad2 h @ '':'' @ pad2 m"

text \<open>\<open>at.strftime("%Y-%m-%dT%H:%M")\<close>.\<close>

definition strftime_minutes :: "datetime \<Rightarrow> string" where
  "strftime_minutes t =
     (case dt_date t of (y, m, d) \<Rightarrow>
        int_to_string y @ ''-'' @ pad2 m @ ''-'' @ pad2 d @ ''T'' @ hh_mm (dt_hour t) (dt_minute t))"

fun to_dict :: "Schedule \<Rightarrow> (string \<times> json) list" where
  "to_dict (Once t) = [(''kind'', JStr ''once''), (''at'', JStr (strftime_minutes t))]"
| "to_dict (Interval seconds) =
     (if seconds mod 60 = 0 then [(''kind'', JStr ''interval''), (''minutes'', JInt (seconds div 60))]
      else [(''kind'', JStr ''interval''), (''seconds'', JInt seconds)])"
| "to_dict (Cron expr) = [(''kind'', JStr ''cron''), (''expr'', JStr expr)]"
| "to_dict (Daily h m) = [(''kind'', JStr ''daily''), (''time'', JStr (hh_mm h m))]"
| "to_dict (Weekly days h m) =
     [(''kind'', JStr ''weekly''), (''days'', JList (map JInt days)), (''time'', JStr (hh_mm h m))]"

section \<open>Cron fields\<close>

text \<open>\<open>range(start, end + 1, step)\<close> for \<open>start \<le> end\<close> and \<open>step \<ge> 1\<close>.\<close>

definition range_step :: "int \<Rightarrow> int \<Rightarrow> int \<Rightarrow> int list" where
  "range_step start stop step = map (\<lambda>k. start + k * step) [0..(stop - start) div step]"

definition bad_step :: schedule_error where
  "bad_step = ScheduleError ''Invalid step in the cron expression''"

definition bad_range :: schedule_error where
  "bad_range = ScheduleError ''Invalid range in the cron expression''"

definition bad_field :: schedule_error where
  "bad_field = ScheduleError ''Invalid field in the cron expression''"

definition out_of_range :: schedule_error where
  "out_of_range = ScheduleError ''A cron field is out of its range''"

text \<open>\<open>int(s)\<close> behind \<open>s.isdigit()\<close>: a superscript digit passes the check and raises.\<close>

definition checked_int :: "schedule_error \<Rightarrow> string \<Rightarrow> schedule_error + int" where
  "checked_int err s =
     (if \<not> isdigit s then Inl err
      else (case int_of_digits s of None \<Rightarrow> Inl PlainValueError | Some n \<Rightarrow> Inr n))"

definition cron_step :: "string \<Rightarrow> schedule_error + string \<times> int" where
  "cron_step part =
     (if CHR ''/'' \<in> set part
      then (let (part', raw_step) = partition_at (CHR ''/'') part in
            (case checked_int bad_step raw_step of
               Inl e \<Rightarrow> Inl e
             | Inr n \<Rightarrow> if n < 1 then Inl bad_step else Inr (part', n)))
      else Inr (part, 1))"

definition cron_bounds :: "int \<Rightarrow> int \<Rightarrow> string \<Rightarrow> string \<Rightarrow> int \<Rightarrow> schedule_error + int \<times> int" where
  "cron_bounds low high whole part step =
     (if part = ''*'' then Inr (low, high)
      else if CHR ''-'' \<in> set part
      then (let (first, final) = partition_at (CHR ''-'') part in
            if \<not> (isdigit first \<and> isdigit final) then Inl bad_range
            else (case (int_of_digits first, int_of_digits final) of
                    (Some a, Some b) \<Rightarrow> Inr (a, b)
                  | _ \<Rightarrow> Inl PlainValueError))
      else if isdigit part
      then (case int_of_digits part of
              None \<Rightarrow> Inl PlainValueError
            | Some n \<Rightarrow> Inr (n, if CHR ''/'' \<in> set whole \<and> 1 < step then high else n))
      else Inl bad_field)"

definition cron_part :: "int \<Rightarrow> int \<Rightarrow> string \<Rightarrow> string \<Rightarrow> schedule_error + int list" where
  "cron_part low high whole part =
     (case cron_step part of
        Inl e \<Rightarrow> Inl e
      | Inr (part', step) \<Rightarrow>
          (case cron_bounds low high whole part' step of
             Inl e \<Rightarrow> Inl e
           | Inr (start, stop) \<Rightarrow>
               if \<not> (low \<le> start \<and> start \<le> high \<and> low \<le> stop \<and> stop \<le> high \<and> start \<le> stop)
               then Inl out_of_range
               else Inr (range_step start stop step)))"

fun cron_parts :: "int \<Rightarrow> int \<Rightarrow> string \<Rightarrow> string list \<Rightarrow> schedule_error + int list" where
  "cron_parts low high whole [] = Inr []"
| "cron_parts low high whole (part # parts) =
     (case cron_part low high whole part of
        Inl e \<Rightarrow> Inl e
      | Inr xs \<Rightarrow> (case cron_parts low high whole parts of Inl e \<Rightarrow> Inl e | Inr ys \<Rightarrow> Inr (xs @ ys)))"

definition cron_field :: "string \<Rightarrow> int \<Rightarrow> int \<Rightarrow> schedule_error + int list" where
  "cron_field whole low high = cron_parts low high whole (split_on (CHR '','') whole)"

definition CRON_RANGES :: "(int \<times> int) list" where
  "CRON_RANGES = [(0, 59), (0, 23), (1, 31), (1, 12), (0, 7)]"

fun cron_all :: "string list \<Rightarrow> (int \<times> int) list \<Rightarrow> schedule_error + int list list" where
  "cron_all (p # ps) ((low, high) # rs) =
     (case cron_field p low high of
        Inl e \<Rightarrow> Inl e
      | Inr xs \<Rightarrow> (case cron_all ps rs of Inl e \<Rightarrow> Inl e | Inr yss \<Rightarrow> Inr (xs # yss)))"
| "cron_all ps rs = Inr []"

record cron_sets =
  minutes :: "int list"
  hours :: "int list"
  mdays :: "int list"
  months :: "int list"
  weekdays :: "int list"

definition cron_fields :: "string \<Rightarrow> schedule_error + cron_sets" where
  "cron_fields expr =
     (let parts = split_ws expr in
      if length parts \<noteq> 5 then Inl (ScheduleError ''A cron expression has five fields'')
      else (case cron_all parts CRON_RANGES of
              Inl e \<Rightarrow> Inl e
            | Inr f \<Rightarrow>
                Inr \<lparr>minutes = f ! 0, hours = f ! 1, mdays = f ! 2, months = f ! 3,
                     weekdays = map (\<lambda>day. if day = 7 then 0 else day) (f ! 4)\<rparr>))"

section \<open>Parsing\<close>

text \<open>\<open>^([01]\\d|2[0-3]):([0-5]\\d)$\<close>, where \<open>$\<close> also matches before a final newline.\<close>

definition digit_value :: "char \<Rightarrow> int" where
  "digit_value c = int (cp c - 48)"

definition match_time :: "string \<Rightarrow> (int \<times> int) option" where
  "match_time s =
     (case s of
        a # b # c # d # e # rest \<Rightarrow>
          if (rest = [] \<or> rest = [CHR 0x0A]) \<and> list_all is_ascii_digit [a, b, d, e] \<and> c = CHR '':'' \<and>
             digit_value a * 10 + digit_value b < 24 \<and> digit_value d < 6
          then Some (digit_value a * 10 + digit_value b, digit_value d * 10 + digit_value e) else None
      | _ \<Rightarrow> None)"

definition sorted_set :: "int list \<Rightarrow> int list" where
  "sorted_set xs = sort (remdups xs)"

fun week_days :: "json list \<Rightarrow> int list option" where
  "week_days [] = Some []"
| "week_days (JInt d # ds) =
     (if 0 \<le> d \<and> d \<le> 6 then map_option ((#) d) (week_days ds) else None)"
| "week_days (_ # ds) = None"

fun is_int :: "json \<Rightarrow> int option" where
  "is_int (JInt n) = Some n"
| "is_int _ = None"

definition parse_interval :: "(string \<times> json) list \<Rightarrow> schedule_error + Schedule" where
  "parse_interval raw =
     (let given = filter (\<lambda>unit. obj_get raw unit \<noteq> JNull) [''minutes'', ''seconds''] in
      if length given \<noteq> 1 then Inl (ScheduleError ''An interval takes minutes or seconds'')
      else (case is_int (obj_get raw (given ! 0)) of
              None \<Rightarrow> Inl (ScheduleError ''The interval must be a whole number'')
            | Some v \<Rightarrow>
                (let seconds = (if given ! 0 = ''minutes'' then v * 60 else v) in
                 if \<not> (MIN_INTERVAL_SECONDS \<le> seconds \<and> seconds \<le> MAX_INTERVAL_SECONDS)
                 then Inl (ScheduleError ''The interval must be 5 seconds to 7 days'')
                 else Inr (Interval seconds))))"

definition parse_once :: "(string \<Rightarrow> (datetime \<times> bool) option) \<Rightarrow> (string \<times> json) list \<Rightarrow> schedule_error + Schedule" where
  "parse_once fromisoformat raw =
     (case obj_get raw ''at'' of
        JStr s \<Rightarrow>
          (case fromisoformat s of
             None \<Rightarrow> Inl (ScheduleError ''at must be a local date and time'')
           | Some (t, has_offset) \<Rightarrow>
               if has_offset then Inl (ScheduleError ''at is local time: leave the timezone out'')
               else Inr (Once (t\<lparr>dt_second := 0\<rparr>)))
      | _ \<Rightarrow> Inl (ScheduleError ''A one-time schedule needs at''))"

definition parse_timed :: "bool \<Rightarrow> (string \<times> json) list \<Rightarrow> schedule_error + Schedule" where
  "parse_timed daily raw =
     (case (case obj_get raw ''time'' of JStr s \<Rightarrow> match_time s | _ \<Rightarrow> None) of
        None \<Rightarrow> Inl (ScheduleError ''time must be HH:MM (24 h)'')
      | Some (h, m) \<Rightarrow>
          if daily then Inr (Daily h m)
          else (case obj_get raw ''days'' of
                  JList ds \<Rightarrow>
                    (case week_days ds of
                       Some (x # xs) \<Rightarrow> Inr (Weekly (sorted_set (x # xs)) h m)
                     | _ \<Rightarrow> Inl (ScheduleError ''A weekly schedule needs days''))
                | _ \<Rightarrow> Inl (ScheduleError ''A weekly schedule needs days'')))"

definition expr_text :: "(json \<Rightarrow> string) \<Rightarrow> json \<Rightarrow> string" where
  "expr_text py_str v = (if \<not> truthy v then [] else (case v of JStr s \<Rightarrow> s | _ \<Rightarrow> py_str v))"

definition parse_schedule ::
  "(string \<Rightarrow> (datetime \<times> bool) option) \<Rightarrow> (json \<Rightarrow> string) \<Rightarrow> json \<Rightarrow> schedule_error + Schedule" where
  "parse_schedule fromisoformat py_str raw =
     (case raw of
        JObj d \<Rightarrow>
          (let kind = obj_get d ''kind'' in
           if kind = JStr ''cron''
           then (let expr = squeeze (expr_text py_str (obj_get d ''expr'')) in
                 (case cron_fields expr of Inl e \<Rightarrow> Inl e | Inr f \<Rightarrow> Inr (Cron expr)))
           else if kind = JStr ''once'' then parse_once fromisoformat d
           else if kind = JStr ''interval'' then parse_interval d
           else if kind = JStr ''daily'' then parse_timed True d
           else if kind = JStr ''weekly'' then parse_timed False d
           else Inl (ScheduleError ''Schedule kind must be one of once, interval, daily, weekly, cron''))
      | _ \<Rightarrow> Inl (ScheduleError ''The schedule must be an object''))"

section \<open>The next run\<close>

definition at_time :: "int \<Rightarrow> int \<Rightarrow> datetime \<Rightarrow> datetime" where
  "at_time h m t = t\<lparr>dt_hour := h, dt_minute := m, dt_second := 0\<rparr>"

text \<open>\<open>_cron_next\<close>: does a day match, its first moment from \<open>start\<close> on, and the search day by day.\<close>

definition cron_day_matches :: "cron_sets \<Rightarrow> bool \<Rightarrow> bool \<Rightarrow> date \<Rightarrow> bool" where
  "cron_day_matches f restricted_day restricted_weekday d =
     (case d of (y, m, k) \<Rightarrow>
        if m \<in> set (months f)
        then (let in_month = (k \<in> set (mdays f));
                  in_week = ((weekday d + 1) mod 7 \<in> set (weekdays f))
              in if restricted_day \<and> restricted_weekday then in_month \<or> in_week else in_month \<and> in_week)
        else False)"

definition day_moments :: "cron_sets \<Rightarrow> datetime \<Rightarrow> datetime list" where
  "day_moments f day =
     concat (map (\<lambda>h. map (\<lambda>m. at_time h m day) (sorted_set (minutes f))) (sorted_set (hours f)))"

fun cron_search :: "cron_sets \<Rightarrow> bool \<Rightarrow> bool \<Rightarrow> datetime \<Rightarrow> nat \<Rightarrow> datetime \<Rightarrow> datetime option" where
  "cron_search f rd rw start 0 day = None"
| "cron_search f rd rw start (Suc n) day =
     (case (if cron_day_matches f rd rw (dt_date day)
            then find_first (\<lambda>t. stamp start \<le> stamp t) (day_moments f day) else None) of
        Some t \<Rightarrow> Some t
      | None \<Rightarrow> cron_search f rd rw start n (add_days 1 day))"

definition cron_start :: "datetime \<Rightarrow> datetime" where
  "cron_start t = add_minute (t\<lparr>dt_second := 0\<rparr>)"

definition cron_moment :: "(rat \<Rightarrow> datetime) \<Rightarrow> string \<Rightarrow> rat \<Rightarrow> schedule_error + datetime option" where
  "cron_moment local expr after =
     (case cron_fields expr of
        Inl e \<Rightarrow> Inl e
      | Inr f \<Rightarrow>
          (let start = cron_start (local after) in
           Inr (cron_search f (split_ws expr ! 2 \<noteq> ''*'') (split_ws expr ! 4 \<noteq> ''*'') start
                  CRON_HORIZON_DAYS (at_time 0 0 start))))"

definition cron_next :: "(datetime \<Rightarrow> rat) \<Rightarrow> (rat \<Rightarrow> datetime) \<Rightarrow> string \<Rightarrow> rat \<Rightarrow> schedule_error + rat option" where
  "cron_next epoch local expr after =
     (case cron_moment local expr after of Inl e \<Rightarrow> Inl e | Inr t \<Rightarrow> Inr (map_option epoch t))"

text \<open>The daily and weekly search over the next eight days.\<close>

fun timed_search ::
  "(datetime \<Rightarrow> rat) \<Rightarrow> (date \<Rightarrow> bool) \<Rightarrow> int \<Rightarrow> int \<Rightarrow> rat \<Rightarrow> datetime \<Rightarrow> nat list \<Rightarrow> rat option" where
  "timed_search epoch on_day h m after base [] = None"
| "timed_search epoch on_day h m after base (offset # offsets) =
     (let day = at_time h m (add_days offset base) in
      if \<not> on_day (dt_date day) then timed_search epoch on_day h m after base offsets
      else if after < epoch day then Some (epoch day)
      else timed_search epoch on_day h m after base offsets)"

definition next_run ::
  "(datetime \<Rightarrow> rat) \<Rightarrow> (rat \<Rightarrow> datetime) \<Rightarrow> Schedule \<Rightarrow> rat \<Rightarrow> schedule_error + rat option" where
  "next_run epoch local s after =
     (case s of
        Once t \<Rightarrow> Inr (if after < epoch t then Some (epoch t) else None)
      | Interval seconds \<Rightarrow> Inr (Some (after + of_int seconds))
      | Cron expr \<Rightarrow> cron_next epoch local expr after
      | Daily h m \<Rightarrow> Inr (timed_search epoch (\<lambda>d. True) h m after (local after) [0..<8])
      | Weekly days h m \<Rightarrow>
          Inr (timed_search epoch (\<lambda>d. weekday d \<in> set days) h m after (local after) [0..<8]))"

definition DAY_NAMES :: "string list" where
  "DAY_NAMES = [''Mon'', ''Tue'', ''Wed'', ''Thu'', ''Fri'', ''Sat'', ''Sun'']"

definition describe :: "Schedule \<Rightarrow> string" where
  "describe s =
     (case s of
        Once t \<Rightarrow> ''once at '' @ map (\<lambda>c. if c = CHR ''T'' then CHR '' '' else c) (strftime_minutes t)
      | Interval seconds \<Rightarrow>
          if seconds mod 60 \<noteq> 0 then ''every '' @ int_to_string seconds @ '' s''
          else ''every '' @ int_to_string (seconds div 60) @ '' min''
      | Cron expr \<Rightarrow> ''cron '' @ expr
      | Daily h m \<Rightarrow> ''daily at '' @ hh_mm h m
      | Weekly days h m \<Rightarrow> join '', '' (map (\<lambda>d. DAY_NAMES ! nat d) days) @ '' at '' @ hh_mm h m)"

section \<open>Relative one-time schedules\<close>

definition AFTER_UNITS :: "(string \<times> int) list" where
  "AFTER_UNITS = [(''minutes'', 60), (''hours'', 3600), (''days'', 86400)]"

text \<open>The seconds asked for; the error names the first value that is not a whole number.\<close>

fun after_seconds :: "(string \<times> json) list \<Rightarrow> schedule_error + int" where
  "after_seconds [] = Inr 0"
| "after_seconds ((unit, v) # rest) =
     (case is_int v of
        None \<Rightarrow> Inl (ScheduleError (''after.'' @ unit))
      | Some n \<Rightarrow>
          if n < 0 then Inl (ScheduleError (''after.'' @ unit))
          else (case after_seconds rest of
                  Inl e \<Rightarrow> Inl e
                | Inr others \<Rightarrow>
                    Inr (others + n * (case dict_get AFTER_UNITS unit of Some k \<Rightarrow> k | None \<Rightarrow> 0))))"

text \<open>\<open>while local.timestamp() < due: local += timedelta(minutes=1)\<close>; it need not end in every
  time zone.\<close>

partial_function (option) skip_repeated :: "(datetime \<Rightarrow> rat) \<Rightarrow> rat \<Rightarrow> datetime \<Rightarrow> datetime option" where
  "skip_repeated epoch due t = (if epoch t < due then skip_repeated epoch due (add_minute t) else Some t)"

definition resolve_after ::
  "(datetime \<Rightarrow> rat) \<Rightarrow> (rat \<Rightarrow> datetime) \<Rightarrow> json \<Rightarrow> rat \<Rightarrow> (schedule_error + json) option" where
  "resolve_after epoch local raw now =
     (case raw of
        JObj d \<Rightarrow>
          if obj_get d ''kind'' \<noteq> JStr ''once'' \<or> dict_get d ''after'' = None then Some (Inr raw)
          else if obj_get d ''at'' \<noteq> JNull
          then Some (Inl (ScheduleError ''A one-time schedule takes at or after, not both''))
          else (case obj_get d ''after'' of
                  JObj a \<Rightarrow>
                    if a = [] \<or> \<not> list_all (\<lambda>(k, v). k \<in> fst ` set AFTER_UNITS) a
                    then Some (Inl (ScheduleError ''after is an object of minutes, hours and days''))
                    else (case after_seconds a of
                            Inl e \<Rightarrow> Some (Inl e)
                          | Inr seconds \<Rightarrow>
                              if \<not> (60 \<le> seconds \<and> seconds \<le> MAX_AFTER_S)
                              then Some (Inl (ScheduleError ''after must be between 1 minute and 366 days''))
                              else (let due = of_int (\<lceil>(now + of_int seconds) / 60\<rceil> * 60) in
                                    (case skip_repeated epoch due (local due) of
                                       None \<Rightarrow> None
                                     | Some t \<Rightarrow>
                                         Some (Inr (JObj (dict_set ''at'' (JStr (strftime_minutes t))
                                           (dict_pop ''after'' d)))))))
                | _ \<Rightarrow> Some (Inl (ScheduleError ''after is an object of minutes, hours and days'')))
      | _ \<Rightarrow> Some (Inr raw))"

section \<open>Stored schedules\<close>

lemma nat_digit: "n < 10 \<Longrightarrow> is_ascii_digit (char_of (48 + n)) \<and> digit_value (char_of (48 + n)) = int n"
  by (simp add: is_ascii_digit_def digit_value_def)

lemma pad2_two:
  assumes "0 \<le> n" and "n < 100"
  shows "pad2 n = [char_of (48 + nat n div 10), char_of (48 + nat n mod 10)]"
proof -
  have "char_of (48::nat) = CHR ''0''" using char_of_char [of "CHR ''0''", where 'a = nat] by simp
  then show ?thesis
    using assms by (auto simp: pad2_def int_to_string_def nat_to_string.simps [of "nat n"]
        nat_to_string.simps [of "nat n div 10"])
qed

lemma match_hh_mm:
  assumes "0 \<le> h" "h < 24" "0 \<le> m" "m < 60"
  shows "match_time (hh_mm h m) = Some (h, m)"
proof -
  have "nat h div 10 < 10" "nat h mod 10 < 10" "nat m div 10 < 10" "nat m mod 10 < 10" using assms by auto
  note digits = this [THEN nat_digit]
  have "int (nat h div 10) * 10 + int (nat h mod 10) = h" "int (nat m div 10) * 10 + int (nat m mod 10) = m" "int (nat m div 10) < 6"
    using assms by (simp_all add: zdiv_int zmod_int)
  then show ?thesis
    using digits assms by (simp add: hh_mm_def pad2_two match_time_def)
qed

lemma match_time_range:
  "match_time s = Some (h, m) \<Longrightarrow> 0 \<le> h \<and> h < 24 \<and> 0 \<le> m \<and> m < 60"
  by (auto simp: match_time_def digit_value_def is_ascii_digit_def split: list.splits if_splits)

lemma sorted_set_idem [simp]: "sorted_set (sorted_set xs) = sorted_set xs"
  by (simp add: sorted_set_def distinct_remdups_id sort_key_id_if_sorted)

lemma set_sorted_set [simp]: "set (sorted_set xs) = set xs"
  by (simp add: sorted_set_def)

lemma week_days_range: "week_days js = Some ds \<Longrightarrow> set ds \<subseteq> {0..6}"
  by (induction js arbitrary: ds rule: week_days.induct) (fastforce split: if_splits)+

lemma week_days_JInt: "set ds \<subseteq> {0..6} \<Longrightarrow> week_days (map JInt ds) = Some ds"
  by (induction ds) auto


lemma parse_interval_form:
  "parse_interval d = Inr s \<Longrightarrow> \<exists>n. s = Interval n \<and> MIN_INTERVAL_SECONDS \<le> n \<and> n \<le> MAX_INTERVAL_SECONDS"
  by (auto simp: parse_interval_def Let_def split: if_splits option.splits)

lemma parse_interval_dict:
  assumes "MIN_INTERVAL_SECONDS \<le> n" "n \<le> MAX_INTERVAL_SECONDS"
  shows "parse_interval (to_dict (Interval n)) = Inr (Interval n)"
  using assms by (auto simp: parse_interval_def Let_def obj_get_def)

lemma parse_timed_form:
  assumes "parse_timed daily d = Inr s"
  shows "\<exists>h m. 0 \<le> h \<and> h < 24 \<and> 0 \<le> m \<and> m < 60 \<and>
    (if daily then s = Daily h m else \<exists>x xs. set (x # xs) \<subseteq> {0..6} \<and> s = Weekly (sorted_set (x # xs)) h m)"
proof -
  obtain h m where hm: "(case obj_get d ''time'' of JStr s \<Rightarrow> match_time s | _ \<Rightarrow> None) = Some (h, m)"
    using assms by (cases "(case obj_get d ''time'' of JStr s \<Rightarrow> match_time s | _ \<Rightarrow> None)") (auto simp: parse_timed_def)
  then have r: "0 \<le> h \<and> h < 24 \<and> 0 \<le> m \<and> m < 60"
    by (auto split: json.splits dest: match_time_range)
  show ?thesis
  proof (cases daily)
    case True
    with assms hm r show ?thesis by (auto simp: parse_timed_def)
  next
    case False
    with assms hm obtain ds x xs where "obj_get d ''days'' = JList ds" "week_days ds = Some (x # xs)"
      "s = Weekly (sorted_set (x # xs)) h m"
      by (auto simp: parse_timed_def split: json.splits option.splits list.splits)
    with week_days_range [of ds] r False show ?thesis by auto
  qed
qed

lemma parse_timed_dict:
  assumes "0 \<le> h" "h < 24" "0 \<le> m" "m < 60"
  shows "parse_timed True (to_dict (Daily h m)) = Inr (Daily h m)"
    and "set xs \<subseteq> {0..6} \<Longrightarrow> xs \<noteq> [] \<Longrightarrow>
      parse_timed False (to_dict (Weekly (sorted_set xs) h m)) = Inr (Weekly (sorted_set xs) h m)"
proof -
  show "parse_timed True (to_dict (Daily h m)) = Inr (Daily h m)"
    by (simp add: parse_timed_def obj_get_def match_hh_mm assms)
  assume xs: "set xs \<subseteq> {0..6}" "xs \<noteq> []"
  then have "set (sorted_set xs) \<noteq> {}" by simp
  then obtain y ys where ys: "sorted_set xs = y # ys" by (cases "sorted_set xs") auto
  have "week_days (map JInt (sorted_set xs)) = Some (sorted_set xs)" by (rule week_days_JInt) (use xs in simp)
  then show "parse_timed False (to_dict (Weekly (sorted_set xs) h m)) = Inr (Weekly (sorted_set xs) h m)"
    using sorted_set_idem [of xs] by (simp add: parse_timed_def obj_get_def match_hh_mm assms ys)
qed

lemma parse_once_form: "parse_once fromiso d = Inr s \<Longrightarrow> \<exists>t. s = Once t \<and> dt_second t = 0"
  by (auto simp: parse_once_def split: json.splits option.splits if_splits)


definition weekly_raw :: json where
  "weekly_raw = JObj [(''kind'', JStr ''weekly''), (''days'', JList [JInt 4, JInt 0, JInt 4]), (''time'', JStr ''08:05'')]"


section \<open>The first moment of a cron expression\<close>

text \<open>The reference: what a cron expression matches.\<close>

definition cron_matches :: "cron_sets \<Rightarrow> bool \<Rightarrow> bool \<Rightarrow> datetime \<Rightarrow> bool" where
  "cron_matches f restricted_day restricted_weekday t =
     (cron_day_matches f restricted_day restricted_weekday (dt_date t) \<and> valid_date (dt_date t) \<and>
      dt_hour t \<in> set (hours f) \<and> dt_minute t \<in> set (minutes f) \<and> dt_second t = 0)"

lemma at_time_self: "dt_date t = dt_date day \<Longrightarrow> dt_second t = 0 \<Longrightarrow> at_time (dt_hour t) (dt_minute t) day = t"
  by (cases t; cases day) (simp add: at_time_def)

lemma at_time_sel [simp]:
  "dt_date (at_time h m day) = dt_date day" "dt_hour (at_time h m day) = h" "dt_minute (at_time h m day) = m"
  "dt_second (at_time h m day) = 0"
  by (simp_all add: at_time_def)

lemma set_day_moments:
  "t \<in> set (day_moments f day) \<longleftrightarrow>
     dt_date t = dt_date day \<and> dt_hour t \<in> set (hours f) \<and> dt_minute t \<in> set (minutes f) \<and> dt_second t = 0"
  using at_time_self [of t day] by (force simp: day_moments_def)

lemma sorted_blocks:
  assumes "sorted hs" and "\<And>h. h \<in> set hs \<Longrightarrow> sorted (map key (g h))"
    and "\<And>h h' x y. h < h' \<Longrightarrow> x \<in> set (g h) \<Longrightarrow> y \<in> set (g h') \<Longrightarrow> key x \<le> key y" and "distinct hs"
  shows "sorted (map key (concat (map g hs)))"
  using assms
proof (induction hs)
  case (Cons h hs)
  have "h < h'" if "h' \<in> set hs" for h' using Cons.prems(1,4) that by (force simp: order.strict_iff_order)
  then have cross: "\<forall>x \<in> set (g h). \<forall>y \<in> set (concat (map g hs)). key x \<le> key y"
    by (auto intro: Cons.prems(3) [of h])
  have "sorted (map key (concat (map g hs)))"
    by (rule Cons.IH) (use Cons.prems in auto)
  with cross Cons.prems(2) [of h] show ?case by (simp add: sorted_append)
qed simp

lemma sorted_day_moments: "sorted (map stamp (day_moments f day))"
  unfolding day_moments_def
proof (rule sorted_blocks)
  show "sorted (sorted_set (hours f))" "distinct (sorted_set (hours f))" by (simp_all add: sorted_set_def)
  show "sorted (map stamp (map (\<lambda>m. at_time h m day) (sorted_set (minutes f))))" for h
    by (simp add: sorted_set_def sorted_map stamp_def pair_le comp_def)
      (rule sorted_wrt_mono_rel [of _ "(\<le>)"], auto)
qed (auto simp: stamp_def pair_le)

lemma find_first_least:
  "sorted (map key xs) \<Longrightarrow> find_first p xs = Some x \<Longrightarrow> y \<in> set xs \<Longrightarrow> p y \<Longrightarrow> key x \<le> key y"
  by (induction xs) (auto split: if_splits)

lemma cron_search_least:
  assumes "valid_date (dt_date day)"
    and "\<forall>t. cron_matches f rd rw t \<and> stamp start \<le> stamp t \<longrightarrow> dt_date day \<le> dt_date t"
  shows "case cron_search f rd rw start n day of
      Some t \<Rightarrow> cron_matches f rd rw t \<and> stamp start \<le> stamp t \<and>
        (\<forall>t'. cron_matches f rd rw t' \<and> stamp start \<le> stamp t' \<longrightarrow> stamp t \<le> stamp t')
    | None \<Rightarrow> (\<forall>t. cron_matches f rd rw t \<and> stamp start \<le> stamp t \<longrightarrow> (next_day ^^ n) (dt_date day) \<le> dt_date t)"
  using assms
proof (induction n arbitrary: day)
  case (Suc n)
  let ?found = "if cron_day_matches f rd rw (dt_date day)
    then find_first (\<lambda>t. stamp start \<le> stamp t) (day_moments f day) else None"
  show ?case
  proof (cases ?found)
    case (Some t)
    then have dm: "cron_day_matches f rd rw (dt_date day)"
      and ff: "find_first (\<lambda>t. stamp start \<le> stamp t) (day_moments f day) = Some t"
      by (auto split: if_splits)
    from find_first_Some [OF ff] have t: "t \<in> set (day_moments f day)" "stamp start \<le> stamp t" by auto
    have "stamp t \<le> stamp t'" if "cron_matches f rd rw t'" "stamp start \<le> stamp t'" for t'
    proof (cases "dt_date t' = dt_date day")
      case True
      then have "t' \<in> set (day_moments f day)" using that by (simp add: set_day_moments cron_matches_def)
      from find_first_least [OF sorted_day_moments ff this that(2)] show ?thesis .
    next
      case False
      then have "dt_date day < dt_date t'" using Suc.prems(2) that by force
      then show ?thesis using t(1) by (simp add: set_day_moments stamp_def pair_le)
    qed
    then show ?thesis using Some t dm Suc.prems(1) by (simp add: cron_matches_def set_day_moments)
  next
    case None
    have none: "dt_date t \<noteq> dt_date day" if "cron_matches f rd rw t" "stamp start \<le> stamp t" for t
    proof
      assume eq: "dt_date t = dt_date day"
      then have "t \<in> set (day_moments f day)" using that by (simp add: set_day_moments cron_matches_def)
      moreover have "cron_day_matches f rd rw (dt_date day)" using that eq by (simp add: cron_matches_def)
      ultimately show False using None that(2) by (auto simp: find_first_None)
    qed
    have inv: "\<forall>t. cron_matches f rd rw t \<and> stamp start \<le> stamp t \<longrightarrow> dt_date (add_days 1 day) \<le> dt_date t"
    proof (intro allI impI)
      fix t assume t: "cron_matches f rd rw t \<and> stamp start \<le> stamp t"
      then have "dt_date day < dt_date t" using Suc.prems(2) none by force
      with t Suc.prems(1) show "dt_date (add_days 1 day) \<le> dt_date t"
        by (simp add: add_days_def cron_matches_def next_day_least del: next_day.simps)
    qed
    have v: "valid_date (dt_date (add_days 1 day))" using Suc.prems(1) by (simp add: add_days_def del: next_day.simps)
    have "(next_day ^^ n) (dt_date (add_days 1 day)) = (next_day ^^ Suc n) (dt_date day)"
      by (simp add: add_days_def funpow_swap1 del: next_day.simps)
    with Suc.IH [OF v inv] None show ?thesis
      by (simp only: cron_search.simps option.case)
  qed
qed simp

lemma cron_part_range:
  assumes "cron_part low high whole part = Inr xs"
  shows "\<forall>x \<in> set xs. low \<le> x \<and> x \<le> high"
proof -
  obtain part' step where st: "cron_step part = Inr (part', step)"
    using assms by (auto simp: cron_part_def split: sum.splits)
  obtain start stop where b: "cron_bounds low high whole part' step = Inr (start, stop)"
    using assms st by (auto simp: cron_part_def split: sum.splits)
  have "1 \<le> step" using st by (auto simp: cron_step_def split: if_splits sum.splits prod.splits)
  have r: "low \<le> start" "stop \<le> high" "start \<le> stop" and xs: "xs = range_step start stop step"
    using assms st b by (auto simp: cron_part_def split: if_splits)
  have "start + k * step \<le> high" if "k \<le> (stop - start) div step" for k
  proof -
    have "k * step \<le> (stop - start) div step * step" using that \<open>1 \<le> step\<close> by (simp add: mult_right_mono)
    also have "\<dots> \<le> stop - start" using div_mult_mod_eq [of "stop - start" step] pos_mod_sign [of step "stop - start"] \<open>1 \<le> step\<close> by linarith
    finally show ?thesis using r(2) by simp
  qed
  moreover have "low \<le> start + k * step" if "0 \<le> k" for k
    using r(1) mult_nonneg_nonneg [OF that, of step] \<open>1 \<le> step\<close> by linarith
  ultimately show ?thesis using r by (auto simp: xs range_step_def intro: order.trans)
qed

lemma cron_field_range: "cron_field whole low high = Inr xs \<Longrightarrow> \<forall>x \<in> set xs. low \<le> x \<and> x \<le> high"
proof -
  have "cron_parts low high whole parts = Inr xs \<Longrightarrow> \<forall>x \<in> set xs. low \<le> x \<and> x \<le> high" for parts
    by (induction parts arbitrary: xs) (force dest: cron_part_range split: sum.splits)+
  then show "cron_field whole low high = Inr xs \<Longrightarrow> ?thesis" by (simp add: cron_field_def)
qed

lemma cron_all_Cons:
  "cron_all (p # ps) ((low, high) # rs) = Inr yss \<Longrightarrow>
     \<exists>xs zss. yss = xs # zss \<and> cron_field p low high = Inr xs \<and> cron_all ps rs = Inr zss"
  by (auto split: sum.splits)

lemma cron_fields_range:
  assumes "cron_fields expr = Inr f"
  shows "(\<forall>x \<in> set (minutes f). 0 \<le> x \<and> x \<le> 59) \<and> (\<forall>x \<in> set (hours f). 0 \<le> x \<and> x \<le> 23) \<and>
    (\<forall>x \<in> set (mdays f). 1 \<le> x \<and> x \<le> 31) \<and> (\<forall>x \<in> set (months f). 1 \<le> x \<and> x \<le> 12) \<and>
    (\<forall>x \<in> set (weekdays f). 0 \<le> x \<and> x \<le> 6)"
proof -
  obtain g where g: "length (split_ws expr) = 5" "cron_all (split_ws expr) CRON_RANGES = Inr g"
    and f: "f = \<lparr>minutes = g ! 0, hours = g ! 1, mdays = g ! 2, months = g ! 3,
      weekdays = map (\<lambda>day. if day = 7 then 0 else day) (g ! 4)\<rparr>"
    using assms by (auto simp: cron_fields_def Let_def split: if_splits sum.splits)
  obtain a b c d e where w: "split_ws expr = [a, b, c, d, e]"
    using g(1) by (auto simp: numeral_eq_Suc length_Suc_conv)
  from g(2) obtain xa xb xc xd xe where "g = [xa, xb, xc, xd, xe]"
    "cron_field a 0 59 = Inr xa" "cron_field b 0 23 = Inr xb" "cron_field c 1 31 = Inr xc"
    "cron_field d 1 12 = Inr xd" "cron_field e 0 7 = Inr xe"
    unfolding w CRON_RANGES_def by (auto split: sum.splits)
  then show ?thesis
    using cron_field_range [of a 0 59 xa] cron_field_range [of b 0 23 xb] cron_field_range [of c 1 31 xc]
      cron_field_range [of d 1 12 xd] cron_field_range [of e 0 7 xe] by (force simp: f)
qed

section \<open>The next run comes later\<close>

text \<open>Between \<open>after\<close> and its neighbours the clock is not put back: later local times are later
  epochs, and \<open>after\<close> is the epoch of its local time.\<close>

definition steady_clock :: "(datetime \<Rightarrow> rat) \<Rightarrow> (rat \<Rightarrow> datetime) \<Rightarrow> rat \<Rightarrow> bool" where
  "steady_clock epoch local after =
     ((\<forall>a b. valid_datetime a \<longrightarrow> valid_datetime b \<longrightarrow> stamp a < stamp b \<longrightarrow> epoch a < epoch b) \<and>
      valid_datetime (local after) \<and> epoch (local after) = after)"

lemma cron_start_after:
  assumes "valid_datetime t"
  shows "stamp t < stamp (cron_start t)" and "valid_datetime (cron_start t)"
proof -
  have v: "valid_datetime (t\<lparr>dt_second := 0\<rparr>)" using assms by (simp add: valid_datetime_def)
  then show "valid_datetime (cron_start t)" by (simp add: cron_start_def)
  have "dt_second t < 60" "0 \<le> dt_minute t" "dt_minute t < 60" "dt_hour t < 24" using assms by (simp_all add: valid_datetime_def)
  then show "stamp t < stamp (cron_start t)"
    using next_day_greater [of "dt_date t"]
    by (simp add: stamp_def cron_start_def add_minute_def pair_less del: next_day.simps)
qed

lemma cron_moment_least:
  assumes "cron_fields expr = Inr f" and "valid_datetime (local after)"
    and "rd = (split_ws expr ! 2 \<noteq> ''*'')" and "rw = (split_ws expr ! 4 \<noteq> ''*'')" and "start = cron_start (local after)"
  shows "case cron_moment local expr after of
      Inl e \<Rightarrow> False
    | Inr None \<Rightarrow> (\<forall>t. cron_matches f rd rw t \<and> stamp start \<le> stamp t \<longrightarrow>
        (next_day ^^ CRON_HORIZON_DAYS) (dt_date start) \<le> dt_date t)
    | Inr (Some t) \<Rightarrow> cron_matches f rd rw t \<and> stamp start \<le> stamp t \<and>
        (\<forall>t'. cron_matches f rd rw t' \<and> stamp start \<le> stamp t' \<longrightarrow> stamp t \<le> stamp t')"
proof -
  have v: "valid_date (dt_date (at_time 0 0 start))"
    using cron_start_after(2) [OF assms(2)] assms(5) by (simp add: valid_datetime_def)
  have le: "\<forall>t. cron_matches f rd rw t \<and> stamp start \<le> stamp t \<longrightarrow> dt_date (at_time 0 0 start) \<le> dt_date t"
    by (auto simp: stamp_def pair_le)
  have run: "cron_moment local expr after = Inr (cron_search f rd rw start CRON_HORIZON_DAYS (at_time 0 0 start))"
    by (simp add: cron_moment_def assms(1,3,4,5) Let_def)
  from cron_search_least [OF v le, of CRON_HORIZON_DAYS] show ?thesis
    unfolding run by (cases "cron_search f rd rw start CRON_HORIZON_DAYS (at_time 0 0 start)") simp_all
qed

lemma cron_next_after:
  assumes "cron_fields expr = Inr f" and "steady_clock epoch local after"
  shows "case cron_next epoch local expr after of Inl e \<Rightarrow> False | Inr None \<Rightarrow> True | Inr (Some u) \<Rightarrow> after < u"
proof -
  have v: "valid_datetime (local after)" and e: "epoch (local after) = after"
    and mono: "\<And>a b. valid_datetime a \<Longrightarrow> valid_datetime b \<Longrightarrow> stamp a < stamp b \<Longrightarrow> epoch a < epoch b"
    using assms(2) by (auto simp: steady_clock_def)
  note cs = cron_start_after [OF v]
  have "after < epoch t" if "cron_matches f rd rw t" "stamp (cron_start (local after)) \<le> stamp t" for t rd rw
  proof -
    have "valid_datetime t"
      using that(1) cron_fields_range [OF assms(1)] by (force simp: cron_matches_def valid_datetime_def)
    from mono [OF v this] cs(1) that(2) e show ?thesis by (simp add: order.strict_trans1 order.strict_trans2)
  qed
  with cron_moment_least [where local = local and after = after, OF assms(1) v refl refl refl] show ?thesis
    by (cases "cron_moment local expr after") (auto simp: cron_next_def split: option.splits)
qed

lemma timed_search_after: "timed_search epoch on_day h m after base offsets = Some u \<Longrightarrow> after < u"
  by (induction offsets) (auto simp: Let_def split: if_splits)

lemma timed_search_found:
  "offset \<in> set offsets \<Longrightarrow> on_day (dt_date (add_days offset base)) \<Longrightarrow>
     after < epoch (at_time h m (add_days offset base)) \<Longrightarrow>
     timed_search epoch on_day h m after base offsets \<noteq> None"
  by (induction offsets) (auto simp: Let_def)

lemma timed_search_some:
  assumes "steady_clock epoch local after" and "0 \<le> h" "h < 24" "0 \<le> m" "m < 60"
    and "0 < offset" "offset < 8" "on_day ((next_day ^^ offset) (dt_date (local after)))"
  shows "timed_search epoch on_day h m after (local after) [0..<8] \<noteq> None"
proof (rule timed_search_found)
  let ?t = "at_time h m (add_days offset (local after))"
  have v: "valid_datetime (local after)" and e: "epoch (local after) = after"
    using assms(1) by (auto simp: steady_clock_def)
  have "valid_datetime ?t" using v assms(2-5) by (simp add: valid_datetime_def add_days_def)
  moreover have "stamp (local after) < stamp ?t"
    using days_later_greater [OF assms(6)] by (simp add: stamp_def add_days_def pair_less)
  ultimately show "after < epoch ?t" using assms(1) v e by (auto simp: steady_clock_def)
qed (use assms in \<open>auto simp: add_days_def\<close>)

lemma weekday_comes:
  assumes "valid_date d" and "0 \<le> w" "w \<le> 6"
  obtains n where "0 < n" "n < 8" "weekday ((next_day ^^ n) d) = w"
proof -
  define k where "k = (w - weekday d - 1) mod 7 + 1"
  have "0 < k" "k < 8" using pos_mod_bound [of 7 "w - weekday d - 1"] pos_mod_sign [of 7 "w - weekday d - 1"]
    unfolding k_def by linarith+
  have "weekday d + k = (weekday d + 1) + (w - weekday d - 1) mod 7" by (simp add: k_def)
  also have "\<dots> mod 7 = ((weekday d + 1) + (w - weekday d - 1)) mod 7" by (rule mod_add_right_eq)
  also have "\<dots> = w" using assms(2,3) by simp
  finally have "(weekday d + k) mod 7 = w" .
  then have "weekday ((next_day ^^ nat k) d) = w"
    using \<open>0 < k\<close> weekday_days_later [OF assms(1), of "nat k"] by simp
  with \<open>0 < k\<close> \<open>k < 8\<close> show thesis by (intro that [of "nat k"]) auto
qed

lemma parsed_forms:
  assumes "parse_schedule fromiso py_str raw = Inr s"
  shows "case s of
      Once t \<Rightarrow> True
    | Interval n \<Rightarrow> 0 < n
    | Daily h m \<Rightarrow> 0 \<le> h \<and> h < 24 \<and> 0 \<le> m \<and> m < 60
    | Weekly days h m \<Rightarrow> 0 \<le> h \<and> h < 24 \<and> 0 \<le> m \<and> m < 60 \<and> days \<noteq> [] \<and> set days \<subseteq> {0..6}
    | Cron e \<Rightarrow> \<exists>f. cron_fields e = Inr f"
proof -
  obtain d where raw: "raw = JObj d" using assms by (cases raw) (auto simp: parse_schedule_def)
  let ?k = "obj_get d ''kind''"
  consider "?k = JStr ''cron''" | "?k = JStr ''once''" | "?k = JStr ''interval''" | "?k = JStr ''daily''" | "?k = JStr ''weekly''"
    using assms by (auto simp: parse_schedule_def raw Let_def split: if_splits)
  then show ?thesis
  proof cases
    case 1
    with assms show ?thesis by (auto simp: parse_schedule_def raw Let_def split: sum.splits)
  next
    case 2
    with assms have "parse_once fromiso d = Inr s" by (simp add: parse_schedule_def raw)
    from parse_once_form [OF this] show ?thesis by auto
  next
    case 3
    with assms have "parse_interval d = Inr s" by (simp add: parse_schedule_def raw)
    from parse_interval_form [OF this] show ?thesis by auto
  next
    case 4
    with assms have "parse_timed True d = Inr s" by (simp add: parse_schedule_def raw)
    from parse_timed_form [OF this] show ?thesis by auto
  next
    case 5
    with assms have "parse_timed False d = Inr s" by (simp add: parse_schedule_def raw)
    from parse_timed_form [OF this] obtain h m x xs where "0 \<le> h \<and> h < 24 \<and> 0 \<le> m \<and> m < 60"
      "set (x # xs) \<subseteq> {0..6}" "s = Weekly (sorted_set (x # xs)) h m" by auto
    moreover have "sorted_set (x # xs) \<noteq> []" using set_sorted_set [of "x # xs"] by force
    ultimately show ?thesis by (simp add: set_sorted_set)
  qed
qed


definition steady_clock_at :: "datetime \<Rightarrow> bool" where
  "steady_clock_at t = steady_clock utc_epoch (\<lambda>u. t) (utc_epoch t)"

lemma steady_utc: "valid_datetime t \<Longrightarrow> steady_clock_at t"
  using utc_epoch_less by (simp add: steady_clock_at_def steady_clock_def)

definition friday_evening :: datetime where
  "friday_evening = \<lparr>dt_date = (2026, 10, 23), dt_hour = 18, dt_minute = 50, dt_second = 7\<rparr>"

lemma valid_friday: "valid_datetime friday_evening"
  by (simp add: valid_datetime_def friday_evening_def days_in_month_def)


text \<open>C36. The next run of a cron expression is the first moment that matches it: of all local times
  from the next minute on whose month, day, hour and minute the expression allows (with both day
  fields restricted either one suffices), it is the earliest, and when there is none it has
  looked at every day of four years.\<close>

theorem cron_next_is_first_match:
  assumes "cron_fields expr = Inr f" and "valid_datetime (local after)"
  shows "let rd = (split_ws expr ! 2 \<noteq> ''*''); rw = (split_ws expr ! 4 \<noteq> ''*''); start = cron_start (local after) in
    case cron_moment local expr after of
      Inl e \<Rightarrow> False
    | Inr None \<Rightarrow> cron_next epoch local expr after = Inr None \<and>
        (\<forall>t. cron_matches f rd rw t \<and> stamp start \<le> stamp t \<longrightarrow> (next_day ^^ CRON_HORIZON_DAYS) (dt_date start) \<le> dt_date t)
    | Inr (Some t) \<Rightarrow> cron_next epoch local expr after = Inr (Some (epoch t)) \<and>
        cron_matches f rd rw t \<and> stamp start \<le> stamp t \<and>
        (\<forall>t'. cron_matches f rd rw t' \<and> stamp start \<le> stamp t' \<longrightarrow> stamp t \<le> stamp t')"
  using cron_moment_least [where local = local and after = after, OF assms refl refl refl]
  unfolding Let_def cron_next_def
  by (cases "cron_moment local expr after" rule: sum.exhaust) (simp, simp split: option.splits)

definition office_hours :: string where
  "office_hours = ''*/15 9-18 * * 1-5''"

theorem cron_next_is_first_match_witness:
  "\<exists>f t. cron_fields office_hours = Inr f \<and> dt_date t = (2026, 10, 26) \<and> dt_hour t = 9 \<and> dt_minute t = 0 \<and>
     (\<forall>t'. cron_matches f False True t' \<and> stamp (cron_start friday_evening) \<le> stamp t' \<longrightarrow> stamp t \<le> stamp t')"
proof -
  define f where "f = (case cron_fields office_hours of Inr f \<Rightarrow> f | Inl _ \<Rightarrow> \<lparr>minutes = [], hours = [], mdays = [], months = [], weekdays = []\<rparr>)"
  have "case cron_fields office_hours of Inr _ \<Rightarrow> True | Inl _ \<Rightarrow> False" by code_simp
  then have f: "cron_fields office_hours = Inr f" by (simp add: f_def split: sum.splits)
  have m: "cron_moment (\<lambda>u. friday_evening) office_hours 0 =
      Inr (Some \<lparr>dt_date = (2026, 10, 26), dt_hour = 9, dt_minute = 0, dt_second = 0\<rparr>)" by code_simp
  have w: "(split_ws office_hours ! 2 \<noteq> ''*'') = False" "(split_ws office_hours ! 4 \<noteq> ''*'') = True" by code_simp+
  from cron_next_is_first_match [where local = "\<lambda>u. friday_evening" and after = 0 and epoch = utc_epoch, OF f valid_friday]
  have "\<forall>t'. cron_matches f False True t' \<and> stamp (cron_start friday_evening) \<le> stamp t' \<longrightarrow>
      stamp \<lparr>dt_date = (2026, 10, 26), dt_hour = 9, dt_minute = 0, dt_second = 0\<rparr> \<le> stamp t'"
    unfolding Let_def m w by simp
  with f show ?thesis
    by (intro exI [of _ f] exI [of _ "\<lparr>dt_date = (2026, 10, 26), dt_hour = 9, dt_minute = 0, dt_second = 0\<rparr>"] conjI) simp_all
qed

section \<open>Relative schedules\<close>

lemma skip_repeated_reached: "skip_repeated epoch due t = Some u \<Longrightarrow> due \<le> epoch u"
  by (rule skip_repeated.raw_induct [of "\<lambda>epoch due t u. due \<le> epoch u"]) (auto split: if_splits)

text \<open>Never earlier: the local time written is at or after the time asked for, in every time
  zone in which the search for it ends.\<close>

theorem resolve_after_never_early:
  assumes "resolve_after epoch local (JObj d) now = Some (Inr v)" and "obj_get d ''kind'' = JStr ''once''"
    and "dict_get d ''after'' = Some (JObj a)" and "after_seconds a = Inr secs"
  shows "\<exists>t. now + of_int secs \<le> epoch t \<and> v = JObj (dict_set ''at'' (JStr (strftime_minutes t)) (dict_pop ''after'' d))"
proof -
  define due :: rat where "due = of_int (\<lceil>(now + of_int secs) / 60\<rceil> * 60)"
  have g: "obj_get d ''after'' = JObj a" using assms(3) by (simp add: obj_get_def)
  obtain t where t: "skip_repeated epoch due (local due) = Some t"
    and v: "v = JObj (dict_set ''at'' (JStr (strftime_minutes t)) (dict_pop ''after'' d))"
    using assms g by (auto simp: resolve_after_def due_def Let_def split: if_splits option.splits)
  have "x \<le> of_int \<lceil>x / 60\<rceil> * 60" for x :: rat
    using le_of_int_ceiling [of "x / 60"] by linarith
  then have "now + of_int secs \<le> due" by (simp add: due_def)
  with skip_repeated_reached [OF t] v show ?thesis by (intro exI [of _ t]) auto
qed

section \<open>The hour the clock repeats\<close>

text \<open>A zone that puts its clock back from 03:00 to 02:00 on 25 October 2026; a naive time in the
  repeated hour means the first one. At 02:30 of the second pass, the next run of a cron
  expression for minute 31 of every hour is 59 minutes in the past.\<close>

definition autumn_epoch :: "datetime \<Rightarrow> rat" where
  "autumn_epoch t = utc_epoch t - (if stamp t < ((2026, 10, 25), 3, 0, 0) then 7200 else 3600)"

definition second_pass :: datetime where
  "second_pass = \<lparr>dt_date = (2026, 10, 25), dt_hour = 2, dt_minute = 30, dt_second = 0\<rparr>"

theorem cron_next_in_the_past:
  "(let after = utc_epoch second_pass - 3600 in
    cron_next autumn_epoch (\<lambda>u. second_pass) ''31 * * * *'' after = Inr (Some (after - 59 * 60)))"
proof -
  have m: "cron_moment (\<lambda>u. second_pass) ''31 * * * *'' u = Inr (Some (second_pass\<lparr>dt_minute := 31\<rparr>))" for u
  proof -
    have "cron_moment (\<lambda>u. second_pass) ''31 * * * *'' 0 = Inr (Some (second_pass\<lparr>dt_minute := 31\<rparr>))" by code_simp
    then show ?thesis by (simp add: cron_moment_def)
  qed
  have "stamp (second_pass\<lparr>dt_minute := 31\<rparr>) < ((2026, 10, 25), 3, 0, 0)"
    by (simp add: stamp_def second_pass_def pair_less)
  moreover have "utc_epoch (second_pass\<lparr>dt_minute := 31\<rparr>) = utc_epoch second_pass + 60"
    by (simp add: utc_epoch_def second_pass_def)
  ultimately show ?thesis by (simp add: cron_next_def m autumn_epoch_def Let_def)
qed

text \<open>A superscript digit is a digit for \<open>str.isdigit\<close> and not for \<open>int\<close>.\<close>

theorem superscript_step_raises: "cron_fields (''*/'' @ [char_of (178::nat)] @ '' * * * *'') = Inl PlainValueError"
  by code_simp

end
