(* ===== verification/Schedule_Service.thy ===== *)
theory Schedule_Service
  imports Schedule_Rules
begin

text \<open>
  Scheduled tasks (\<^verbatim>\<open>src/src/rinari/schedule/service.py\<close>) and the table they are stored in
  (\<^verbatim>\<open>src/src/rinari/storage/repositories/schedules.py\<close>): validation of a task as the owner or a
  model gives it, creation, change, deletion, proposals and moving a task past a run.

  A task is a dictionary, as in the code. What the service asks of the rest of the program
  (whether a project, model, skill, agent or conversation exists, the check of a delivery, the
  resolution of a watched folder, the size of JSON text) is a record of parameters, and so are
  the clock (one reading per call) and the identifiers. Two stored dictionaries are compared without regard
  to the order of their keys. Runs of a task live in a table of their own, not modelled.
\<close>

section \<open>Errors\<close>

text \<open>\<open>ScheduledTaskError\<close>, a \<open>ValueError\<close> of the schedule rules that is none of theirs, and the
  \<open>KeyError\<close> of an unknown task. The messages leave out the numbers and names.\<close>

datatype schedule_task_error = TaskError string | LeakedValueError | UnknownTask

definition require :: "bool \<Rightarrow> string \<Rightarrow> schedule_task_error + unit" where
  "require ok msg = (if ok then Inr () else Inl (TaskError msg))"

lemma require_Inr [simp]: "require ok msg = Inr u \<longleftrightarrow> ok"
  by (simp add: require_def)

section \<open>The parts of a task\<close>

definition KINDS :: "string list" where
  "KINDS = [''agent'', ''reminder'', ''command'', ''tool'']"

definition TOOL_ON_RESULT :: "string list" where
  "TOOL_ON_RESULT = [''nothing'', ''notify'', ''agent'', ''deliver'']"

definition SHELLS :: "string list" where
  "SHELLS = [''default'', ''cmd'', ''powershell'', ''bash'']"

definition ON_RESULT :: "string list" where
  "ON_RESULT = [''nothing'', ''notify_failure'', ''agent'']"

definition MODES :: "string list" where
  "MODES = [''plan'', ''build'', ''review'']"

definition PERMISSION_PROFILES :: "string list" where
  "PERMISSION_PROFILES = [''read-only'', ''workspace'', ''full-access'']"

definition TARGETS :: "string list" where
  "TARGETS = [''new_session'', ''this_conversation'']"

definition NOTIFY :: "string list" where
  "NOTIFY = [''all'', ''problems'', ''none'']"

abbreviation MAX_NAME :: int where "MAX_NAME \<equiv> 80"
abbreviation MAX_PROMPT :: int where "MAX_PROMPT \<equiv> 8000"
abbreviation MAX_GRANTS :: int where "MAX_GRANTS \<equiv> 50"
abbreviation MAX_SKILLS :: int where "MAX_SKILLS \<equiv> 10"
abbreviation MAX_COMMAND :: int where "MAX_COMMAND \<equiv> 4000"
abbreviation MAX_COMMAND_TIMEOUT_S :: int where "MAX_COMMAND_TIMEOUT_S \<equiv> 3600"
abbreviation MAX_TOOL_ARGUMENTS :: int where "MAX_TOOL_ARGUMENTS \<equiv> 8000"
abbreviation MAX_PER_DAY :: int where "MAX_PER_DAY \<equiv> 1000"

abbreviation len :: "'a list \<Rightarrow> int" where "len xs \<equiv> int (length xs)"

text \<open>\<open>value or default\<close>.\<close>

definition or_else :: "json \<Rightarrow> json \<Rightarrow> json" where
  "or_else v d = (if truthy v then v else d)"

text \<open>\<open>value in NAMES\<close>, for a value and a tuple of strings.\<close>

definition one_of :: "string list \<Rightarrow> json \<Rightarrow> bool" where
  "one_of names v = (case v of JStr s \<Rightarrow> s \<in> set names | _ \<Rightarrow> False)"

text \<open>A string with something in it besides blanks and at most \<open>n\<close> characters long.\<close>

definition filled :: "int \<Rightarrow> json \<Rightarrow> string option" where
  "filled n v = (case v of JStr s \<Rightarrow> if strip s \<noteq> [] \<and> len s \<le> n then Some s else None | _ \<Rightarrow> None)"

definition needed :: "'a option \<Rightarrow> string \<Rightarrow> schedule_task_error + 'a" where
  "needed v msg = (case v of Some s \<Rightarrow> Inr s | None \<Rightarrow> Inl (TaskError msg))"

lemma needed_Inr [simp]: "needed v msg = Inr s \<longleftrightarrow> v = Some s"
  by (cases v) (auto simp: needed_def)

lemma filled_Some: "filled n v = Some s \<longleftrightarrow> v = JStr s \<and> strip s \<noteq> [] \<and> len s \<le> n"
  by (auto simp: filled_def split: json.splits)

record env =
  project_exists :: "string \<Rightarrow> bool"
  model_exists :: "string \<Rightarrow> bool"
  skill_exists :: "string \<Rightarrow> bool"
  agent_exists :: "string \<Rightarrow> bool"
  session_exists :: "string \<Rightarrow> bool"
  check_delivery :: "(string \<Rightarrow> json \<Rightarrow> string + json) option"
  expanduser :: "string \<Rightarrow> string"
  is_folder :: "string \<Rightarrow> bool"
  json_size :: "json \<Rightarrow> nat option"
  epoch_of :: "datetime \<Rightarrow> rat"
  local_of :: "rat \<Rightarrow> datetime"
  fromisoformat_of :: "string \<Rightarrow> (datetime \<times> bool) option"
  str_of :: "json \<Rightarrow> string"

definition as_obj :: "json \<Rightarrow> string \<Rightarrow> schedule_task_error + (string \<times> json) list" where
  "as_obj v msg = (case v of JObj d \<Rightarrow> Inr d | _ \<Rightarrow> Inl (TaskError msg))"

lemma as_obj_Inr [simp]: "as_obj v msg = Inr d \<longleftrightarrow> v = JObj d"
  by (cases v) (auto simp: as_obj_def)

definition is_text :: "json \<Rightarrow> bool" where
  "is_text v = (case v of JStr s \<Rightarrow> True | _ \<Rightarrow> False)"

definition text_up_to :: "int \<Rightarrow> json \<Rightarrow> bool" where
  "text_up_to n v = (case v of JStr s \<Rightarrow> len s \<le> n | _ \<Rightarrow> False)"

definition int_within :: "int \<Rightarrow> int \<Rightarrow> json \<Rightarrow> bool" where
  "int_within a b v = (case v of JInt n \<Rightarrow> a \<le> n \<and> n \<le> b | _ \<Rightarrow> False)"

definition command_spec :: "json \<Rightarrow> schedule_task_error + json" where
  "command_spec raw =
     bindE (as_obj raw ''A command task needs its command'') (\<lambda>d.
     bindE (needed (filled MAX_COMMAND (obj_get d ''command'')) ''The command must be 1..4000 characters'') (\<lambda>command.
     let shell = or_else (obj_get d ''shell'') (JStr ''default'') in
     bindE (require (one_of SHELLS shell) ''Shell must be one of its names'') (\<lambda>_.
     let cwd = or_else (obj_get d ''cwd'') JNull in
     bindE (require (cwd = JNull \<or> text_up_to 1000 cwd) ''The folder must be a path'') (\<lambda>_.
     let limit_s = (case dict_get d ''timeout_s'' of Some v \<Rightarrow> v | None \<Rightarrow> JInt 600) in
     bindE (require (int_within 1 MAX_COMMAND_TIMEOUT_S limit_s) ''The time limit must be 1..3600 seconds'') (\<lambda>_.
     let env = or_else (obj_get d ''env'') (JObj []) in
     bindE (require (case env of JObj kvs \<Rightarrow> list_all (\<lambda>(k, v). is_text v) kvs | _ \<Rightarrow> False)
       ''Environment variables must be text'') (\<lambda>_.
     let on_result = or_else (obj_get d ''on_result'') (JStr ''notify_failure'') in
     bindE (require (one_of ON_RESULT on_result) ''on_result must be one of its names'') (\<lambda>_.
     Inr (JObj [(''command'', JStr (strip command)), (''shell'', shell), (''cwd'', cwd),
                (''timeout_s'', limit_s), (''env'', env), (''on_result'', on_result)]))))))))"

definition tool_call :: "env \<Rightarrow> json \<Rightarrow> schedule_task_error + (string \<times> json) list" where
  "tool_call e raw =
     bindE (as_obj raw ''It needs its server and tool'') (\<lambda>d.
     bindE (needed (filled 200 (obj_get d ''server'')) ''It needs its connector (server)'') (\<lambda>server.
     bindE (needed (filled 256 (obj_get d ''tool'')) ''It needs its tool'') (\<lambda>tool_name.
     let arguments = or_else (obj_get d ''arguments'') (JObj []) in
     bindE (as_obj arguments ''arguments must be an object'') (\<lambda>_.
     (case json_size e arguments of
        None \<Rightarrow> Inl (TaskError ''arguments must be plain JSON'')
      | Some written \<Rightarrow>
          bindE (require (int written \<le> MAX_TOOL_ARGUMENTS) ''arguments must be under 8000 characters'') (\<lambda>_.
          Inr [(''server'', JStr (strip server)), (''tool'', JStr (strip tool_name)), (''arguments'', arguments)]))))))"

definition tool_spec :: "env \<Rightarrow> json \<Rightarrow> schedule_task_error + json" where
  "tool_spec e raw =
     bindE (tool_call e raw) (\<lambda>spec.
     bindE (as_obj raw ''It needs its server and tool'') (\<lambda>d.
     let on_result = or_else (obj_get d ''on_result'') (JStr ''notify'') in
     bindE (require (one_of TOOL_ON_RESULT on_result) ''on_result must be one of its names'') (\<lambda>_.
     bindE (if on_result = JStr ''deliver''
            then bindE (tool_call e (obj_get d ''deliver'')) (\<lambda>c. Inr [(''deliver'', JObj c)])
            else Inr []) (\<lambda>delivery.
     let max_per_day = obj_get d ''max_per_day'' in
     bindE (require (max_per_day = JNull \<or> int_within 1 MAX_PER_DAY max_per_day) ''max_per_day must be 1..1000'') (\<lambda>_.
     let contains = obj_get d ''only_if_contains'' in
     bindE (require (contains = JNull \<or> filled 200 contains \<noteq> None) ''only_if_contains must be text'') (\<lambda>_.
     Inr (JObj (spec @ [(''on_result'', on_result)] @ delivery @
       [(''max_per_day'', max_per_day),
        (''only_if_contains'', (case contains of JStr s \<Rightarrow> JStr (strip s) | _ \<Rightarrow> JNull))]))))))))"

definition watch_spec :: "env \<Rightarrow> json \<Rightarrow> schedule_task_error + json" where
  "watch_spec e raw =
     (if raw = JNull then Inr JNull
      else bindE (as_obj raw ''watch must be {path}'') (\<lambda>d.
           bindE (needed (filled 1000 (obj_get d ''path'')) ''A watched folder needs its path'') (\<lambda>p.
           let folder = expanduser e (strip p) in
           bindE (require (is_folder e folder) ''The watched folder must be an existing folder'') (\<lambda>_.
           Inr (JObj ((''path'', JStr folder) #
             (if is_text (obj_get d ''fingerprint'') \<and> p = folder
              then [(''fingerprint'', obj_get d ''fingerprint'')] else [])))))))"

definition grant_spec :: "json \<Rightarrow> schedule_task_error + json" where
  "grant_spec raw =
     bindE (as_obj raw ''Each grant must be {capability, target?}'') (\<lambda>d.
     bindE (needed (filled 120 (obj_get d ''capability'')) ''A grant needs a capability'') (\<lambda>capability.
     let target = obj_get d ''target'' in
     bindE (require (target = JNull \<or> text_up_to 1000 target) ''A grant target must be text'') (\<lambda>_.
     Inr (JObj [(''capability'', JStr (strip capability)), (''target'', or_else target JNull)]))))"

section \<open>Validation\<close>

text \<open>\<open>{**a, **b}\<close>, and \<open>list(dict.fromkeys(xs))\<close>.\<close>

definition merge :: "(string \<times> json) list \<Rightarrow> (string \<times> json) list \<Rightarrow> (string \<times> json) list" where
  "merge a b = fold (\<lambda>(k, v) d. dict_set k v d) b a"

fun unique_first :: "'a list \<Rightarrow> 'a list \<Rightarrow> 'a list" where
  "unique_first seen [] = []"
| "unique_first seen (x # xs) = (if x \<in> set seen then unique_first seen xs else x # unique_first (x # seen) xs)"

fun each :: "(json \<Rightarrow> schedule_task_error + json) \<Rightarrow> json list \<Rightarrow> schedule_task_error + json list" where
  "each f [] = Inr []"
| "each f (x # xs) = bindE (f x) (\<lambda>y. bindE (each f xs) (\<lambda>ys. Inr (y # ys)))"

definition as_list :: "json \<Rightarrow> json list option" where
  "as_list v = (case v of JList xs \<Rightarrow> Some xs | _ \<Rightarrow> None)"

text \<open>\<open>None\<close>, or a string the rest of the program knows.\<close>

definition known_or_none :: "(string \<Rightarrow> bool) \<Rightarrow> json \<Rightarrow> bool" where
  "known_or_none known v = (case v of JNull \<Rightarrow> True | JStr s \<Rightarrow> known s | _ \<Rightarrow> False)"

definition known_text :: "(string \<Rightarrow> bool) \<Rightarrow> json \<Rightarrow> bool" where
  "known_text known v = (case v of JStr s \<Rightarrow> known s | _ \<Rightarrow> False)"

definition delivery :: "env \<Rightarrow> json \<Rightarrow> json \<Rightarrow> schedule_task_error + json" where
  "delivery e agent_id raw =
     (if raw = JNull \<or> raw = JObj [] then Inr JNull
      else (case agent_id of
              JStr a \<Rightarrow>
                (case check_delivery e of
                   None \<Rightarrow> Inl (TaskError ''Delivering to an office needs the Agency'')
                 | Some check \<Rightarrow> (case check a raw of Inl msg \<Rightarrow> Inl (TaskError msg) | Inr v \<Rightarrow> Inr v))
            | _ \<Rightarrow> Inl (TaskError ''Only an agent's rule delivers to an office'')))"

text \<open>The message of a schedule error is the message of the task's; anything else leaks.\<close>

definition schedule_failed :: "schedule_error \<Rightarrow> schedule_task_error" where
  "schedule_failed err = (case err of ScheduleError msg \<Rightarrow> TaskError msg | PlainValueError \<Rightarrow> LeakedValueError)"

definition lift_schedule :: "schedule_error + 'a \<Rightarrow> schedule_task_error + 'a" where
  "lift_schedule r = (case r of Inl err \<Rightarrow> Inl (schedule_failed err) | Inr v \<Rightarrow> Inr v)"

lemma lift_schedule_Inr [simp]: "lift_schedule r = Inr v \<longleftrightarrow> r = Inr v"
  by (cases r) (auto simp: lift_schedule_def)

definition parse_of :: "env \<Rightarrow> json \<Rightarrow> schedule_error + Schedule" where
  "parse_of e v = parse_schedule (fromisoformat_of e) (str_of e) v"

text \<open>Where the task runs: what it may carry in its own conversation.\<close>

record placement =
  p_session :: json
  p_model :: json
  p_skills :: "json list"
  p_profile :: json

definition place ::
  "env \<Rightarrow> json \<Rightarrow> json \<Rightarrow> json \<Rightarrow> json list \<Rightarrow> placement \<Rightarrow> schedule_task_error + placement" where
  "place e kind target session_id grants given =
     (if target = JStr ''this_conversation''
      then bindE (require (kind = JStr ''agent'') ''Only an agent task can run in its conversation'') (\<lambda>_.
           bindE (require (known_text (session_exists e) session_id) ''Unknown conversation'') (\<lambda>_.
           bindE (require (grants = []) ''A task that runs in its conversation carries no grants'') (\<lambda>_.
           Inr \<lparr>p_session = session_id, p_model = JNull, p_skills = [], p_profile = JNull\<rparr>)))
      else Inr (given\<lparr>p_session := JNull\<rparr>))"

text \<open>\<open>_normalize\<close> once \<open>merged["schedule"]\<close> is settled.\<close>

definition normalize_merged :: "env \<Rightarrow> (string \<times> json) list \<Rightarrow> schedule_task_error + (string \<times> json) list" where
  "normalize_merged e merged =
     (let kind = (case dict_get merged ''kind'' of Some v \<Rightarrow> v | None \<Rightarrow> JStr ''agent'') in
      bindE (lift_schedule (parse_of e (obj_get merged ''schedule''))) (\<lambda>schedule.
      let prompt = or_else (obj_get merged ''prompt'') (JStr []) in
      bindE (require (text_up_to MAX_PROMPT prompt) ''The prompt must be text up to 8000 characters'') (\<lambda>_.
      bindE (if kind = JStr ''command'' then command_spec (obj_get merged ''command'') else Inr JNull) (\<lambda>command.
      bindE (if kind = JStr ''tool'' then tool_spec e (obj_get merged ''tool'') else Inr JNull) (\<lambda>tool_part.
      bindE (watch_spec e (obj_get merged ''watch'')) (\<lambda>watch.
      bindE (require (\<not> (watch \<noteq> JNull \<and> kind = JStr ''reminder'')) ''A reminder cannot watch a folder'') (\<lambda>_.
      bindE (require (filled MAX_PROMPT prompt \<noteq> None \<or> kind = JStr ''command'' \<or> kind = JStr ''tool'')
        ''Say what to do (agent) or what to remind (reminder)'') (\<lambda>_.
      let project = or_else (obj_get merged ''project_id'') JNull in
      bindE (require (known_or_none (project_exists e) project) ''Unknown project'') (\<lambda>_.
      let mode = or_else (obj_get merged ''mode'') (JStr ''build'') in
      bindE (require (one_of MODES mode) ''Mode must be plan, build or review'') (\<lambda>_.
      let profile = or_else (obj_get merged ''permission_profile'') JNull in
      bindE (require (profile = JNull \<or> one_of PERMISSION_PROFILES profile)
        ''Permission mode must be read-only, workspace or full-access'') (\<lambda>_.
      let model = or_else (obj_get merged ''model'') JNull in
      bindE (require (known_or_none (model_exists e) model) ''Unknown model'') (\<lambda>_.
      bindE (needed (as_list (or_else (obj_get merged ''skills'') (JList []))) ''Skills must be a list of up to 10 names'') (\<lambda>skills.
      bindE (require (len skills \<le> MAX_SKILLS) ''Skills must be a list of up to 10 names'') (\<lambda>_.
      bindE (require (list_all (known_text (skill_exists e)) skills) ''Unknown skill'') (\<lambda>_.
      bindE (needed (as_list (or_else (obj_get merged ''grants'') (JList []))) ''Grants must be a list of up to 50'') (\<lambda>grants_raw.
      bindE (require (len grants_raw \<le> MAX_GRANTS) ''Grants must be a list of up to 50'') (\<lambda>_.
      bindE (each grant_spec grants_raw) (\<lambda>all_grants.
      let grants = unique_first [] all_grants; agent = or_else (obj_get merged ''agent_id'') JNull in
      bindE (require (known_or_none (agent_exists e) agent) ''Unknown agent'') (\<lambda>_.
      let enabled = (case dict_get merged ''enabled'' of Some v \<Rightarrow> v | None \<Rightarrow> JBool True);
          notify = or_else (obj_get merged ''notify'') (JStr ''all'') in
      bindE (require (one_of NOTIFY notify) ''notify must be one of its names'') (\<lambda>_.
      bindE (require (case enabled of JBool b \<Rightarrow> True | _ \<Rightarrow> False) ''enabled must be a boolean'') (\<lambda>_.
      let target = or_else (obj_get merged ''target'') (JStr ''new_session'') in
      bindE (require (one_of TARGETS target) ''Target must be new_session or this_conversation'') (\<lambda>_.
      bindE (place e kind target (or_else (obj_get merged ''session_id'') JNull) grants
        \<lparr>p_session = JNull, p_model = model, p_skills = skills, p_profile = profile\<rparr>) (\<lambda>placed.
      bindE (delivery e agent (obj_get merged ''deliver_to'')) (\<lambda>deliver_to.
      Inr [(''kind'', kind), (''schedule'', JObj (to_dict schedule)),
           (''prompt'', (case prompt of JStr s \<Rightarrow> JStr (strip s) | v \<Rightarrow> v)), (''project_id'', project),
           (''mode'', mode), (''permission_profile'', p_profile placed), (''model'', p_model placed),
           (''skills'', JList (unique_first [] (p_skills placed))), (''grants'', JList grants),
           (''command'', command), (''tool'', tool_part), (''watch'', watch), (''agent_id'', agent),
           (''target'', target), (''session_id'', p_session placed), (''deliver_to'', deliver_to),
           (''notify'', notify), (''enabled'', enabled)]))))))))))))))))))))))))"

text \<open>\<open>_normalize\<close>: \<open>None\<close> when resolving a relative schedule does not end.\<close>

definition normalize ::
  "env \<Rightarrow> rat \<Rightarrow> (string \<times> json) list \<Rightarrow> (string \<times> json) list \<Rightarrow> (schedule_task_error + (string \<times> json) list) option" where
  "normalize e now raw current =
     (let merged = merge current raw;
          kind = (case dict_get merged ''kind'' of Some v \<Rightarrow> v | None \<Rightarrow> JStr ''agent'') in
      case bindE (needed (case obj_get merged ''name'' of
                 JStr s \<Rightarrow> if strip s \<noteq> [] \<and> len (strip s) \<le> MAX_NAME then Some s else None | _ \<Rightarrow> None)
               ''The name must be 1..80 characters'') (\<lambda>name.
            bindE (require (one_of KINDS kind) ''Kind must be agent, reminder, command or tool'') (\<lambda>_. Inr name)) of
        Inl err \<Rightarrow> Some (Inl err)
      | Inr name \<Rightarrow>
          (case (if dict_get raw ''schedule'' = None then Some (Inr merged)
                 else map_option (\<lambda>r. bindE (lift_schedule r) (\<lambda>v. Inr (dict_set ''schedule'' v merged)))
                        (resolve_after (epoch_of e) (local_of e) (obj_get raw ''schedule'') now)) of
             None \<Rightarrow> None
           | Some (Inl err) \<Rightarrow> Some (Inl err)
           | Some (Inr merged') \<Rightarrow>
               Some (bindE (normalize_merged e merged') (\<lambda>t. Inr ((''name'', JStr (strip name)) # t)))))"

section \<open>The stored tasks\<close>

text \<open>The table, in the order of creation: what \<open>ScheduleRepository\<close> writes and reads back.\<close>

type_synonym task_table = "(string \<times> (string \<times> json) list) list"

definition get_or :: "(string \<times> json) list \<Rightarrow> string \<Rightarrow> json \<Rightarrow> json" where
  "get_or d k dflt = (case dict_get d k of Some v \<Rightarrow> v | None \<Rightarrow> dflt)"

definition stored_row :: "string \<Rightarrow> (string \<times> json) list \<Rightarrow> (string \<times> json) list" where
  "stored_row task_id t =
     (let enabled = truthy (get_or t ''enabled'' (JBool True)) in
      [(''id'', JStr task_id), (''name'', obj_get t ''name''), (''kind'', obj_get t ''kind''),
       (''schedule'', obj_get t ''schedule''), (''prompt'', or_else (obj_get t ''prompt'') (JStr [])),
       (''project_id'', obj_get t ''project_id''), (''mode'', or_else (obj_get t ''mode'') (JStr ''build'')),
       (''permission_profile'', obj_get t ''permission_profile''), (''model'', obj_get t ''model''),
       (''skills'', or_else (obj_get t ''skills'') (JList [])), (''grants'', or_else (obj_get t ''grants'') (JList [])),
       (''command'', or_else (obj_get t ''command'') JNull), (''tool'', or_else (obj_get t ''tool'') JNull),
       (''watch'', or_else (obj_get t ''watch'') JNull), (''agent_id'', obj_get t ''agent_id''),
       (''target'', or_else (obj_get t ''target'') (JStr ''new_session'')), (''session_id'', obj_get t ''session_id''),
       (''deliver_to'', or_else (obj_get t ''deliver_to'') JNull),
       (''paused_by'', if enabled then JNull else obj_get t ''paused_by''),
       (''notify'', or_else (obj_get t ''notify'') (JStr ''all'')), (''enabled'', JBool enabled),
       (''next_run_at'', obj_get t ''next_run_at''), (''created_at'', obj_get t ''created_at''),
       (''updated_at'', obj_get t ''updated_at'')])"

definition repo_save :: "string \<Rightarrow> (string \<times> json) list \<Rightarrow> task_table \<Rightarrow> (string \<times> json) list \<times> task_table" where
  "repo_save task_id t rows = (stored_row task_id t, dict_set task_id (stored_row task_id t) rows)"

definition repo_delete_task :: "string \<Rightarrow> task_table \<Rightarrow> bool \<times> task_table" where
  "repo_delete_task task_id rows = (dict_get rows task_id \<noteq> None, dict_pop task_id rows)"

definition repo_set_enabled :: "string \<Rightarrow> bool \<Rightarrow> rat \<Rightarrow> json \<Rightarrow> task_table \<Rightarrow> task_table" where
  "repo_set_enabled task_id enabled updated_at paused_by rows =
     map (\<lambda>(k, t). if k = task_id
       then (k, merge t [(''enabled'', JBool enabled), (''paused_by'', if enabled then JNull else paused_by),
                         (''updated_at'', JFloat updated_at)])
       else (k, t)) rows"

definition repo_set_watch_fingerprint :: "string \<Rightarrow> string \<Rightarrow> task_table \<Rightarrow> task_table" where
  "repo_set_watch_fingerprint task_id fingerprint rows =
     map (\<lambda>(k, t).
       case obj_get t ''watch'' of
         JObj w \<Rightarrow> if k = task_id \<and> w \<noteq> []
                   then (k, dict_set ''watch'' (JObj (dict_set ''fingerprint'' (JStr fingerprint) w)) t) else (k, t)
       | _ \<Rightarrow> (k, t)) rows"

text \<open>\<open>due\<close>, without the order by due time.\<close>

definition repo_due :: "rat \<Rightarrow> task_table \<Rightarrow> (string \<times> json) list list" where
  "repo_due now rows =
     filter (\<lambda>t. obj_get t ''enabled'' = JBool True \<and>
       (case obj_get t ''next_run_at'' of JFloat r \<Rightarrow> r \<le> now | _ \<Rightarrow> False)) (map snd rows)"

section \<open>The service\<close>

text \<open>A result, or that the call does not return.\<close>

type_synonym 'a outcome = "(schedule_task_error + 'a) option"

definition json_time :: "rat option \<Rightarrow> json" where
  "json_time t = (case t of Some r \<Rightarrow> JFloat r | None \<Rightarrow> JNull)"

definition first_run :: "env \<Rightarrow> (string \<times> json) list \<Rightarrow> rat \<Rightarrow> schedule_task_error + json" where
  "first_run e t after =
     bindE (lift_schedule (parse_of e (obj_get t ''schedule''))) (\<lambda>s.
     bindE (lift_schedule (next_run (epoch_of e) (local_of e) s after)) (\<lambda>r. Inr (json_time r)))"

definition is_once :: "json \<Rightarrow> bool" where
  "is_once schedule = (case schedule of JObj d \<Rightarrow> obj_get d ''kind'' = JStr ''once'' | _ \<Rightarrow> False)"

definition refuse_past :: "(string \<times> json) list \<Rightarrow> schedule_task_error + unit" where
  "refuse_past t =
     require (\<not> (truthy (obj_get t ''enabled'') \<and> is_once (obj_get t ''schedule'') \<and>
                 \<not> truthy (obj_get t ''next_run_at'')))
       ''That time already passed, so it would never run''"

definition create ::
  "env \<Rightarrow> rat \<Rightarrow> string \<Rightarrow> (string \<times> json) list \<Rightarrow> task_table \<Rightarrow> ((string \<times> json) list \<times> task_table) outcome" where
  "create e now new_id raw rows =
     map_option (\<lambda>r. bindE r (\<lambda>t.
       let t1 = merge t [(''created_at'', JFloat now), (''updated_at'', JFloat now)] in
       bindE (first_run e t1 now) (\<lambda>due.
       let t2 = dict_set ''next_run_at'' due t1 in
       bindE (refuse_past t2) (\<lambda>_. Inr (repo_save new_id t2 rows))))) (normalize e now raw [])"

text \<open>Equality of stored dictionaries.\<close>

definition same_dict :: "json \<Rightarrow> json \<Rightarrow> bool" where
  "same_dict a b = (case (a, b) of (JObj x, JObj y) \<Rightarrow> set x = set y | _ \<Rightarrow> a = b)"

definition update_task ::
  "env \<Rightarrow> rat \<Rightarrow> string \<Rightarrow> (string \<times> json) list \<Rightarrow> task_table \<Rightarrow> ((string \<times> json) list \<times> task_table) outcome" where
  "update_task e now task_id patch rows =
     (case dict_get rows task_id of
        None \<Rightarrow> Some (Inl UnknownTask)
      | Some current \<Rightarrow>
          map_option (\<lambda>r. bindE r (\<lambda>t.
            let t1 = merge t [(''created_at'', obj_get current ''created_at''), (''updated_at'', JFloat now)];
                rescheduled = (\<not> same_dict (obj_get t1 ''schedule'') (obj_get current ''schedule'') \<or>
                  truthy (obj_get t1 ''enabled'') \<and> \<not> truthy (obj_get current ''enabled'')) in
            bindE (if rescheduled then first_run e t1 now else Inr (obj_get current ''next_run_at'')) (\<lambda>due.
            let t2 = dict_set ''next_run_at'' due t1 in
            bindE (if rescheduled then refuse_past t2 else Inr ()) (\<lambda>_.
            let t3 = (if dict_get patch ''enabled'' = None \<and> \<not> truthy (obj_get t2 ''enabled'')
                      then dict_set ''paused_by'' (obj_get current ''paused_by'') t2 else t2) in
            Inr (repo_save task_id t3 rows)))))
          (normalize e now patch current))"

definition delete_task :: "string \<Rightarrow> task_table \<Rightarrow> bool \<times> task_table" where
  "delete_task task_id rows = repo_delete_task task_id rows"

definition add_grant ::
  "env \<Rightarrow> rat \<Rightarrow> string \<Rightarrow> json \<Rightarrow> json \<Rightarrow> task_table \<Rightarrow> ((string \<times> json) list \<times> task_table) outcome" where
  "add_grant e now task_id capability target rows =
     (case dict_get rows task_id of
        None \<Rightarrow> Some (Inl UnknownTask)
      | Some t \<Rightarrow>
          (case grant_spec (JObj [(''capability'', capability), (''target'', target)]) of
             Inl err \<Rightarrow> Some (Inl err)
           | Inr grant \<Rightarrow>
               (let grants = (case as_list (obj_get t ''grants'') of Some gs \<Rightarrow> gs | None \<Rightarrow> []) in
                update_task e now task_id
                  [(''grants'', JList (if grant \<in> set grants then grants else grants @ [grant]))] rows)))"

text \<open>\<open>propose\<close>; the announcement is left out.\<close>

definition propose ::
  "env \<Rightarrow> rat \<Rightarrow> string \<Rightarrow> (string \<times> json) list \<Rightarrow> bool \<Rightarrow> task_table \<Rightarrow>
     ((string \<times> json) list \<times> (string \<times> json) list option \<times> task_table) outcome" where
  "propose e now new_id raw create_now rows =
     (case normalize e now raw [] of
        None \<Rightarrow> None
      | Some (Inl err) \<Rightarrow> Some (Inl err)
      | Some (Inr t) \<Rightarrow>
          (let draft = dict_set ''grants'' (JList []) t in
           case lift_schedule (parse_of e (obj_get draft ''schedule'')) of
             Inl err \<Rightarrow> Some (Inl err)
           | Inr s \<Rightarrow>
               if create_now
               then map_option (\<lambda>r. bindE r (\<lambda>(row, rows'). Inr (draft, Some row, rows')))
                      (create e now new_id draft rows)
               else Some (Inr (draft, None, rows))))"

definition siblings :: "(string \<times> json) list \<Rightarrow> task_table \<Rightarrow> (string \<times> json) list list" where
  "siblings t rows =
     (if obj_get t ''target'' \<noteq> JStr ''this_conversation'' \<or> \<not> truthy (obj_get t ''session_id'') then []
      else filter (\<lambda>other. obj_get other ''id'' \<noteq> obj_get t ''id'' \<and> truthy (obj_get other ''enabled'') \<and>
             obj_get other ''session_id'' = obj_get t ''session_id'' \<and>
             obj_get other ''agent_id'' = obj_get t ''agent_id'') (map snd rows))"

definition advance ::
  "env \<Rightarrow> rat \<Rightarrow> (string \<times> json) list \<Rightarrow> rat \<Rightarrow> task_table \<Rightarrow> schedule_task_error + (string \<times> json) list \<times> task_table" where
  "advance e now t after rows =
     bindE (first_run e t after) (\<lambda>upcoming.
     let fields = merge t [(''next_run_at'', upcoming), (''updated_at'', JFloat now)];
         fields' = (if upcoming = JNull then dict_set ''enabled'' (JBool False) fields else fields) in
     (case obj_get t ''id'' of
        JStr task_id \<Rightarrow> Inr (repo_save task_id (dict_pop ''last_run'' (dict_pop ''description'' fields')) rows)
      | _ \<Rightarrow> Inl UnknownTask))"

section \<open>What every stored task satisfies\<close>

definition settled :: "env \<Rightarrow> json \<Rightarrow> bool" where
  "settled e v = (\<exists>raw s. parse_of e raw = Inr s \<and> v = JObj (to_dict s))"

definition name_ok :: "json \<Rightarrow> bool" where
  "name_ok v = (case v of JStr s \<Rightarrow> strip s = s \<and> s \<noteq> [] \<and> len s \<le> MAX_NAME | _ \<Rightarrow> False)"

definition grant_ok :: "json \<Rightarrow> bool" where
  "grant_ok v = (\<exists>raw. grant_spec raw = Inr v)"

definition bounded_list :: "int \<Rightarrow> (json \<Rightarrow> bool) \<Rightarrow> json \<Rightarrow> bool" where
  "bounded_list n p v = (case v of JList xs \<Rightarrow> len xs \<le> n \<and> distinct xs \<and> list_all p xs | _ \<Rightarrow> False)"

definition place_ok :: "(string \<times> json) list \<Rightarrow> bool" where
  "place_ok t =
     (if obj_get t ''target'' = JStr ''this_conversation''
      then obj_get t ''kind'' = JStr ''agent'' \<and> obj_get t ''grants'' = JList [] \<and> obj_get t ''model'' = JNull \<and>
           obj_get t ''skills'' = JList [] \<and> obj_get t ''permission_profile'' = JNull \<and> is_text (obj_get t ''session_id'')
      else obj_get t ''target'' = JStr ''new_session'' \<and> obj_get t ''session_id'' = JNull)"

definition task_ok :: "env \<Rightarrow> (string \<times> json) list \<Rightarrow> bool" where
  "task_ok e t =
     (name_ok (obj_get t ''name'') \<and> one_of KINDS (obj_get t ''kind'') \<and> settled e (obj_get t ''schedule'') \<and>
      text_up_to MAX_PROMPT (obj_get t ''prompt'') \<and>
      (truthy (obj_get t ''command'') = (obj_get t ''kind'' = JStr ''command'')) \<and>
      (truthy (obj_get t ''tool'') = (obj_get t ''kind'' = JStr ''tool'')) \<and>
      (obj_get t ''kind'' = JStr ''reminder'' \<longrightarrow> \<not> truthy (obj_get t ''watch'')) \<and>
      (obj_get t ''prompt'' = JStr [] \<longrightarrow> obj_get t ''kind'' = JStr ''command'' \<or> obj_get t ''kind'' = JStr ''tool'') \<and>
      one_of MODES (obj_get t ''mode'') \<and> one_of NOTIFY (obj_get t ''notify'') \<and>
      (obj_get t ''permission_profile'' = JNull \<or> one_of PERMISSION_PROFILES (obj_get t ''permission_profile'')) \<and>
      bounded_list MAX_SKILLS is_text (obj_get t ''skills'') \<and> bounded_list MAX_GRANTS grant_ok (obj_get t ''grants'') \<and>
      place_ok t \<and> (\<exists>b. obj_get t ''enabled'' = JBool b))"

lemma unique_first_set: "set (unique_first seen xs) = set xs - set seen"
  by (induction xs arbitrary: seen) auto

lemma unique_first_distinct [simp]: "distinct (unique_first seen xs)"
  by (induction xs arbitrary: seen) (auto simp: unique_first_set)

lemma unique_first_length: "length (unique_first seen xs) \<le> length xs"
proof (induction xs arbitrary: seen)
  case (Cons x xs)
  then show ?case using le_SucI [OF Cons.IH [of seen]] Cons.IH [of "x # seen"] by simp
qed simp

lemma each_Inr: "each f xs = Inr ys \<Longrightarrow> length ys = length xs \<and> list_all (\<lambda>y. \<exists>x. f x = Inr y) ys"
  by (induction xs arbitrary: ys) auto

lemma command_spec_obj: "command_spec raw = Inr v \<Longrightarrow> truthy v"
  by (auto simp: command_spec_def Let_def)

lemma tool_spec_obj: "tool_spec e raw = Inr v \<Longrightarrow> truthy v"
  by (auto simp: tool_spec_def Let_def)

lemma length_strip: "length (strip s) \<le> length s"
  by (simp add: strip_def lstrip_def rstrip_def) (metis length_dropWhile_le length_rev le_trans)

lemma text_strip:
  assumes "text_up_to n v"
  shows "\<exists>s. v = JStr s \<and> len (strip s) \<le> n"
proof -
  obtain s where "v = JStr s" "len s \<le> n" using assms by (cases v) (auto simp: text_up_to_def)
  with length_strip [of s] show ?thesis by simp
qed

lemma normalize_merged_ok:
  assumes "normalize_merged e m = Inr t" and "one_of KINDS (case dict_get m ''kind'' of Some v \<Rightarrow> v | None \<Rightarrow> JStr ''agent'')"
    and "name_ok nm"
  shows "task_ok e ((''name'', nm) # t)"
proof -
  let ?kind = "case dict_get m ''kind'' of Some v \<Rightarrow> v | None \<Rightarrow> JStr ''agent''"
  let ?prompt = "or_else (obj_get m ''prompt'') (JStr [])"
  let ?agent = "or_else (obj_get m ''agent_id'') JNull"
  let ?target = "or_else (obj_get m ''target'') (JStr ''new_session'')"
  obtain sch cmd tl wt skills graw gall pl dl where
    h: "parse_of e (obj_get m ''schedule'') = Inr sch" "text_up_to MAX_PROMPT ?prompt"
      "(if ?kind = JStr ''command'' then command_spec (obj_get m ''command'') else Inr JNull) = Inr cmd"
      "(if ?kind = JStr ''tool'' then tool_spec e (obj_get m ''tool'') else Inr JNull) = Inr tl"
      "watch_spec e (obj_get m ''watch'') = Inr wt" "\<not> (wt \<noteq> JNull \<and> ?kind = JStr ''reminder'')"
      "filled MAX_PROMPT ?prompt \<noteq> None \<or> ?kind = JStr ''command'' \<or> ?kind = JStr ''tool''"
      "one_of MODES (or_else (obj_get m ''mode'') (JStr ''build''))"
      "or_else (obj_get m ''permission_profile'') JNull = JNull \<or> one_of PERMISSION_PROFILES (or_else (obj_get m ''permission_profile'') JNull)"
      "len skills \<le> MAX_SKILLS" "list_all (known_text (skill_exists e)) skills"
      "len graw \<le> MAX_GRANTS" "each grant_spec graw = Inr gall"
      "one_of NOTIFY (or_else (obj_get m ''notify'') (JStr ''all''))"
      "case (case dict_get m ''enabled'' of Some v \<Rightarrow> v | None \<Rightarrow> JBool True) of JBool b \<Rightarrow> True | _ \<Rightarrow> False"
      "one_of TARGETS ?target"
      "place e ?kind ?target (or_else (obj_get m ''session_id'') JNull) (unique_first [] gall)
        \<lparr>p_session = JNull, p_model = or_else (obj_get m ''model'') JNull, p_skills = skills,
         p_profile = or_else (obj_get m ''permission_profile'') JNull\<rparr> = Inr pl"
    and t: "Inr [(''kind'', ?kind), (''schedule'', JObj (to_dict sch)),
           (''prompt'', (case ?prompt of JStr s \<Rightarrow> JStr (strip s) | v \<Rightarrow> v)), (''project_id'', or_else (obj_get m ''project_id'') JNull),
           (''mode'', or_else (obj_get m ''mode'') (JStr ''build'')), (''permission_profile'', p_profile pl), (''model'', p_model pl),
           (''skills'', JList (unique_first [] (p_skills pl))), (''grants'', JList (unique_first [] gall)),
           (''command'', cmd), (''tool'', tl), (''watch'', wt), (''agent_id'', ?agent),
           (''target'', ?target), (''session_id'', p_session pl), (''deliver_to'', dl),
           (''notify'', or_else (obj_get m ''notify'') (JStr ''all'')), (''enabled'', (case dict_get m ''enabled'' of Some v \<Rightarrow> v | None \<Rightarrow> JBool True))] = (Inr t :: schedule_task_error + (string \<times> json) list)"
    using assms(1) unfolding normalize_merged_def Let_def
    unfolding bindE_Inr require_Inr lift_schedule_Inr needed_Inr by (elim exE conjE) (rule that, assumption+)
  define r where "r = (''name'', nm) # t"
  have tt: "t = [(''kind'', ?kind), (''schedule'', JObj (to_dict sch)),
           (''prompt'', (case ?prompt of JStr s \<Rightarrow> JStr (strip s) | v \<Rightarrow> v)), (''project_id'', or_else (obj_get m ''project_id'') JNull),
           (''mode'', or_else (obj_get m ''mode'') (JStr ''build'')), (''permission_profile'', p_profile pl), (''model'', p_model pl),
           (''skills'', JList (unique_first [] (p_skills pl))), (''grants'', JList (unique_first [] gall)),
           (''command'', cmd), (''tool'', tl), (''watch'', wt), (''agent_id'', ?agent),
           (''target'', ?target), (''session_id'', p_session pl), (''deliver_to'', dl),
           (''notify'', or_else (obj_get m ''notify'') (JStr ''all'')), (''enabled'', (case dict_get m ''enabled'' of Some v \<Rightarrow> v | None \<Rightarrow> JBool True))]"
    using t by (simp only: sum.inject)
  have g: "obj_get r ''name'' = nm" "obj_get r ''kind'' = ?kind" "obj_get r ''schedule'' = JObj (to_dict sch)"
    "obj_get r ''prompt'' = (case ?prompt of JStr s \<Rightarrow> JStr (strip s) | v \<Rightarrow> v)"
    "obj_get r ''mode'' = or_else (obj_get m ''mode'') (JStr ''build'')" "obj_get r ''permission_profile'' = p_profile pl"
    "obj_get r ''model'' = p_model pl" "obj_get r ''skills'' = JList (unique_first [] (p_skills pl))"
    "obj_get r ''grants'' = JList (unique_first [] gall)" "obj_get r ''command'' = cmd" "obj_get r ''tool'' = tl"
    "obj_get r ''watch'' = wt" "obj_get r ''target'' = ?target" "obj_get r ''session_id'' = p_session pl"
    "obj_get r ''notify'' = or_else (obj_get m ''notify'') (JStr ''all'')"
    "obj_get r ''enabled'' = (case dict_get m ''enabled'' of Some v \<Rightarrow> v | None \<Rightarrow> JBool True)"
    by (simp_all add: r_def tt obj_get_def)
  obtain ps where ps: "?prompt = JStr ps" "len (strip ps) \<le> MAX_PROMPT" using text_strip [OF h(2)] by auto
  have cmd: "truthy cmd = (?kind = JStr ''command'')" using h(3) command_spec_obj by (auto split: if_splits)
  have tool_: "truthy tl = (?kind = JStr ''tool'')" using h(4) tool_spec_obj by (auto split: if_splits)
  have skills: "len (p_skills pl) \<le> MAX_SKILLS \<and> list_all is_text (p_skills pl) \<and>
      (p_profile pl = JNull \<or> one_of PERMISSION_PROFILES (p_profile pl))"
    using h(9-11,17) by (auto simp: place_def known_text_def is_text_def list_all_iff split: if_splits json.splits)
  have grants: "length gall = length graw" "list_all grant_ok gall"
    using each_Inr [OF h(13)] by (auto simp: grant_ok_def list_all_iff)
  have pl: "place_ok r"
    using h(16,17) unfolding place_ok_def g
    by (auto simp: place_def one_of_def TARGETS_def known_text_def is_text_def split: if_splits json.splits)
  have bounded: "bounded_list n p (JList (unique_first [] xs))" if "len xs \<le> n" "list_all p xs" for n p xs
    using that unique_first_length [of "[]" xs] by (auto simp: bounded_list_def list_all_iff unique_first_set)
  have "task_ok e r"
    unfolding task_ok_def g
  proof (intro conjI)
    show "settled e (JObj (to_dict sch))" using h(1) by (auto simp: settled_def)
    show "text_up_to MAX_PROMPT (case ?prompt of JStr s \<Rightarrow> JStr (strip s) | v \<Rightarrow> v)"
      unfolding ps(1) using ps(2) by (simp add: text_up_to_def)
    show "(case ?prompt of JStr s \<Rightarrow> JStr (strip s) | v \<Rightarrow> v) = JStr [] \<longrightarrow> ?kind = JStr ''command'' \<or> ?kind = JStr ''tool''"
      using h(7) unfolding ps(1) by (auto simp: filled_Some)
    show "bounded_list MAX_SKILLS is_text (JList (unique_first [] (p_skills pl)))" using bounded skills by blast
    show "bounded_list MAX_GRANTS grant_ok (JList (unique_first [] gall))" using bounded grants h(12) by simp
    show "\<exists>b. (case dict_get m ''enabled'' of None \<Rightarrow> JBool True | Some v \<Rightarrow> v) = JBool b"
      using h(15) by (cases "case dict_get m ''enabled'' of None \<Rightarrow> JBool True | Some v \<Rightarrow> v") simp_all
    show "?kind = JStr ''reminder'' \<longrightarrow> \<not> truthy wt" using h(6) by auto
  qed (use assms(2,3) cmd tool_ skills pl h(8,14) in blast)+
  then show ?thesis by (simp only: r_def)
qed

definition FIELDS :: "string list" where
  "FIELDS = [''name'', ''kind'', ''schedule'', ''prompt'', ''command'', ''tool'', ''watch'', ''mode'', ''notify'',
     ''permission_profile'', ''skills'', ''grants'', ''target'', ''model'', ''session_id'', ''enabled'']"

lemma task_ok_cong: "list_all (\<lambda>k. obj_get t k = obj_get t' k) FIELDS \<Longrightarrow> task_ok e t = task_ok e t'"
  by (simp add: FIELDS_def task_ok_def place_ok_def)

lemma obj_get_set [simp]: "obj_get (dict_set k v d) k' = (if k' = k then v else obj_get d k')"
  by (simp add: obj_get_def)

lemma obj_get_pop [simp]: "obj_get (dict_pop k d) k' = (if k' = k then JNull else obj_get d k')"
  by (simp add: obj_get_def)

lemma merge_simps [simp]: "merge a [] = a" "merge a ((k, v) # b) = merge (dict_set k v a) b"
  by (simp_all add: merge_def)

lemma stored_row_get:
  "obj_get (stored_row i t) ''id'' = JStr i" "obj_get (stored_row i t) ''name'' = obj_get t ''name''"
  "obj_get (stored_row i t) ''kind'' = obj_get t ''kind''" "obj_get (stored_row i t) ''schedule'' = obj_get t ''schedule''"
  "obj_get (stored_row i t) ''prompt'' = or_else (obj_get t ''prompt'') (JStr [])"
  "obj_get (stored_row i t) ''command'' = or_else (obj_get t ''command'') JNull"
  "obj_get (stored_row i t) ''tool'' = or_else (obj_get t ''tool'') JNull"
  "obj_get (stored_row i t) ''watch'' = or_else (obj_get t ''watch'') JNull"
  "obj_get (stored_row i t) ''mode'' = or_else (obj_get t ''mode'') (JStr ''build'')"
  "obj_get (stored_row i t) ''notify'' = or_else (obj_get t ''notify'') (JStr ''all'')"
  "obj_get (stored_row i t) ''permission_profile'' = obj_get t ''permission_profile''"
  "obj_get (stored_row i t) ''skills'' = or_else (obj_get t ''skills'') (JList [])"
  "obj_get (stored_row i t) ''grants'' = or_else (obj_get t ''grants'') (JList [])"
  "obj_get (stored_row i t) ''target'' = or_else (obj_get t ''target'') (JStr ''new_session'')"
  "obj_get (stored_row i t) ''model'' = obj_get t ''model''" "obj_get (stored_row i t) ''session_id'' = obj_get t ''session_id''"
  "obj_get (stored_row i t) ''enabled'' = JBool (truthy (get_or t ''enabled'' (JBool True)))"
  "obj_get (stored_row i t) ''next_run_at'' = obj_get t ''next_run_at''"
  by (simp_all add: stored_row_def obj_get_def Let_def)

lemma or_else_simps [simp]:
  "truthy (or_else v JNull) = truthy v" "or_else (JStr s) (JStr []) = JStr s" "or_else (JList xs) (JList []) = JList xs"
  by (auto simp: or_else_def)

lemma one_of_or_else: "one_of names v \<Longrightarrow> [] \<notin> set names \<Longrightarrow> or_else v d = v"
  by (auto simp: one_of_def or_else_def split: json.splits)

lemma stored_row_ok:
  assumes "task_ok e t"
  shows "task_ok e (stored_row i t)" and "obj_get (stored_row i t) ''enabled'' = obj_get t ''enabled''"
    and "obj_get (stored_row i t) ''schedule'' = obj_get t ''schedule''"
proof -
  note g = stored_row_get [of i t]
  obtain b where b: "obj_get t ''enabled'' = JBool b" using assms by (auto simp: task_ok_def)
  then have en: "get_or t ''enabled'' (JBool True) = JBool b"
    by (auto simp: obj_get_def get_or_def split: option.splits)
  show enabled: "obj_get (stored_row i t) ''enabled'' = obj_get t ''enabled''" by (simp add: g en b)
  show "obj_get (stored_row i t) ''schedule'' = obj_get t ''schedule''" by (rule g)
  have mode: "or_else (obj_get t ''mode'') (JStr ''build'') = obj_get t ''mode''"
    using assms by (intro one_of_or_else [of MODES]) (simp_all add: task_ok_def MODES_def)
  have notify: "or_else (obj_get t ''notify'') (JStr ''all'') = obj_get t ''notify''"
    using assms by (intro one_of_or_else [of NOTIFY]) (simp_all add: task_ok_def NOTIFY_def)
  have target: "or_else (obj_get t ''target'') (JStr ''new_session'') = obj_get t ''target''"
    using assms by (auto simp: task_ok_def place_ok_def or_else_def split: if_splits)
  have prompt: "or_else (obj_get t ''prompt'') (JStr []) = obj_get t ''prompt''"
    using assms text_strip [of MAX_PROMPT "obj_get t ''prompt''"] by (auto simp: task_ok_def)
  have lists: "or_else (obj_get t k) (JList []) = obj_get t k" if "bounded_list n p (obj_get t k)" for k n p
    using that by (cases "obj_get t k") (simp_all add: bounded_list_def)
  have ls: "or_else (obj_get t ''skills'') (JList []) = obj_get t ''skills''"
    "or_else (obj_get t ''grants'') (JList []) = obj_get t ''grants''"
    using assms unfolding task_ok_def by (blast intro: lists)+
  show "task_ok e (stored_row i t)"
    using assms unfolding task_ok_def place_ok_def g mode notify target prompt ls or_else_simps en
    by (simp only: json.inject) blast
qed

lemma normalize_ok:
  assumes "normalize e now raw current = Some (Inr t)"
  shows "task_ok e t"
proof -
  define merged where "merged = merge current raw"
  let ?kind = "case dict_get merged ''kind'' of Some v \<Rightarrow> v | None \<Rightarrow> JStr ''agent''"
  let ?head = "bindE (needed (case obj_get merged ''name'' of
                 JStr s \<Rightarrow> if strip s \<noteq> [] \<and> len (strip s) \<le> MAX_NAME then Some s else None | _ \<Rightarrow> None)
               ''The name must be 1..80 characters'') (\<lambda>name.
            bindE (require (one_of KINDS ?kind) ''Kind must be agent, reminder, command or tool'') (\<lambda>_. Inr name))"
  let ?body = "if dict_get raw ''schedule'' = None then Some (Inr merged)
     else map_option (\<lambda>r. bindE (lift_schedule r) (\<lambda>v. Inr (dict_set ''schedule'' v merged)))
                        (resolve_after (epoch_of e) (local_of e) (obj_get raw ''schedule'') now)"
  note run = assms [unfolded normalize_def Let_def, folded merged_def]
  obtain name where head: "?head = Inr name" using run by (cases ?head) simp_all
  then have name: "name_ok (JStr (strip name))" and kind: "one_of KINDS ?kind"
    by (auto simp: name_ok_def split: json.splits if_splits)
  note run = run [unfolded head sum.case]
  obtain m where body: "?body = Some (Inr m)"
    using run by (cases ?body) (auto split: sum.splits)
  note run = run [unfolded body option.case sum.case]
  from run obtain t' where t': "normalize_merged e m = Inr t'" "t = (''name'', JStr (strip name)) # t'" by auto
  have "dict_get m ''kind'' = dict_get merged ''kind''"
    using body by (auto split: if_splits)
  with kind have "one_of KINDS (case dict_get m ''kind'' of Some v \<Rightarrow> v | None \<Rightarrow> JStr ''agent'')" by simp
  from normalize_merged_ok [OF t'(1) this name] show ?thesis by (simp add: t'(2))
qed

definition stored_ok :: "env \<Rightarrow> string \<times> (string \<times> json) list \<Rightarrow> bool" where
  "stored_ok e = (\<lambda>(k, t). obj_get t ''id'' = JStr k \<and> task_ok e t \<and>
     (obj_get t ''enabled'' = JBool True \<and> is_once (obj_get t ''schedule'') \<longrightarrow> obj_get t ''next_run_at'' \<noteq> JNull))"

definition stored_table_ok :: "env \<Rightarrow> task_table \<Rightarrow> bool" where
  "stored_table_ok e rows = list_all (stored_ok e) rows"

lemma stored_table_ok_set: "stored_table_ok e rows \<Longrightarrow> stored_ok e (k, t) \<Longrightarrow> stored_table_ok e (dict_set k t rows)"
  unfolding stored_table_ok_def by (induction rows) auto

lemma stored_table_ok_get: "stored_table_ok e rows \<Longrightarrow> dict_get rows k = Some t \<Longrightarrow> stored_ok e (k, t)"
  unfolding stored_table_ok_def by (auto simp: list_all_iff dest: dict_get_Some_in)

lemma saved_ok:
  assumes "task_ok e t" and "obj_get t ''enabled'' = JBool True \<and> is_once (obj_get t ''schedule'') \<longrightarrow> obj_get t ''next_run_at'' \<noteq> JNull"
  shows "stored_ok e (i, stored_row i t)"
  using stored_row_ok [OF assms(1), of i] stored_row_get(1,18) [of i t] assms(2) by (simp add: stored_ok_def)

lemma task_ok_stamped: "task_ok e t \<Longrightarrow> task_ok e (dict_set k v t)" if "k \<notin> set FIELDS"
  using task_ok_cong [of "dict_set k v t" t e] that by (auto simp: list_all_iff)

lemma refuse_past_kept:
  "refuse_past t = Inr u \<Longrightarrow> obj_get t ''enabled'' = JBool True \<and> is_once (obj_get t ''schedule'') \<longrightarrow> obj_get t ''next_run_at'' \<noteq> JNull"
  by (auto simp: refuse_past_def)

lemma create_ok:
  assumes "create e now i raw rows = Some (Inr (row, rows'))" and "stored_table_ok e rows"
  shows "stored_table_ok e rows' \<and> stored_ok e (i, row)"
proof -
  obtain t due where t: "normalize e now raw [] = Some (Inr t)"
    and due: "refuse_past (dict_set ''next_run_at'' due (merge t [(''created_at'', JFloat now), (''updated_at'', JFloat now)])) = Inr ()"
    and save: "(row, rows') = repo_save i (dict_set ''next_run_at'' due (merge t [(''created_at'', JFloat now), (''updated_at'', JFloat now)])) rows"
    using assms(1) by (auto simp: create_def Let_def)
  let ?t = "dict_set ''next_run_at'' due (merge t [(''created_at'', JFloat now), (''updated_at'', JFloat now)])"
  have "task_ok e ?t" using normalize_ok [OF t] by (simp add: task_ok_stamped FIELDS_def)
  from saved_ok [OF this refuse_past_kept [OF due]] have "stored_ok e (i, stored_row i ?t)" .
  with save assms(2) show ?thesis by (simp add: repo_save_def stored_table_ok_set)
qed

lemma once_in: "is_once (JObj (to_dict s)) \<longleftrightarrow> (''kind'', JStr ''once'') \<in> set (to_dict s)"
  by (cases s) (auto simp: is_once_def obj_get_def)

lemma same_once: "settled e a \<Longrightarrow> settled e b \<Longrightarrow> same_dict a b \<Longrightarrow> is_once a = is_once b"
  by (auto simp: settled_def same_dict_def once_in)

lemma update_ok:
  assumes "update_task e now i patch rows = Some (Inr (row, rows'))" and "stored_table_ok e rows"
  shows "stored_table_ok e rows' \<and> stored_ok e (i, row)"
proof -
  obtain cur where cur: "dict_get rows i = Some cur" using assms(1) by (auto simp: update_task_def split: option.splits)
  note old = stored_table_ok_get [OF assms(2) cur]
  obtain t where t: "normalize e now patch cur = Some (Inr t)"
    using assms(1) cur by (auto simp: update_task_def)
  define t1 where "t1 = merge t [(''created_at'', obj_get cur ''created_at''), (''updated_at'', JFloat now)]"
  define again where "again = (\<not> same_dict (obj_get t1 ''schedule'') (obj_get cur ''schedule'') \<or>
                  truthy (obj_get t1 ''enabled'') \<and> \<not> truthy (obj_get cur ''enabled''))"
  obtain due where due: "(if again then first_run e t1 now else Inr (obj_get cur ''next_run_at'')) = Inr due"
    and past: "(if again then refuse_past (dict_set ''next_run_at'' due t1) else Inr ()) = Inr ()"
    and save: "(row, rows') = repo_save i (if dict_get patch ''enabled'' = None \<and> \<not> truthy (obj_get (dict_set ''next_run_at'' due t1) ''enabled'')
                      then dict_set ''paused_by'' (obj_get cur ''paused_by'') (dict_set ''next_run_at'' due t1) else dict_set ''next_run_at'' due t1) rows"
    using assms(1) cur t unfolding update_task_def Let_def t1_def again_def by auto
  have ok1: "task_ok e t1" using normalize_ok [OF t] by (simp add: t1_def task_ok_stamped FIELDS_def)
  have next_: "obj_get t1 ''enabled'' = JBool True \<and> is_once (obj_get t1 ''schedule'') \<longrightarrow> due \<noteq> JNull"
  proof (cases again)
    case True
    then show ?thesis using past refuse_past_kept [of "dict_set ''next_run_at'' due t1"] by simp
  next
    case False
    then have d: "due = obj_get cur ''next_run_at''" using due by simp
    have "settled e (obj_get t1 ''schedule'')" "settled e (obj_get cur ''schedule'')"
      using ok1 old by (simp_all add: task_ok_def stored_ok_def)
    with False have "is_once (obj_get t1 ''schedule'') = is_once (obj_get cur ''schedule'')"
      by (intro same_once) (simp_all add: again_def)
    moreover obtain b where "obj_get cur ''enabled'' = JBool b" using old by (auto simp: stored_ok_def task_ok_def)
    ultimately show ?thesis using False old d by (auto simp: again_def stored_ok_def)
  qed
  let ?t = "if dict_get patch ''enabled'' = None \<and> \<not> truthy (obj_get (dict_set ''next_run_at'' due t1) ''enabled'')
                      then dict_set ''paused_by'' (obj_get cur ''paused_by'') (dict_set ''next_run_at'' due t1) else dict_set ''next_run_at'' due t1"
  have ok2: "task_ok e ?t" using ok1 by (simp add: task_ok_stamped FIELDS_def)
  have "obj_get ?t ''enabled'' = JBool True \<and> is_once (obj_get ?t ''schedule'') \<longrightarrow> obj_get ?t ''next_run_at'' \<noteq> JNull"
    using next_ by simp
  from saved_ok [OF ok2 this] have "stored_ok e (i, stored_row i ?t)" .
  then show ?thesis using save assms(2) by (simp only: repo_save_def prod.inject stored_table_ok_set simp_thms)
qed

section \<open>The table stays well formed\<close>

lemma advance_ok:
  assumes "advance e now t after rows = Inr (row, rows')" and "stored_table_ok e rows" and "stored_ok e (i, t)"
  shows "stored_table_ok e rows'"
proof -
  have id: "obj_get t ''id'' = JStr i" and ok: "task_ok e t" using assms(3) by (simp_all add: stored_ok_def)
  obtain due where due: "first_run e t after = Inr due" using assms(1) by (auto simp: advance_def)
  define f where "f = merge t [(''next_run_at'', due), (''updated_at'', JFloat now)]"
  define f' where "f' = dict_pop ''last_run'' (dict_pop ''description'' (if due = JNull then dict_set ''enabled'' (JBool False) f else f))"
  have rows': "rows' = dict_set i (stored_row i f') rows"
    using assms(1) id due by (cases "due = JNull") (auto simp: advance_def Let_def repo_save_def f_def f'_def)
  have same: "obj_get f' k = (if k = ''enabled'' \<and> due = JNull then JBool False else obj_get t k)" if "k \<in> set FIELDS" for k
    using that by (auto simp: f'_def f_def FIELDS_def)
  have "task_ok e f'"
  proof -
    have "task_ok e (dict_set ''enabled'' (JBool (if due = JNull then False else obj_get t ''enabled'' = JBool True)) t)"
      using ok by (auto simp: task_ok_def place_ok_def)
    moreover obtain b where "obj_get t ''enabled'' = JBool b" using ok by (auto simp: task_ok_def)
    ultimately show ?thesis
      using task_ok_cong [of f' "dict_set ''enabled'' (JBool (if due = JNull then False else obj_get t ''enabled'' = JBool True)) t" e] same
      by (auto simp: list_all_iff)
  qed
  moreover have "obj_get f' ''enabled'' = JBool True \<and> is_once (obj_get f' ''schedule'') \<longrightarrow> obj_get f' ''next_run_at'' \<noteq> JNull"
    by (auto simp: f'_def f_def)
  ultimately have "stored_ok e (i, stored_row i f')" by (rule saved_ok)
  then show ?thesis using assms(2) by (simp add: rows' stored_table_ok_set)
qed

lemma pause_ok:
  assumes "stored_table_ok e rows"
  shows "stored_table_ok e (repo_set_enabled i False now who rows)"
proof -
  have "stored_ok e (k, merge t [(''enabled'', JBool False), (''paused_by'', who), (''updated_at'', JFloat now)])" if "stored_ok e (k, t)" for k t
  proof -
    have "task_ok e (dict_set ''enabled'' (JBool False) t)" using that by (auto simp: stored_ok_def task_ok_def place_ok_def)
    then show ?thesis using that by (simp add: stored_ok_def task_ok_stamped FIELDS_def)
  qed
  then show ?thesis using assms by (auto simp: stored_table_ok_def list_all_iff repo_set_enabled_def)
qed

lemma fingerprint_ok:
  assumes "stored_table_ok e rows"
  shows "stored_table_ok e (repo_set_watch_fingerprint i fp rows)"
proof -
  have "stored_ok e (k, dict_set ''watch'' (JObj w') t)" if "stored_ok e (k, t)" "obj_get t ''watch'' = JObj w" "w \<noteq> []" for k t w w'
    using that by (auto simp: stored_ok_def task_ok_def place_ok_def)
  then show ?thesis using assms
    by (auto simp: stored_table_ok_def list_all_iff repo_set_watch_fingerprint_def split: json.splits prod.splits)
qed

datatype schedule_op =
    OpCreate rat string "(string \<times> json) list"
  | OpUpdate rat string "(string \<times> json) list"
  | OpDelete string
  | OpAddGrant rat string json json
  | OpPropose rat string "(string \<times> json) list" bool
  | OpAdvance rat string rat
  | OpPause string rat json
  | OpFingerprint string string

text \<open>A call that raises, or does not return, changes no row.\<close>

definition rows_after :: "task_table \<Rightarrow> ('a \<times> task_table) outcome \<Rightarrow> task_table" where
  "rows_after rows r = (case r of Some (Inr (_, rows')) \<Rightarrow> rows' | _ \<Rightarrow> rows)"

fun schedule_step :: "env \<Rightarrow> schedule_op \<Rightarrow> task_table \<Rightarrow> task_table" where
  "schedule_step e (OpCreate now i raw) rows = rows_after rows (create e now i raw rows)"
| "schedule_step e (OpUpdate now i patch) rows = rows_after rows (update_task e now i patch rows)"
| "schedule_step e (OpDelete i) rows = snd (delete_task i rows)"
| "schedule_step e (OpAddGrant now i c t) rows = rows_after rows (add_grant e now i c t rows)"
| "schedule_step e (OpPropose now i raw c) rows =
     rows_after rows (map_option (\<lambda>r. bindE r (\<lambda>(draft, row, rows'). Inr (row, rows'))) (propose e now i raw c rows))"
| "schedule_step e (OpAdvance now i after) rows =
     (case dict_get rows i of None \<Rightarrow> rows | Some t \<Rightarrow> rows_after rows (Some (advance e now t after rows)))"
| "schedule_step e (OpPause i now who) rows = repo_set_enabled i False now who rows"
| "schedule_step e (OpFingerprint i fp) rows = repo_set_watch_fingerprint i fp rows"

lemma rows_after_ok: "stored_table_ok e rows \<Longrightarrow> (\<And>x rows'. r = Some (Inr (x, rows')) \<Longrightarrow> stored_table_ok e rows') \<Longrightarrow> stored_table_ok e (rows_after rows r)"
  by (auto simp: rows_after_def split: option.splits sum.splits)

lemma propose_facts:
  assumes "propose e now i raw c rows = Some (Inr (draft, row, rows'))"
  shows "obj_get draft ''grants'' = JList [] \<and>
    (case row of None \<Rightarrow> rows' = rows | Some r \<Rightarrow> c \<and> create e now i draft rows = Some (Inr (r, rows')))"
proof -
  obtain t where t: "normalize e now raw [] = Some (Inr t)"
    using assms by (auto simp: propose_def split: option.splits sum.splits)
  show ?thesis
    using assms t by (cases c) (auto simp: propose_def Let_def split: sum.splits)
qed

lemma schedule_step_ok:
  assumes "stored_table_ok e rows"
  shows "stored_table_ok e (schedule_step e x rows)"
proof (cases x)
  case (OpCreate now i raw)
  with assms create_ok show ?thesis by (force intro!: rows_after_ok)
next
  case (OpUpdate now i patch)
  with assms update_ok show ?thesis by (force intro!: rows_after_ok)
next
  case (OpDelete i)
  with assms show ?thesis by (auto simp: delete_task_def repo_delete_task_def dict_pop_def stored_table_ok_def list_all_iff)
next
  case (OpAddGrant now i c t)
  have "stored_table_ok e rows'" if "add_grant e now i c t rows = Some (Inr (r, rows'))" for r rows'
    using that update_ok assms by (fastforce simp: add_grant_def Let_def split: option.splits sum.splits)
  with OpAddGrant assms show ?thesis by (auto intro: rows_after_ok)
next
  case (OpPropose now i raw c)
  have "stored_table_ok e rows'" if "propose e now i raw c rows = Some (Inr (draft, row, rows'))" for draft row rows'
    using propose_facts [OF that] create_ok assms by (fastforce split: option.splits)
  with OpPropose assms show ?thesis by (auto intro!: rows_after_ok)
next
  case (OpAdvance now i after)
  show ?thesis
  proof (cases "dict_get rows i")
    case (Some t)
    from stored_table_ok_get [OF assms this] advance_ok assms have "advance e now t after rows = Inr (r, rows') \<Longrightarrow> stored_table_ok e rows'" for r rows'
      by blast
    with OpAdvance Some assms show ?thesis by (auto intro!: rows_after_ok)
  qed (simp add: OpAdvance assms)
qed (use assms pause_ok fingerprint_ok in simp_all)

interpretation stored_tasks: invariant_steps "schedule_step e" "\<lambda>_. True" "stored_table_ok e"
  by unfold_locales (rule schedule_step_ok)

text \<open>C39. Whatever the owner, the models and the scheduler do, every stored task is well formed: its
  name, kind, mode and notification are of the allowed ones, its schedule is one that parsed, it
  carries a command or a tool call exactly when it is of that kind, a reminder watches nothing, a
  task without a prompt is a command or a tool, at most ten distinct skills and fifty distinct
  valid grants, a task in a conversation is an agent's and carries no grants, model, skills or
  permission mode; and a one-time task that is on has a next run, so it cannot stay on forever
  without running. This holds from the empty table on, for every run of creations, changes,
  proposals, grants, pauses and advances, those that raise included.\<close>

theorem stored_tasks_well_formed:
  "list_all (\<lambda>(k, t). obj_get t ''id'' = JStr k \<and> task_ok e t \<and>
      (if obj_get t ''enabled'' = JBool True \<and> is_once (obj_get t ''schedule'') then obj_get t ''next_run_at'' \<noteq> JNull else True))
    (fold (schedule_step e) ops [])"
proof -
  have "stored_table_ok e (fold (schedule_step e) ops [])"
    by (rule stored_tasks.run_inv) (simp_all add: stored_table_ok_def list_all_iff)
  then show ?thesis by (auto simp: stored_table_ok_def stored_ok_def list_all_iff)
qed

lemma create_row:
  assumes "create e now i raw rows = Some (Inr (row, rows'))"
  obtains t due where "normalize e now raw [] = Some (Inr t)" "row = stored_row i (dict_set ''next_run_at'' due (merge t [(''created_at'', JFloat now), (''updated_at'', JFloat now)]))"
  using assms by (auto simp: create_def Let_def repo_save_def)


lemma normalize_merged_form:
  assumes "normalize_merged e m = Inr t"
  shows "\<exists>graw gall. as_list (or_else (obj_get m ''grants'') (JList [])) = Some graw \<and> each grant_spec graw = Inr gall \<and>
    obj_get t ''grants'' = JList (unique_first [] gall) \<and>
    map fst t = [''kind'', ''schedule'', ''prompt'', ''project_id'', ''mode'', ''permission_profile'', ''model'', ''skills'',
      ''grants'', ''command'', ''tool'', ''watch'', ''agent_id'', ''target'', ''session_id'', ''deliver_to'', ''notify'', ''enabled'']"
  using assms unfolding normalize_merged_def Let_def
  unfolding bindE_Inr require_Inr lift_schedule_Inr needed_Inr sum.inject
  by (elim exE conjE, hypsubst) (intro exI conjI, assumption, assumption, simp_all add: obj_get_def)

lemma normalize_merged_grants:
  assumes "normalize_merged e m = Inr t"
  shows "obj_get m ''grants'' = JList [] \<Longrightarrow> obj_get t ''grants'' = JList []" and "distinct (map fst t)"
    and "''name'' \<notin> set (map fst t)"
proof -
  obtain graw gall where g: "as_list (or_else (obj_get m ''grants'') (JList [])) = Some graw" "each grant_spec graw = Inr gall"
    "obj_get t ''grants'' = JList (unique_first [] gall)" and keys: "map fst t = [''kind'', ''schedule'', ''prompt'', ''project_id'', ''mode'', ''permission_profile'', ''model'', ''skills'',
      ''grants'', ''command'', ''tool'', ''watch'', ''agent_id'', ''target'', ''session_id'', ''deliver_to'', ''notify'', ''enabled'']"
    using normalize_merged_form [OF assms] by (elim exE conjE) (rule that)
  show "obj_get m ''grants'' = JList [] \<Longrightarrow> obj_get t ''grants'' = JList []"
    using g by (auto simp: as_list_def)
  show "distinct (map fst t)" "''name'' \<notin> set (map fst t)" unfolding keys by simp_all
qed

lemma merge_get: "distinct (map fst b) \<Longrightarrow> obj_get (merge a b) k = (case dict_get b k of Some v \<Rightarrow> v | None \<Rightarrow> obj_get a k)"
proof (induction b arbitrary: a)
  case (Cons x b)
  obtain k' v' where x: "x = (k', v')" by (cases x)
  then have "dict_get b k' = None" using Cons.prems by (simp add: dict_get_None)
  with Cons.IH [of "dict_set k' v' a"] Cons.prems x show ?case by (auto split: option.splits)
qed simp

lemma normalize_grants:
  assumes "normalize e now raw [] = Some (Inr t)"
  shows "distinct (map fst raw) \<Longrightarrow> obj_get raw ''grants'' = JList [] \<Longrightarrow> obj_get t ''grants'' = JList []"
    and "distinct (map fst t)"
proof -
  obtain name m t' where t: "t = (''name'', JStr (strip name)) # t'" and t': "normalize_merged e m = Inr t'"
    and m: "(if dict_get raw ''schedule'' = None then Some (Inr (merge [] raw))
     else map_option (\<lambda>r. bindE (lift_schedule r) (\<lambda>v. Inr (dict_set ''schedule'' v (merge [] raw))))
                        (resolve_after (epoch_of e) (local_of e) (obj_get raw ''schedule'') now)) = Some (Inr m)"
    using assms unfolding normalize_def Let_def by (auto split: sum.splits option.splits simp del: not_None_eq)
  show "distinct (map fst t)" using normalize_merged_grants(2,3) [OF t'] by (auto simp: t)
  assume raw: "distinct (map fst raw)" "obj_get raw ''grants'' = JList []"
  have "obj_get m ''grants'' = obj_get (merge [] raw) ''grants''" using m by (auto split: if_splits)
  also have "\<dots> = JList []" using raw merge_get [OF raw(1), of "[]" "''grants''"] by (simp add: obj_get_def split: option.splits)
  finally have "obj_get t' ''grants'' = JList []" by (rule normalize_merged_grants(1) [OF t'])
  then show "obj_get t ''grants'' = JList []" by (simp add: t obj_get_def)
qed

text \<open>C40. What a model proposes carries no grants: neither the draft the owner is shown nor the task
  stored when it is created at once, whatever the model asked for; without creation nothing is
  stored.\<close>

theorem proposals_carry_no_grants:
  assumes "propose e now i raw c rows = Some (Inr (draft, row, rows'))"
  shows "obj_get draft ''grants'' = JList [] \<and>
    (case row of None \<Rightarrow> rows' = rows | Some r \<Rightarrow> c \<and> obj_get r ''grants'' = JList [] \<and> dict_get rows' i = Some r)"
proof -
  note pf = propose_facts [OF assms]
  show ?thesis
  proof (cases row)
    case None
    with pf show ?thesis by simp
  next
    case (Some r)
    with pf have cr: "create e now i draft rows = Some (Inr (r, rows'))" and c and dg: "obj_get draft ''grants'' = JList []" by simp_all
    obtain t0 where t0: "normalize e now raw [] = Some (Inr t0)" "draft = dict_set ''grants'' (JList []) t0"
      using assms by (auto simp: propose_def Let_def split: option.splits sum.splits if_splits)
    have dist: "distinct (map fst draft)" using normalize_grants(2) [OF t0(1)] t0(2) by (simp add: distinct_dict_set)
    obtain t due where t: "normalize e now draft [] = Some (Inr t)"
      and row: "r = stored_row i (dict_set ''next_run_at'' due (merge t [(''created_at'', JFloat now), (''updated_at'', JFloat now)]))"
      using create_row [OF cr] .
    have "obj_get t ''grants'' = JList []" by (rule normalize_grants(1) [OF t dist dg])
    then have "obj_get r ''grants'' = JList []" by (simp add: row stored_row_get)
    moreover have "dict_get rows' i = Some r" using cr by (auto simp: create_def repo_save_def Let_def)
    ultimately show ?thesis using Some dg \<open>c\<close> by simp
  qed
qed

definition friday_env :: env where
  "friday_env = \<lparr>project_exists = (\<lambda>_. True), model_exists = (\<lambda>_. True), skill_exists = (\<lambda>_. True),
     agent_exists = (\<lambda>_. True), session_exists = (\<lambda>_. True), check_delivery = None, expanduser = id,
     is_folder = (\<lambda>_. True), json_size = (\<lambda>_. Some 2), epoch_of = utc_epoch, local_of = (\<lambda>_. friday_evening),
     fromisoformat_of = (\<lambda>_. None), str_of = (\<lambda>_. [])\<rparr>"

definition greedy_draft :: "(string \<times> json) list" where
  "greedy_draft = [(''name'', JStr '' Mail ''), (''prompt'', JStr ''Read it''), (''schedule'', weekly_raw),
     (''grants'', JList [JObj [(''capability'', JStr ''shell.run'')]])]"

theorem proposals_carry_no_grants_witness:
  "(case propose friday_env (utc_epoch friday_evening) ''sch_1'' greedy_draft True [] of
      Some (Inr (draft, Some r, rows)) \<Rightarrow> obj_get r ''grants'' = JList [] \<and> obj_get r ''name'' = JStr ''Mail''
    | _ \<Rightarrow> False)"
proof -
  have run: "case propose friday_env (utc_epoch friday_evening) ''sch_1'' greedy_draft True [] of
      Some (Inr (draft, Some r, rows)) \<Rightarrow> obj_get r ''name'' = JStr ''Mail'' | _ \<Rightarrow> False"
    by code_simp
  then obtain draft r rows where out: "propose friday_env (utc_epoch friday_evening) ''sch_1'' greedy_draft True [] = Some (Inr (draft, Some r, rows))"
    by (auto split: option.splits sum.splits prod.splits)
  from proposals_carry_no_grants [OF out] run show ?thesis by (simp add: out)
qed

end
