(* ===== verification/Conversation.thy ===== *)
theory Conversation
  imports Rinari_Prelude "HOL-Library.Sublist"
begin

text \<open>
  The messages of a conversation and what a turn that was cut short leaves behind
  (\<^verbatim>\<open>src/src/rinari/runtime/durable_history.py\<close>, with \<open>ToolCall\<close> and \<open>ChatMessage\<close> of
  \<^verbatim>\<open>models/types.py\<close>): messages are saved as they are appended, calls without a result get an
  explicit unknown outcome, and results that reached the event log before the crash are recovered.

  Images and attachments of a message are left out, they play no part here. The rows of the event log
  are records of the fields the code reads: the engine writes those identifiers as text, and a field
  of another type reads as missing. Parameters: \<open>fresh\<close> (the random identifier of a new message, by
  its place), \<open>mid\<close> (\<open>uuid5\<close>), \<open>loads\<close> and \<open>dumps\<close> (the JSON library).
\<close>

section \<open>Messages\<close>

record ToolCall =
  call_id :: string
  call_name :: string
  call_arguments :: "(string \<times> json) list"

record ChatMessage =
  cm_id :: string
  cm_role :: string
  cm_content :: "string option"
  cm_calls :: "ToolCall list"
  cm_call_id :: "string option"
  cm_name :: "string option"
  cm_origin :: "(string \<times> json) list option"
  cm_continuation :: "json option"

abbreviation ROLE_TOOL :: string where "ROLE_TOOL \<equiv> ''tool''"
abbreviation ROLE_USER :: string where "ROLE_USER \<equiv> ''user''"
abbreviation ROLE_ASSISTANT :: string where "ROLE_ASSISTANT \<equiv> ''assistant''"

definition plain_message :: "string \<Rightarrow> string \<Rightarrow> string \<Rightarrow> ChatMessage" where
  "plain_message i r text =
     \<lparr>cm_id = i, cm_role = r, cm_content = Some text, cm_calls = [], cm_call_id = None, cm_name = None,
      cm_origin = None, cm_continuation = None\<rparr>"

definition tool_result :: "string \<Rightarrow> string \<Rightarrow> string \<Rightarrow> string \<Rightarrow> ChatMessage" where
  "tool_result i call nm text =
     (plain_message i ROLE_TOOL text)\<lparr>cm_call_id := Some call, cm_name := Some nm\<rparr>"

definition asking :: "string \<Rightarrow> string \<Rightarrow> ToolCall list \<Rightarrow> ChatMessage" where
  "asking i text calls = (plain_message i ROLE_ASSISTANT text)\<lparr>cm_calls := calls\<rparr>"

lemma message_fields [simp]:
  "cm_id (plain_message i r t) = i" "cm_role (plain_message i r t) = r" "cm_content (plain_message i r t) = Some t"
  "cm_calls (plain_message i r t) = []" "cm_call_id (plain_message i r t) = None"
  "cm_id (tool_result i c n t) = i" "cm_role (tool_result i c n t) = ROLE_TOOL" "cm_content (tool_result i c n t) = Some t"
  "cm_calls (tool_result i c n t) = []" "cm_call_id (tool_result i c n t) = Some c"
  "cm_id (asking i t calls) = i" "cm_role (asking i t calls) = ROLE_ASSISTANT" "cm_calls (asking i t calls) = calls"
  by (simp_all add: plain_message_def tool_result_def asking_def)

section \<open>Closing interrupted calls\<close>

definition unknown_outcome :: string where
  "unknown_outcome =
     ''{\"ok\":false,\"outcome\":\"unknown\",\"message\":\"Previous turn was interrupted. '' @
     ''No durable result exists for this call. It may not have started, or may have '' @
     ''had external effects. Verify existing state before attempting it again; '' @
     ''do not automatically repeat this action.\"}''"

type_synonym observations = "((string \<times> string option) \<times> string) list"

definition outcome_of :: "observations \<Rightarrow> string \<Rightarrow> ToolCall \<Rightarrow> string" where
  "outcome_of obs owner c =
     (case dict_get obs (owner, Some (call_id c)) of Some text \<Rightarrow> text | None \<Rightarrow> unknown_outcome)"

fun finish :: "observations \<Rightarrow> (nat \<Rightarrow> string) \<Rightarrow> (string \<times> ToolCall \<times> string) list \<Rightarrow> ChatMessage list \<Rightarrow> ChatMessage list" where
  "finish obs fresh [] out = out"
| "finish obs fresh ((k, c, owner) # pending) out =
     finish obs fresh pending (out @ [tool_result (fresh (length out)) (call_id c) (call_name c) (outcome_of obs owner c)])"

definition note_calls :: "ChatMessage \<Rightarrow> (string \<times> ToolCall \<times> string) list \<Rightarrow> (string \<times> ToolCall \<times> string) list" where
  "note_calls m pending = fold (\<lambda>c. dict_set (call_id c) (c, cm_id m)) (cm_calls m) pending"

definition pair_step ::
  "observations \<Rightarrow> (nat \<Rightarrow> string) \<Rightarrow> ChatMessage \<Rightarrow> ChatMessage list \<times> (string \<times> ToolCall \<times> string) list \<Rightarrow>
     ChatMessage list \<times> (string \<times> ToolCall \<times> string) list" where
  "pair_step obs fresh m st =
     (case st of (out, pending) \<Rightarrow>
       if cm_role m \<noteq> ROLE_TOOL then (finish obs fresh pending out @ [m], note_calls m [])
       else (out @ [m],
             note_calls m (case cm_call_id m of Some i \<Rightarrow> dict_pop i pending | None \<Rightarrow> pending)))"

definition complete_tool_pairs ::
  "observations \<Rightarrow> (nat \<Rightarrow> string) \<Rightarrow> ChatMessage list \<Rightarrow> ChatMessage list" where
  "complete_tool_pairs obs fresh ms =
     (case fold (pair_step obs fresh) ms ([], []) of (out, pending) \<Rightarrow> finish obs fresh pending out)"

section \<open>What a provider accepts\<close>

text \<open>
  Providers reject a request in which a call is not answered right after the message that made it, or
  a result answers no call of that message. \<open>open_calls\<close> are the calls still to be answered, \<open>None\<close>
  when another message came first; \<open>orphan_free\<close> looks the calls of each result up in its block.
\<close>

fun open_calls :: "string list \<Rightarrow> ChatMessage list \<Rightarrow> string list option" where
  "open_calls ids [] = Some ids"
| "open_calls ids (m # ms) =
     (if cm_role m = ROLE_TOOL
      then open_calls (filter (\<lambda>i. Some i \<noteq> cm_call_id m) ids @ map call_id (cm_calls m)) ms
      else if ids = [] then open_calls (map call_id (cm_calls m)) ms
      else None)"

definition all_answered :: "ChatMessage list \<Rightarrow> bool" where
  "all_answered ms \<longleftrightarrow> open_calls [] ms = Some []"

fun block_calls :: "string list \<Rightarrow> ChatMessage list \<Rightarrow> string list" where
  "block_calls ids [] = ids"
| "block_calls ids (m # ms) =
     block_calls ((if cm_role m = ROLE_TOOL then ids else []) @ map call_id (cm_calls m)) ms"

fun orphan_free :: "string list \<Rightarrow> ChatMessage list \<Rightarrow> bool" where
  "orphan_free ids [] = True"
| "orphan_free ids (m # ms) =
     ((if cm_role m = ROLE_TOOL then (case cm_call_id m of Some i \<Rightarrow> i \<in> set ids | None \<Rightarrow> False) else True) \<and>
      orphan_free ((if cm_role m = ROLE_TOOL then ids else []) @ map call_id (cm_calls m)) ms)"

definition no_orphans :: "ChatMessage list \<Rightarrow> bool" where
  "no_orphans ms \<longleftrightarrow> orphan_free [] ms"

lemma open_calls_append: "open_calls ids (xs @ ys) = Option.bind (open_calls ids xs) (\<lambda>i. open_calls i ys)"
  by (induction ids xs rule: open_calls.induct) auto

lemma block_calls_append [simp]: "block_calls ids (xs @ ys) = block_calls (block_calls ids xs) ys"
  by (induction ids xs rule: block_calls.induct) auto

lemma orphan_free_append [simp]:
  "orphan_free ids (xs @ ys) \<longleftrightarrow> orphan_free ids xs \<and> orphan_free (block_calls ids xs) ys"
  by (induction ids xs rule: block_calls.induct) auto

text \<open>Each call is answered by a result further on, with nothing but results in between.\<close>

lemma open_calls_answered:
  assumes "open_calls ids ms = Some []" and "c \<in> set ids"
  shows "\<exists>j < length ms. cm_call_id (ms ! j) = Some c \<and> list_all (\<lambda>m. cm_role m = ROLE_TOOL) (take (Suc j) ms)"
  using assms
proof (induction ids ms rule: open_calls.induct)
  case (2 ids m ms)
  have tool: "cm_role m = ROLE_TOOL" using 2 by (auto split: if_splits)
  show ?case
  proof (cases "cm_call_id m = Some c")
    case True
    with tool show ?thesis by (intro exI [of _ 0]) simp
  next
    case False
    with 2 tool obtain j where "j < length ms" "cm_call_id (ms ! j) = Some c"
      "list_all (\<lambda>m. cm_role m = ROLE_TOOL) (take (Suc j) ms)"
      by auto
    with tool show ?thesis by (intro exI [of _ "Suc j"]) simp
  qed
qed simp

lemma all_answered_at:
  assumes "all_answered ms" and "i < length ms" and "c \<in> set (cm_calls (ms ! i))"
  shows "\<exists>j. i < j \<and> j < length ms \<and> cm_call_id (ms ! j) = Some (call_id c) \<and>
    (\<forall>k. i < k \<and> k \<le> j \<longrightarrow> cm_role (ms ! k) = ROLE_TOOL)"
proof -
  have split: "ms = take i ms @ ms ! i # drop (Suc i) ms" using assms(2) by (simp add: id_take_nth_drop)
  have "open_calls [] (take i ms @ ms ! i # drop (Suc i) ms) = Some []"
    using assms(1) split by (simp add: all_answered_def)
  then obtain ids where "open_calls ids (drop (Suc i) ms) = Some []" "call_id c \<in> set ids"
    using assms(3) by (auto simp: open_calls_append bind_eq_Some_conv split: if_splits)
  from open_calls_answered [OF this] obtain j where j: "j < length (drop (Suc i) ms)"
    "cm_call_id (drop (Suc i) ms ! j) = Some (call_id c)"
    "list_all (\<lambda>m. cm_role m = ROLE_TOOL) (take (Suc j) (drop (Suc i) ms))"
    by blast
  have "cm_role (ms ! k) = ROLE_TOOL" if k: "i < k" "k \<le> Suc i + j" for k
  proof -
    have "take (Suc j) (drop (Suc i) ms) ! (k - Suc i) = ms ! k" and "k - Suc i < length (take (Suc j) (drop (Suc i) ms))"
      using k j(1) by auto
    moreover from this(2) have "cm_role (take (Suc j) (drop (Suc i) ms) ! (k - Suc i)) = ROLE_TOOL"
      using j(3) unfolding list_all_length by blast
    ultimately show ?thesis by simp
  qed
  with j show ?thesis by (intro exI [of _ "Suc i + j"]) auto
qed

section \<open>Closed histories\<close>

fun added :: "observations \<Rightarrow> (nat \<Rightarrow> string) \<Rightarrow> nat \<Rightarrow> (string \<times> ToolCall \<times> string) list \<Rightarrow> ChatMessage list" where
  "added obs fresh n [] = []"
| "added obs fresh n ((k, c, owner) # pending) =
     tool_result (fresh n) (call_id c) (call_name c) (outcome_of obs owner c) # added obs fresh (Suc n) pending"

lemma finish_added: "finish obs fresh pending out = out @ added obs fresh (length out) pending"
  by (induction obs fresh pending out rule: finish.induct) simp_all

abbreviation keyed :: "(string \<times> ToolCall \<times> string) list \<Rightarrow> bool" where
  "keyed pending \<equiv> list_all (\<lambda>(k, c, owner). k = call_id c) pending"

lemma open_calls_added:
  "keyed pending \<Longrightarrow> open_calls ids (added obs fresh n pending) = Some (filter (\<lambda>i. i \<notin> fst ` set pending) ids)"
  by (induction obs fresh n pending arbitrary: ids rule: added.induct) (auto intro: filter_cong)

lemma block_calls_added [simp]: "block_calls ids (added obs fresh n pending) = ids"
  by (induction obs fresh n pending rule: added.induct) simp_all

lemma orphan_free_added: "keyed pending \<Longrightarrow> orphan_free ids (added obs fresh n pending) \<longleftrightarrow> fst ` set pending \<subseteq> set ids"
  by (induction obs fresh n pending rule: added.induct) auto

lemma keyed_set: "keyed pending \<Longrightarrow> keyed (dict_set (call_id c) (c, owner) pending)"
  by (induction pending) auto

lemma note_calls_keys [simp]: "fst ` set (note_calls m pending) = fst ` set pending \<union> call_id ` set (cm_calls m)"
proof -
  have "fst ` set (fold (\<lambda>c. dict_set (call_id c) (c, owner)) cs pending) = fst ` set pending \<union> call_id ` set cs" for cs owner
    by (induction cs arbitrary: pending) auto
  then show ?thesis by (simp add: note_calls_def)
qed

lemma note_calls_keyed: "keyed pending \<Longrightarrow> keyed (note_calls m pending)"
proof -
  have "keyed p \<Longrightarrow> keyed (fold (\<lambda>c. dict_set (call_id c) (c, owner)) cs p)" for cs owner p
    by (induction cs arbitrary: p) (auto simp: keyed_set)
  then show "keyed pending \<Longrightarrow> ?thesis" by (simp add: note_calls_def)
qed

lemma dict_pop_keys [simp]: "fst ` set (dict_pop k d) = fst ` set d - {k}"
  by (force simp: dict_pop_def)

lemma keyed_pop: "keyed pending \<Longrightarrow> keyed (dict_pop k pending)"
  by (auto simp: dict_pop_def list_all_iff)

text \<open>The calls \<open>complete_tool_pairs\<close> keeps pending are the open calls of what it has written.\<close>

definition tracks :: "ChatMessage list \<times> (string \<times> ToolCall \<times> string) list \<Rightarrow> bool" where
  "tracks st \<longleftrightarrow> keyed (snd st) \<and> (\<exists>ids. open_calls [] (fst st) = Some ids \<and> set ids = fst ` set (snd st))"

lemma finish_closes: "tracks (out, pending) \<Longrightarrow> open_calls [] (finish obs fresh pending out) = Some []"
  by (auto simp: tracks_def finish_added open_calls_append open_calls_added filter_empty_conv)

lemma pair_step_tracks: "tracks st \<Longrightarrow> tracks (pair_step obs fresh m st)"
proof -
  obtain out pending where st: "st = (out, pending)" by (cases st)
  assume t: "tracks st"
  then have k: "keyed pending" by (simp add: st tracks_def)
  show ?thesis
  proof (cases "cm_role m = ROLE_TOOL")
    case True
    obtain ids where ids: "open_calls [] out = Some ids" "set ids = fst ` set pending"
      using t by (auto simp: st tracks_def)
    have "open_calls [] (out @ [m]) = Some (filter (\<lambda>i. Some i \<noteq> cm_call_id m) ids @ map call_id (cm_calls m))"
      using True ids by (simp add: open_calls_append)
    with True ids k show ?thesis
      by (cases "cm_call_id m") (auto simp: st tracks_def pair_step_def note_calls_keyed keyed_pop)
  next
    case False
    with finish_closes [of out pending obs fresh] t show ?thesis
      by (simp add: st tracks_def pair_step_def open_calls_append note_calls_keyed)
  qed
qed

interpretation pairing: invariant_steps "pair_step obs fresh" "\<lambda>m. True" tracks for obs fresh
  by unfold_locales (rule pair_step_tracks)

lemma tracks_start: "tracks ([], [])"
  by (simp add: tracks_def)

lemma complete_all_answered: "all_answered (complete_tool_pairs obs fresh ms)"
proof -
  have "tracks (fold (pair_step obs fresh) ms ([], []))"
    using pairing.run_inv [OF tracks_start] by (simp add: list_all_iff)
  then show ?thesis
    by (auto simp: complete_tool_pairs_def all_answered_def finish_closes split: prod.split)
qed

text \<open>A history with nothing open is left as it is.\<close>

lemma complete_unchanged_from:
  assumes "open_calls ids ms = Some []" and "keyed pending" and "set ids = fst ` set pending"
  shows "fold (pair_step obs fresh) ms (out, pending) = (out @ ms, [])"
  using assms
proof (induction ids ms arbitrary: out pending rule: open_calls.induct)
  case (1 ids)
  then show ?case by simp
next
  case (2 ids m ms)
  show ?case
  proof (cases "cm_role m = ROLE_TOOL")
    case True
    let ?ids = "filter (\<lambda>i. Some i \<noteq> cm_call_id m) ids @ map call_id (cm_calls m)"
    let ?pending = "note_calls m (case cm_call_id m of Some i \<Rightarrow> dict_pop i pending | None \<Rightarrow> pending)"
    have "keyed ?pending" using 2 by (auto intro!: note_calls_keyed keyed_pop split: option.split)
    moreover have "set ?ids = fst ` set ?pending" using 2 by (auto split: option.split)
    ultimately show ?thesis using 2 True by (simp add: pair_step_def)
  next
    case False
    with 2 have "pending = []" by (auto split: if_splits)
    with 2 False note_calls_keyed [of "[]" m] show ?thesis by (simp add: pair_step_def split: if_splits)
  qed
qed

lemma complete_unchanged: "all_answered ms \<Longrightarrow> complete_tool_pairs obs fresh ms = ms"
  using complete_unchanged_from [of "[]" ms "[]" obs fresh "[]"]
  by (simp add: all_answered_def complete_tool_pairs_def)

text \<open>The messages stay, in their order, and only results of their own calls come in between.\<close>

definition result_for :: "observations \<Rightarrow> ChatMessage list \<Rightarrow> ChatMessage \<Rightarrow> bool" where
  "result_for obs ms r \<longleftrightarrow>
     list_ex (\<lambda>m. list_ex (\<lambda>c. r = tool_result (cm_id r) (call_id c) (call_name c) (outcome_of obs (cm_id m) c)) (cm_calls m)) ms"

lemma result_forI:
  "m \<in> set ms \<Longrightarrow> c \<in> set (cm_calls m) \<Longrightarrow>
     result_for obs ms (tool_result i (call_id c) (call_name c) (outcome_of obs (cm_id m) c))"
  by (auto simp: result_for_def list_ex_iff)

lemma added_results:
  assumes "r \<in> set (added obs fresh n pending)"
    and "list_all (\<lambda>(k, c, owner). list_ex (\<lambda>m. cm_id m = owner \<and> c \<in> set (cm_calls m)) ms) pending"
  shows "result_for obs ms r"
  using assms
  by (induction obs fresh n pending rule: added.induct) (auto simp: list_ex_iff intro: result_forI)

definition owned :: "ChatMessage list \<Rightarrow> (string \<times> ToolCall \<times> string) list \<Rightarrow> bool" where
  "owned ms pending \<longleftrightarrow> list_all (\<lambda>(k, c, owner). list_ex (\<lambda>m. cm_id m = owner \<and> c \<in> set (cm_calls m)) ms) pending"

lemma owned_Nil [simp]: "owned ms []"
  by (simp add: owned_def)

lemma owned_set: "owned ms pending \<Longrightarrow> m \<in> set ms \<Longrightarrow> c \<in> set (cm_calls m) \<Longrightarrow> owned ms (dict_set k (c, cm_id m) pending)"
  by (induction pending) (auto simp: owned_def list_ex_iff)

lemma owned_note: "owned ms pending \<Longrightarrow> m \<in> set ms \<Longrightarrow> owned ms (note_calls m pending)"
proof -
  assume m: "m \<in> set ms"
  have "set cs \<subseteq> set (cm_calls m) \<Longrightarrow> owned ms p \<Longrightarrow> owned ms (fold (\<lambda>c. dict_set (call_id c) (c, cm_id m)) cs p)" for cs p
    using m by (induction cs arbitrary: p) (auto intro: owned_set)
  then show "owned ms pending \<Longrightarrow> ?thesis" by (simp add: note_calls_def)
qed

lemma owned_pop: "owned ms pending \<Longrightarrow> owned ms (dict_pop k pending)"
  by (auto simp: owned_def dict_pop_def list_all_iff)

lemma pair_step_adds:
  assumes "list_all (\<lambda>m. m \<in> set ms \<or> result_for obs ms m) (fst st)" and "owned ms (snd st)" and "m \<in> set ms"
    and "st' = pair_step obs fresh m st"
  shows "list_all (\<lambda>m. m \<in> set ms \<or> result_for obs ms m) (fst st') \<and> owned ms (snd st')"
proof (cases st)
  case (Pair out pending)
  have "list_all (\<lambda>m. m \<in> set ms \<or> result_for obs ms m) (finish obs fresh pending out)"
    using assms(1,2) Pair added_results [of _ obs fresh "length out" pending ms]
    by (auto simp: finish_added list_all_iff owned_def)
  then show ?thesis
    using assms Pair
    by (auto simp: pair_step_def list_all_iff intro!: owned_note owned_pop split: option.split)
qed

lemma complete_adds_results: "list_all (\<lambda>m. m \<in> set ms \<or> result_for obs ms m) (complete_tool_pairs obs fresh ms)"
proof -
  have "set xs \<subseteq> set ms \<Longrightarrow> list_all (\<lambda>m. m \<in> set ms \<or> result_for obs ms m) (fst st) \<Longrightarrow> owned ms (snd st) \<Longrightarrow>
      list_all (\<lambda>m. m \<in> set ms \<or> result_for obs ms m) (fst (fold (pair_step obs fresh) xs st)) \<and>
      owned ms (snd (fold (pair_step obs fresh) xs st))" for xs st
  proof (induction xs arbitrary: st)
    case (Cons x xs)
    show ?case using Cons.IH [of "pair_step obs fresh x st"] pair_step_adds [OF Cons.prems(2,3) _ refl, of x fresh] Cons.prems(1)
      by simp
  qed simp
  note run = this [of ms "([], [])"]
  obtain out pending where st: "fold (pair_step obs fresh) ms ([], []) = (out, pending)" by fastforce
  with run have "list_all (\<lambda>m. m \<in> set ms \<or> result_for obs ms m) out" and "owned ms pending" by simp_all
  with added_results [of _ obs fresh "length out" pending ms] show ?thesis
    by (auto simp: complete_tool_pairs_def st finish_added list_all_iff owned_def)
qed

lemma subseq_finish: "subseq xs out \<Longrightarrow> subseq xs (finish obs fresh pending out)"
  unfolding finish_added by (rule list_emb_prefix)

lemma complete_keeps: "subseq ms (complete_tool_pairs obs fresh ms)"
proof -
  have "subseq ys (fst st) \<Longrightarrow> subseq (ys @ xs) (fst (fold (pair_step obs fresh) xs st))" for xs ys st
  proof (induction xs arbitrary: ys st)
    case (Cons x xs)
    have "subseq (ys @ [x]) (fst (pair_step obs fresh x st))"
      using Cons.prems by (auto simp: pair_step_def subseq_finish split: prod.split)
    from Cons.IH [OF this] show ?case by simp
  qed simp
  from this [of "[]" "([], [])" ms] show ?thesis
    by (auto simp: complete_tool_pairs_def subseq_finish split: prod.split)
qed

lemma pair_step_no_orphans:
  assumes "orphan_free [] (xs @ [m])" and "orphan_free [] (fst st)" and "block_calls [] (fst st) = block_calls [] xs"
    and "keyed (snd st)" and "fst ` set (snd st) \<subseteq> set (block_calls [] xs)" and "st' = pair_step obs fresh m st"
  shows "orphan_free [] (fst st') \<and> block_calls [] (fst st') = block_calls [] (xs @ [m]) \<and> keyed (snd st') \<and>
    fst ` set (snd st') \<subseteq> set (block_calls [] (xs @ [m]))"
proof (cases st)
  case (Pair out pending)
  show ?thesis
  proof (cases "cm_role m = ROLE_TOOL")
    case True
    with assms Pair show ?thesis
      by (cases "cm_call_id m") (auto simp: pair_step_def note_calls_keyed keyed_pop)
  next
    case False
    with assms Pair show ?thesis
      by (auto simp: pair_step_def finish_added orphan_free_added note_calls_keyed)
  qed
qed

lemma complete_no_orphans: "no_orphans ms \<Longrightarrow> no_orphans (complete_tool_pairs obs fresh ms)"
proof -
  assume ms: "no_orphans ms"
  have "orphan_free [] (xs @ ys) \<Longrightarrow> orphan_free [] (fst st) \<Longrightarrow> block_calls [] (fst st) = block_calls [] xs \<Longrightarrow>
      keyed (snd st) \<Longrightarrow> fst ` set (snd st) \<subseteq> set (block_calls [] xs) \<Longrightarrow> st' = fold (pair_step obs fresh) ys st \<Longrightarrow>
      orphan_free [] (fst st') \<and> keyed (snd st') \<and> fst ` set (snd st') \<subseteq> set (block_calls [] (fst st'))" for xs ys st st'
  proof (induction ys arbitrary: xs st)
    case (Cons y ys)
    have y: "orphan_free [] (xs @ [y])" using Cons.prems(1) by simp
    from pair_step_no_orphans [OF y Cons.prems(2-5) refl, of obs fresh]
      Cons.IH [of "xs @ [y]" "pair_step obs fresh y st"] Cons.prems(1,6)
    show ?case by simp
  qed simp
  note run = this [of "[]" ms "([], [])" "fold (pair_step obs fresh) ms ([], [])"]
  obtain out pending where st: "fold (pair_step obs fresh) ms ([], []) = (out, pending)" by fastforce
  with run ms have "orphan_free [] out" "keyed pending" "fst ` set pending \<subseteq> set (block_calls [] out)"
    by (simp_all add: no_orphans_def)
  then show ?thesis by (simp add: complete_tool_pairs_def st finish_added no_orphans_def orphan_free_added)
qed

text \<open>
  C11. What an interrupted turn left open is closed before anything is sent again: every call of the
  resulting history is answered in the block of results right after it, the messages stay in their order,
  each message that was added is the result of one of their calls (its durable observation, or the
  explicit unknown outcome), a history with nothing open is left as it is, and no result loses its call.
\<close>

theorem interrupted_calls_are_closed:
  fixes obs :: observations and fresh :: "nat \<Rightarrow> string"
  defines "restored \<equiv> complete_tool_pairs obs fresh"
  shows "all_answered (restored ms) \<and> subseq ms (restored ms) \<and>
    list_all (\<lambda>m. m \<in> set ms \<or> result_for obs ms m) (restored ms) \<and>
    (if all_answered ms then restored ms = ms else True) \<and> (if no_orphans ms then no_orphans (restored ms) else True)"
  unfolding restored_def
  by (simp add: complete_all_answered complete_keeps complete_adds_results complete_unchanged complete_no_orphans)

section \<open>Messages saved as they are appended\<close>

record DurableHistory =
  dh_messages :: "ChatMessage list"
  known_ids :: "string list"
  dh_saved :: "ChatMessage list"

text \<open>
  \<open>known_ids\<close> is a set in the code; \<open>dh_saved\<close> are the records \<open>save\<close> has written, newest last. \<open>save\<close>
  gives back the message as stored, which may carry another identifier (the owner's first message takes
  the one of its record), and may depend on what was saved before.
\<close>

type_synonym saver = "DurableHistory \<Rightarrow> ChatMessage \<Rightarrow> ChatMessage"

definition new_history :: "ChatMessage list \<Rightarrow> DurableHistory" where
  "new_history ms = \<lparr>dh_messages = ms, known_ids = remdups (map cm_id ms), dh_saved = []\<rparr>"

definition dh_append :: "saver \<Rightarrow> ChatMessage \<Rightarrow> DurableHistory \<Rightarrow> DurableHistory" where
  "dh_append save m h =
     (if cm_id m \<in> set (known_ids h) then h\<lparr>dh_messages := dh_messages h @ [m]\<rparr>
      else
        (let m' = save h m in
         h\<lparr>dh_messages := dh_messages h @ [m'], known_ids := List.insert (cm_id m') (known_ids h),
           dh_saved := dh_saved h @ [m']\<rparr>))"

definition dh_extend :: "saver \<Rightarrow> ChatMessage list \<Rightarrow> DurableHistory \<Rightarrow> DurableHistory" where
  "dh_extend save ms h = fold (dh_append save) ms h"

text \<open>What the loop and the compaction do with the list: append, and replace the whole of it.\<close>

datatype history_op = AppendMessage ChatMessage | ExtendWith "ChatMessage list" | ClearList

fun history_step :: "saver \<Rightarrow> history_op \<Rightarrow> DurableHistory \<Rightarrow> DurableHistory" where
  "history_step save (AppendMessage m) h = dh_append save m h"
| "history_step save (ExtendWith ms) h = dh_extend save ms h"
| "history_step save ClearList h = h\<lparr>dh_messages := []\<rparr>"

definition saved_once :: "string list \<Rightarrow> DurableHistory \<Rightarrow> bool" where
  "saved_once old h \<longleftrightarrow>
     distinct (map cm_id (dh_saved h)) \<and> list_all (\<lambda>m. cm_id m \<notin> set old) (dh_saved h) \<and>
     set (known_ids h) = set old \<union> cm_id ` set (dh_saved h) \<and> cm_id ` set (dh_messages h) \<subseteq> set (known_ids h)"

definition new_names :: "saver \<Rightarrow> bool" where
  "new_names save \<longleftrightarrow> (\<forall>h m. cm_id m \<notin> set (known_ids h) \<longrightarrow> cm_id (save h m) \<notin> set (known_ids h))"

lemma dh_append_saved_once: "new_names save \<Longrightarrow> saved_once old h \<Longrightarrow> saved_once old (dh_append save m h)"
proof -
  assume names: "new_names save" and h: "saved_once old h"
  show ?thesis
  proof (cases "cm_id m \<in> set (known_ids h)")
    case True
    with h show ?thesis by (auto simp: saved_once_def dh_append_def)
  next
    case False
    with names have "cm_id (save h m) \<notin> set (known_ids h)" by (simp add: new_names_def)
    with h have "cm_id (save h m) \<notin> set old" "cm_id (save h m) \<notin> cm_id ` set (dh_saved h)"
      by (simp_all add: saved_once_def)
    with False h show ?thesis by (auto simp: saved_once_def dh_append_def Let_def)
  qed
qed

lemma dh_extend_saved_once: "new_names save \<Longrightarrow> saved_once old h \<Longrightarrow> saved_once old (dh_extend save ms h)"
  unfolding dh_extend_def by (induction ms arbitrary: h) (auto intro: dh_append_saved_once)

lemma saved_once_clear: "saved_once old h \<Longrightarrow> saved_once old (h\<lparr>dh_messages := []\<rparr>)"
  by (simp add: saved_once_def)

interpretation durable: invariant_steps "history_step save" "\<lambda>x. new_names save" "saved_once old" for save old
proof
  fix h x
  show "saved_once old h \<Longrightarrow> new_names save \<Longrightarrow> saved_once old (history_step save x h)"
    by (cases x) (simp_all add: dh_append_saved_once dh_extend_saved_once saved_once_clear)
qed

text \<open>
  C11. A message is saved at most once and what was there before is never saved again, however the loop
  appends and the compaction clears the list and puts messages back: the saved records have distinct
  identifiers, none of an initial message, and every message of the list is initial or saved.
\<close>

theorem messages_are_saved_once:
  assumes "new_names save" and "h = fold (history_step save) ops (new_history ms)"
  shows "distinct (map cm_id (dh_saved h)) \<and> list_all (\<lambda>m. cm_id m \<notin> cm_id ` set ms) (dh_saved h) \<and>
    cm_id ` set (dh_messages h) \<subseteq> cm_id ` set ms \<union> cm_id ` set (dh_saved h)"
proof -
  have "saved_once (map cm_id ms) (new_history ms)" by (simp add: saved_once_def new_history_def)
  from durable.run_inv [OF this, of save ops] assms
  have "saved_once (map cm_id ms) h" by (simp add: list_all_iff)
  then show ?thesis by (auto simp: saved_once_def)
qed

theorem messages_are_saved_once_witness:
  "let save = (\<lambda>h m. m); a = plain_message ''a'' ROLE_USER ''hi''; b = plain_message ''b'' ROLE_ASSISTANT ''yes'';
       h = fold (history_step save) [AppendMessage b, ClearList, ExtendWith [a, b]] (new_history [a])
   in map cm_id (dh_messages h) = [''a'', ''b''] \<and> map cm_id (dh_saved h) = [''b''] \<and> distinct (map cm_id (dh_saved h))"
proof -
  let ?save = "\<lambda>h m. m" and ?a = "plain_message ''a'' ROLE_USER ''hi''" and ?b = "plain_message ''b'' ROLE_ASSISTANT ''yes''"
  have "new_names ?save" by (simp add: new_names_def)
  from messages_are_saved_once [OF this refl, of "[AppendMessage ?b, ClearList, ExtendWith [?a, ?b]]" "[?a]"]
  show ?thesis by (simp add: Let_def new_history_def dh_append_def dh_extend_def)
qed

section \<open>What the event log still knows\<close>

record activity =
  ac_type :: string
  ac_turn :: "string option"
  ac_call :: "string option"
  ac_tool :: "string option"
  ac_arguments :: "(string \<times> json) list option"
  ac_full_arguments :: "(string \<times> json) list option"
  ac_presentation :: json
  ac_observation :: "string option"

definition text_at :: "(string \<times> json) list \<Rightarrow> string \<Rightarrow> string option" where
  "text_at d k = (case dict_get d k of Some (JStr s) \<Rightarrow> Some s | _ \<Rightarrow> None)"

definition object_at :: "(string \<times> json) list \<Rightarrow> string \<Rightarrow> (string \<times> json) list option" where
  "object_at d k = (case dict_get d k of Some (JObj kvs) \<Rightarrow> Some kvs | _ \<Rightarrow> None)"

text \<open>A row whose payload is no JSON object is skipped.\<close>

definition activity_of :: "(string \<Rightarrow> json option) \<Rightarrow> string \<times> string \<Rightarrow> activity option" where
  "activity_of loads row =
     (case loads (snd row) of
        Some (JObj d) \<Rightarrow>
          Some \<lparr>ac_type = fst row, ac_turn = text_at d ''turn_id'', ac_call = text_at d ''tool_call_id'',
                ac_tool = text_at d ''tool'', ac_arguments = object_at d ''arguments'',
                ac_full_arguments = object_at d ''full_arguments'', ac_presentation = obj_get d ''presentation'',
                ac_observation = text_at d ''observation''\<rparr>
      | _ \<Rightarrow> None)"

definition activities :: "(string \<Rightarrow> json option) \<Rightarrow> (string \<times> string) list \<Rightarrow> activity list" where
  "activities loads rows = List.map_filter (activity_of loads) rows"

definition finished_call :: "activity \<Rightarrow> bool" where
  "finished_call e = (ac_type e \<in> {''tool.completed'', ''tool.failed'', ''tool.cancelled''})"

record stored_message =
  sm_id :: string
  sm_turn :: "string option"
  sm_role :: string

datatype recovery_error = PresentationNotAnObject | ObservationNotAnObject

text \<open>The observation of an image says that its pixels were not restored.\<close>

definition shown_observation ::
  "(string \<Rightarrow> json option) \<Rightarrow> (json \<Rightarrow> string) \<Rightarrow> activity \<Rightarrow> string \<Rightarrow> recovery_error + string" where
  "shown_observation loads dumps e text =
     (if \<not> truthy (ac_presentation e) then Inr text
      else
        (case ac_presentation e of
           JObj p \<Rightarrow>
             if obj_get p ''kind'' = JStr ''image''
             then (case loads text of
                     Some (JObj d) \<Rightarrow> Inr (dumps (JObj (dict_set ''visual_pixels_restored'' (JBool False) d)))
                   | _ \<Rightarrow> Inl ObservationNotAnObject)
             else Inr text
         | _ \<Rightarrow> Inl PresentationNotAnObject))"

type_synonym found = "((string \<times> string option) \<times> string option) list"

fun find_observations ::
  "(string \<Rightarrow> json option) \<Rightarrow> (json \<Rightarrow> string) \<Rightarrow> activity list \<Rightarrow> string option \<Rightarrow> found \<Rightarrow> recovery_error + found" where
  "find_observations loads dumps [] current found = Inr found"
| "find_observations loads dumps (e # es) current found =
     (let current' = (if ac_type e = ''turn.started'' then ac_turn e else current);
          turn = (case ac_turn e of Some t \<Rightarrow> if t \<noteq> [] then Some t else current' | None \<Rightarrow> current')
      in
      case (if finished_call e then (turn, ac_observation e) else (None, None)) of
        (Some t, Some text) \<Rightarrow>
          if t = [] then find_observations loads dumps es current' found
          else
            bindE (shown_observation loads dumps e text) (\<lambda>shown.
            let key = (t, ac_call e) in
            find_observations loads dumps es current'
              (dict_set key (if dict_get found key = None then Some shown else None) found))
      | _ \<Rightarrow> find_observations loads dumps es current' found)"

definition hand_out :: "stored_message \<Rightarrow> (string \<times> string option) \<times> string option \<Rightarrow> observations \<Rightarrow> observations" where
  "hand_out r entry acc =
     (case entry of
        ((turn, call), Some text) \<Rightarrow>
          if Some turn = sm_turn r then dict_set (sm_id r, call) text acc else acc
      | (_, None) \<Rightarrow> acc)"

definition completed_observations ::
  "(string \<Rightarrow> json option) \<Rightarrow> (json \<Rightarrow> string) \<Rightarrow> stored_message list \<Rightarrow> (string \<times> string) list \<Rightarrow>
     recovery_error + observations" where
  "completed_observations loads dumps records rows =
     bindE (find_observations loads dumps (activities loads rows) None [])
       (\<lambda>found. Inr (fold (\<lambda>r acc. fold (hand_out r) found acc) records []))"

text \<open>The turn an event belongs to: its own, or the last one that started.\<close>

fun event_turns :: "string option \<Rightarrow> activity list \<Rightarrow> (activity \<times> string option) list" where
  "event_turns current [] = []"
| "event_turns current (e # es) =
     (let current' = (if ac_type e = ''turn.started'' then ac_turn e else current)
      in (e, case ac_turn e of Some t \<Rightarrow> if t \<noteq> [] then Some t else current' | None \<Rightarrow> current') # event_turns current' es)"

definition ends_call :: "string \<Rightarrow> string option \<Rightarrow> activity \<times> string option \<Rightarrow> bool" where
  "ends_call t c et \<longleftrightarrow>
     finished_call (fst et) \<and> snd et = Some t \<and> t \<noteq> [] \<and> ac_call (fst et) = c \<and> ac_observation (fst et) \<noteq> None"

definition shown_as :: "(string \<Rightarrow> json option) \<Rightarrow> (json \<Rightarrow> string) \<Rightarrow> activity \<Rightarrow> string \<Rightarrow> bool" where
  "shown_as loads dumps e text \<longleftrightarrow> (\<exists>raw. ac_observation e = Some raw \<and> shown_observation loads dumps e raw = Inr text)"

lemma find_observations_once:
  assumes "find_observations loads dumps es current found = Inr found'" and "dict_get found' (t, c) = Some (Some text)"
  shows "dict_get found (t, c) = Some (Some text) \<and> filter (ends_call t c) (event_turns current es) = [] \<or>
    dict_get found (t, c) = None \<and>
      (\<exists>e. filter (ends_call t c) (event_turns current es) = [(e, Some t)] \<and> shown_as loads dumps e text)"
  using assms
proof (induction es arbitrary: current found)
  case (Cons e es)
  let ?current = "if ac_type e = ''turn.started'' then ac_turn e else current"
  let ?turn = "case ac_turn e of Some t \<Rightarrow> if t \<noteq> [] then Some t else ?current | None \<Rightarrow> ?current"
  note turns = event_turns.simps(2) [of current e es, unfolded Let_def]
  show ?case
  proof (cases "\<exists>t' raw. finished_call e \<and> ?turn = Some t' \<and> t' \<noteq> [] \<and> ac_observation e = Some raw")
    case False
    then have "find_observations loads dumps es ?current found = Inr found'"
      using Cons.prems(1) by (auto simp: Let_def split: if_splits option.splits)
    moreover have "\<not> ends_call t c (e, ?turn)" using False by (auto simp: ends_call_def)
    ultimately show ?thesis using Cons.IH Cons.prems(2) unfolding turns by simp
  next
    case True
    then obtain t' raw where e: "finished_call e" "?turn = Some t'" "t' \<noteq> []" "ac_observation e = Some raw" by blast
    with Cons.prems(1) obtain shown where shown: "shown_observation loads dumps e raw = Inr shown"
      and rest: "find_observations loads dumps es ?current
        (dict_set (t', ac_call e) (if dict_get found (t', ac_call e) = None then Some shown else None) found) = Inr found'"
      by (cases "shown_observation loads dumps e raw") (simp_all add: Let_def bindE_simps)
    from Cons.IH [OF rest Cons.prems(2)] e shown show ?thesis
      unfolding turns by (auto simp: ends_call_def shown_as_def split: if_splits)
  qed
qed simp

lemma hand_out_from:
  assumes "dict_get (fold (hand_out r) entries acc) (i, c) = Some text"
  shows "dict_get acc (i, c) = Some text \<or>
    (\<exists>t. sm_id r = i \<and> sm_turn r = Some t \<and> ((t, c), Some text) \<in> set entries)"
  using assms
proof (induction entries arbitrary: acc)
  case (Cons entry entries)
  obtain t c' v where entry: "entry = ((t, c'), v)" by (metis surj_pair)
  have step: "dict_get (hand_out r ((t, c'), v) acc) (i, c) = Some text \<Longrightarrow> dict_get acc (i, c) = Some text \<or>
      c' = c \<and> v = Some text \<and> sm_id r = i \<and> sm_turn r = Some t"
    by (cases v) (auto simp: hand_out_def split: if_splits)
  from Cons.IH [of "hand_out r entry acc"] Cons.prems show ?case
    by (auto simp: entry dest!: step)
qed simp

lemma completed_from:
  assumes "dict_get (fold (\<lambda>r acc. fold (hand_out r) entries acc) records acc) (i, c) = Some text"
  shows "dict_get acc (i, c) = Some text \<or>
    (\<exists>r t. r \<in> set records \<and> sm_id r = i \<and> sm_turn r = Some t \<and> ((t, c), Some text) \<in> set entries)"
  using assms
proof (induction records arbitrary: acc)
  case (Cons r records)
  from Cons.IH [of "fold (hand_out r) entries acc"] Cons.prems hand_out_from [of r entries acc i c "text"]
  show ?case by fastforce
qed simp

lemma find_observations_distinct:
  "find_observations loads dumps es current found = Inr found' \<Longrightarrow> distinct (map fst found) \<Longrightarrow> distinct (map fst found')"
proof (induction es arbitrary: current found)
  case (Cons e es)
  then show ?case
    by (simp add: Let_def split: prod.splits option.splits if_splits)
       (auto simp: distinct_dict_set)
qed simp

text \<open>
  C12. A result recovered from the event log belongs to its call: what is handed on for a call of a message
  comes from the only event with which a call of that identifier ended in the turn of that message.
\<close>

theorem recovered_result_is_unambiguous:
  assumes "completed_observations loads dumps records rows = Inr obs" and "dict_get obs (i, c) = Some text"
  shows "\<exists>r t e. r \<in> set records \<and> sm_id r = i \<and> sm_turn r = Some t \<and>
    filter (ends_call t c) (event_turns None (activities loads rows)) = [(e, Some t)] \<and> shown_as loads dumps e text"
proof -
  obtain found where found: "find_observations loads dumps (activities loads rows) None [] = Inr found"
    and obs: "obs = fold (\<lambda>r acc. fold (hand_out r) found acc) records []"
    using assms(1) by (auto simp: completed_observations_def)
  from completed_from [of found records "[]" i c "text"] assms(2) obs
  obtain r t where r: "r \<in> set records" "sm_id r = i" "sm_turn r = Some t" "((t, c), Some text) \<in> set found" by auto
  have "distinct (map fst found)" using find_observations_distinct [OF found] by simp
  then have "dict_get found (t, c) = Some (Some text)" using r(4) by (rule dict_get_in)
  from find_observations_once [OF found this] r show ?thesis by auto
qed

definition sample_loads :: "string \<Rightarrow> json option" where
  "sample_loads s =
     (if s = ''start'' then Some (JObj [(''turn_id'', JStr ''t'')])
      else if s = ''end'' then Some (JObj [(''tool_call_id'', JStr ''c''), (''observation'', JStr ''ok'')])
      else None)"

theorem recovered_result_witness:
  "let rows = [(''turn.started'', ''start''), (''tool.completed'', ''end''), (''tool.failed'', ''broken'')] in
   \<exists>e. filter (ends_call ''t'' (Some ''c'')) (event_turns None (activities sample_loads rows)) = [(e, Some ''t'')] \<and>
       shown_as sample_loads (\<lambda>j. []) e ''ok''"
proof -
  let ?rows = "[(''turn.started'', ''start''), (''tool.completed'', ''end''), (''tool.failed'', ''broken'')]"
  let ?records = "[\<lparr>sm_id = ''m'', sm_turn = Some ''t'', sm_role = ROLE_ASSISTANT\<rparr>]"
  have "completed_observations sample_loads (\<lambda>j. []) ?records ?rows = Inr [((''m'', Some ''c''), ''ok'')]" by code_simp
  from recovered_result_is_unambiguous [OF this, of "''m''" "Some ''c''" "''ok''"] show ?thesis by (auto simp: Let_def)
qed

section \<open>Turns of before messages were durable\<close>

definition setdefault :: "'k \<Rightarrow> 'v \<Rightarrow> ('k \<times> 'v) list \<Rightarrow> ('k \<times> 'v) list" where
  "setdefault k v d = (if dict_get d k = None then dict_set k v d else d)"

fun group_events ::
  "string option list \<Rightarrow> activity list \<Rightarrow> string option \<Rightarrow> (string \<times> activity list) list \<Rightarrow> (string \<times> activity list) list" where
  "group_events answered [] current grouped = grouped"
| "group_events answered (e # es) current grouped =
     (let current' = (if ac_type e = ''turn.started'' then ac_turn e else current) in
      group_events answered es current'
        (case current' of
           Some t \<Rightarrow> if t \<noteq> [] \<and> current' \<notin> set answered
                      then dict_set t ((case dict_get grouped t of Some xs \<Rightarrow> xs | None \<Rightarrow> []) @ [e]) grouped
                      else grouped
         | None \<Rightarrow> grouped))"

text \<open>The first request of a call counts, and the last of its ends.\<close>

definition note_request ::
  "activity \<Rightarrow> (string \<times> string option \<times> (string \<times> json) list) list \<Rightarrow> (string \<times> string option \<times> (string \<times> json) list) list" where
  "note_request e requests =
     (case (ac_call e, if ac_type e = ''ToolRequested'' then ac_arguments e
                       else if ac_type e = ''tool.requested'' then ac_full_arguments e else None) of
        (Some c, Some args) \<Rightarrow> if c \<noteq> [] then setdefault c (ac_tool e, args) requests else requests
      | _ \<Rightarrow> requests)"

definition note_end :: "activity \<Rightarrow> (string \<times> activity) list \<Rightarrow> (string \<times> activity) list" where
  "note_end e results =
     (case ac_call e of
        Some c \<Rightarrow> if finished_call e \<and> c \<noteq> [] then dict_set c e results else results
      | None \<Rightarrow> results)"

definition legacy_evidence :: "(json \<Rightarrow> string) \<Rightarrow> json \<Rightarrow> string" where
  "legacy_evidence dumps presentation =
     dumps (JObj [(''recovered_from'', JStr ''persisted activity event''),
       (''evidence'', JObj [(''legacy_presentation'',
          if presentation = JNull
          then JObj [(''outcome'', JStr ''unknown''),
                     (''message'', JStr ''No recoverable result. Verify state before repeating this action.'')]
          else presentation),
          (''historical_evidence_incomplete'', JBool True)]),
       (''note'', JStr ''Historical evidence, not fresh verification. No action was replayed.'')])"

definition legacy_pair ::
  "(string \<Rightarrow> string) \<Rightarrow> (json \<Rightarrow> string) \<Rightarrow> string \<Rightarrow> (string \<times> activity) list \<Rightarrow>
     string \<times> string option \<times> (string \<times> json) list \<Rightarrow> ChatMessage list" where
  "legacy_pair mid dumps turn results request =
     (case request of (call, tool, args) \<Rightarrow>
        (case tool of
           None \<Rightarrow> []
         | Some nm \<Rightarrow>
             if nm = [] then []
             else
               [asking (mid (turn @ call @ ''request'')) '''' [\<lparr>call_id = call, call_name = nm, call_arguments = args\<rparr>],
                tool_result (mid (turn @ call @ ''result'')) call nm
                  (case dict_get results call of
                     Some e \<Rightarrow> (case ac_observation e of Some text \<Rightarrow> text | None \<Rightarrow> legacy_evidence dumps (ac_presentation e))
                   | None \<Rightarrow> legacy_evidence dumps JNull)]))"

definition legacy_messages :: "(string \<Rightarrow> string) \<Rightarrow> (json \<Rightarrow> string) \<Rightarrow> string \<times> activity list \<Rightarrow> ChatMessage list" where
  "legacy_messages mid dumps entry =
     (case entry of (turn, es) \<Rightarrow>
        if list_ex (\<lambda>e. ac_type e = ''turn.failed'' \<or> ac_type e = ''turn.cancelled'') es
        then concat (map (legacy_pair mid dumps turn (fold note_end es [])) (fold note_request es []))
        else [])"

definition recover_legacy_turns ::
  "(string \<Rightarrow> string) \<Rightarrow> (json \<Rightarrow> string) \<Rightarrow> (string \<Rightarrow> json option) \<Rightarrow> stored_message list \<Rightarrow> (string \<times> string) list \<Rightarrow>
     (string \<times> ChatMessage list) list" where
  "recover_legacy_turns mid dumps loads records rows =
     (let answered = map sm_turn (filter (\<lambda>r. sm_role r = ROLE_ASSISTANT) records) in
      filter (\<lambda>(turn, ms). ms \<noteq> [])
        (map (\<lambda>entry. (fst entry, legacy_messages mid dumps entry)) (group_events answered (activities loads rows) None [])))"

text \<open>The messages of a legacy turn are closed pairs, wherever they are put between others.\<close>

lemma legacy_pair_closed: "open_calls [] (legacy_pair mid dumps turn results request) = Some []"
  by (auto simp: legacy_pair_def split: prod.split option.split)

lemma legacy_pair_calls:
  assumes "m \<in> set (legacy_pair mid dumps turn results request)" and "c \<in> set (cm_calls m)"
  shows "request = (call_id c, Some (call_name c), call_arguments c)"
proof -
  obtain call tool args where request: "request = (call, tool, args)" by (cases request)
  with assms show ?thesis by (cases tool) (auto simp: legacy_pair_def split: if_splits)
qed

lemma legacy_pairs_closed: "open_calls [] (concat (map (legacy_pair mid dumps turn results) requests)) = Some []"
  by (induction requests) (simp_all add: open_calls_append legacy_pair_closed)

lemma legacy_pair_no_orphans: "orphan_free ids (legacy_pair mid dumps turn results request)"
  by (auto simp: legacy_pair_def split: prod.split option.split)

lemma legacy_pairs_no_orphans: "orphan_free ids (concat (map (legacy_pair mid dumps turn results) requests))"
  by (induction requests arbitrary: ids) (simp_all add: legacy_pair_no_orphans)

lemma legacy_messages_closed: "all_answered (legacy_messages mid dumps entry) \<and> no_orphans (legacy_messages mid dumps entry)"
  by (auto simp: legacy_messages_def all_answered_def no_orphans_def legacy_pairs_closed legacy_pairs_no_orphans split: prod.split)

definition requests_call :: "activity \<Rightarrow> ToolCall \<Rightarrow> bool" where
  "requests_call e c \<longleftrightarrow>
     ac_call e = Some (call_id c) \<and> ac_tool e = Some (call_name c) \<and>
     (ac_type e = ''ToolRequested'' \<and> ac_arguments e = Some (call_arguments c) \<or>
      ac_type e = ''tool.requested'' \<and> ac_full_arguments e = Some (call_arguments c))"

lemma set_dict_set: "set (dict_set k v d) \<subseteq> insert (k, v) (set d)"
  by (induction d) (auto split: if_splits)

lemma group_events_from:
  assumes "(t, es') \<in> set (group_events answered es current grouped)"
    and "\<And>t es'. (t, es') \<in> set grouped \<Longrightarrow> Some t \<notin> set answered \<and> set es' \<subseteq> A"
  shows "Some t \<notin> set answered \<and> set es' \<subseteq> A \<union> set es"
  using assms
proof (induction es arbitrary: current grouped A)
  case (Cons e es)
  let ?current = "if ac_type e = ''turn.started'' then ac_turn e else current"
  let ?grouped = "case ?current of
      Some t \<Rightarrow> if t \<noteq> [] \<and> ?current \<notin> set answered
                 then dict_set t ((case dict_get grouped t of Some xs \<Rightarrow> xs | None \<Rightarrow> []) @ [e]) grouped else grouped
    | None \<Rightarrow> grouped"
  have "Some t \<notin> set answered \<and> set es' \<subseteq> insert e A" if "(t, es') \<in> set ?grouped" for t es'
  proof (cases "(t, es') \<in> set grouped")
    case True
    with Cons.prems(2) show ?thesis by blast
  next
    case False
    then have "Some t \<notin> set answered" "es' = (case dict_get grouped t of Some xs \<Rightarrow> xs | None \<Rightarrow> []) @ [e]"
      using that set_dict_set by (fastforce split: option.splits if_splits)+
    moreover have "dict_get grouped t = Some xs \<Longrightarrow> set xs \<subseteq> A" for xs
      using Cons.prems(2) dict_get_Some_in by fast
    ultimately show ?thesis by (cases "dict_get grouped t") auto
  qed
  from Cons.IH [OF _ this] Cons.prems(1) show ?case by (simp add: Let_def)
qed simp

lemma note_request_from:
  assumes "(c, nm, args) \<in> set (fold note_request es requests)"
  shows "(c, nm, args) \<in> set requests \<or>
    (\<exists>e \<in> set es. ac_call e = Some c \<and> ac_tool e = nm \<and>
       (ac_type e = ''ToolRequested'' \<and> ac_arguments e = Some args \<or>
        ac_type e = ''tool.requested'' \<and> ac_full_arguments e = Some args))"
  using assms
proof (induction es arbitrary: requests)
  case (Cons e es)
  have "x \<in> set (note_request e requests) \<Longrightarrow> x \<in> set requests \<or>
      (\<exists>c nm args. x = (c, nm, args) \<and> ac_call e = Some c \<and> ac_tool e = nm \<and>
       (ac_type e = ''ToolRequested'' \<and> ac_arguments e = Some args \<or>
        ac_type e = ''tool.requested'' \<and> ac_full_arguments e = Some args))" for x
    using set_dict_set by (fastforce simp: note_request_def setdefault_def split: option.splits if_splits)
  from this [of "(c, nm, args)"] Cons.IH [of "note_request e requests"] Cons.prems show ?case by auto
qed simp

text \<open>
  C0. Nothing is inferred for a turn of before messages were durable: what is recovered are closed pairs of a
  call and its result, only for a turn without any assistant message that failed or was cancelled, and
  each call is one the event log recorded as requested, with its arguments.
\<close>

theorem legacy_turns_replay_nothing:
  assumes "(t, ms) \<in> set (recover_legacy_turns mid dumps loads records rows)"
  shows "all_answered ms \<and> no_orphans ms \<and>
    list_all (\<lambda>r. sm_turn r \<noteq> Some t \<or> sm_role r \<noteq> ROLE_ASSISTANT) records \<and>
    list_ex (\<lambda>e. ac_type e = ''turn.failed'' \<or> ac_type e = ''turn.cancelled'') (activities loads rows) \<and>
    list_all (\<lambda>m. list_all (\<lambda>c. list_ex (\<lambda>e. requests_call e c) (activities loads rows)) (cm_calls m)) ms"
proof -
  let ?answered = "map sm_turn (filter (\<lambda>r. sm_role r = ROLE_ASSISTANT) records)"
  obtain es where es: "(t, es) \<in> set (group_events ?answered (activities loads rows) None [])"
    and ms: "ms = legacy_messages mid dumps (t, es)" "ms \<noteq> []"
    using assms by (auto simp: recover_legacy_turns_def Let_def)
  have from_log: "Some t \<notin> set ?answered" "set es \<subseteq> set (activities loads rows)"
    using group_events_from [OF es, of "{}"] by auto
  have "list_ex (\<lambda>e. requests_call e c) (activities loads rows)" if m: "m \<in> set ms" and c: "c \<in> set (cm_calls m)" for m c
  proof -
    obtain request where request: "request \<in> set (fold note_request es [])"
      and "m \<in> set (legacy_pair mid dumps t (fold note_end es []) request)"
      using m ms by (auto simp: legacy_messages_def split: if_splits)
    then have "request = (call_id c, Some (call_name c), call_arguments c)"
      using c legacy_pair_calls by metis
    with request note_request_from [of "call_id c" "Some (call_name c)" "call_arguments c" es "[]"] from_log(2)
    show ?thesis by (auto simp: requests_call_def list_ex_iff)
  qed
  moreover have "list_all (\<lambda>r. sm_turn r \<noteq> Some t \<or> sm_role r \<noteq> ROLE_ASSISTANT) records"
    using from_log(1) by (force simp: list_all_iff)
  moreover have "list_ex (\<lambda>e. ac_type e = ''turn.failed'' \<or> ac_type e = ''turn.cancelled'') (activities loads rows)"
    using ms from_log(2) by (auto simp: list_ex_iff legacy_messages_def split: if_splits)
  ultimately show ?thesis
    using ms legacy_messages_closed [of mid dumps "(t, es)"] by (simp add: list_all_iff)
qed

theorem legacy_turns_witness:
  "let loads = (\<lambda>s. Some (JObj [(''turn_id'', JStr ''t''), (''tool_call_id'', JStr ''c''), (''tool'', JStr ''fs.read''),
                  (''arguments'', JObj [])]));
       rows = map (\<lambda>k. (k, '''')) [''turn.started'', ''ToolRequested'', ''turn.failed''];
       ms = snd (hd (recover_legacy_turns (\<lambda>s. s) (\<lambda>j. ''evidence'') loads [] rows))
   in map cm_id ms = [''tcrequest'', ''tcresult''] \<and> all_answered ms"
proof -
  let ?loads = "\<lambda>s. Some (JObj [(''turn_id'', JStr ''t''), (''tool_call_id'', JStr ''c''), (''tool'', JStr ''fs.read''),
                  (''arguments'', JObj [])])"
  let ?rows = "map (\<lambda>k. (k, '''')) [''turn.started'', ''ToolRequested'', ''turn.failed'']"
  let ?r = "recover_legacy_turns (\<lambda>s. s) (\<lambda>j. ''evidence'') ?loads [] ?rows"
  have ids: "map (\<lambda>e. (fst e, map cm_id (snd e))) ?r = [(''t'', [''tcrequest'', ''tcresult''])]" by code_simp
  then obtain ms where r: "?r = [(''t'', ms)]" "map cm_id ms = [''tcrequest'', ''tcresult'']" by (auto simp: map_eq_Cons_conv)
  with legacy_turns_replay_nothing [of "''t''" ms "\<lambda>s. s" "\<lambda>j. ''evidence''" ?loads "[]" ?rows]
  show ?thesis by (simp add: Let_def)
qed

end
