(* ===== verification/Context_Window.thy ===== *)
theory Context_Window
  imports Conversation Pattern
begin

text \<open>
  What of a conversation a model request carries (\<^verbatim>\<open>src/src/rinari/context/\<close>): the estimate of its size
  (\<open>tokens.py\<close>, \<open>accounting.py\<close>), the tail a compaction keeps (\<open>engine.py\<close>, \<open>projection.py\<close>), old tool
  results settled into notes (\<open>settle.py\<close>) and the state a compaction carries on (\<open>compact_state.py\<close>).

  Token counts are natural numbers, budgets integers (a target may be below what the prompt takes),
  shares of the window exact rationals. The record \<open>codec\<close> holds the two forms of \<open>json.dumps\<close> the
  estimate measures (escaped and not).
\<close>

section \<open>Estimated size\<close>

record codec =
  dumps_ascii :: "json \<Rightarrow> string"
  dumps_plain :: "json \<Rightarrow> string"

definition CHARS_PER_TOKEN :: nat where "CHARS_PER_TOKEN = 4"

definition text_length :: "string option \<Rightarrow> nat" where
  "text_length v = (case v of Some s \<Rightarrow> length s | None \<Rightarrow> 0)"

definition estimate_message_tokens :: "codec \<Rightarrow> ChatMessage \<Rightarrow> nat" where
  "estimate_message_tokens cd m =
     (let t1 = text_length (cm_content m);
          t2 = (case cm_continuation m of
                  Some j \<Rightarrow> if truthy j then max t1 (length (dumps_plain cd j)) else t1
                | None \<Rightarrow> t1);
          t3 = (if cm_calls m = [] then t2
                else t2 + 16 + length (dumps_ascii cd (JList (map (JStr \<circ> call_name) (cm_calls m)))) +
                     sum_list (map (\<lambda>c. 8 + length (dumps_ascii cd (JObj (call_arguments c)))) (cm_calls m)));
          t4 = t3 + (if text_length (cm_name m) = 0 then 4 else text_length (cm_name m));
          t5 = t4 + text_length (cm_call_id m)
      in max 1 (t5 div CHARS_PER_TOKEN) + 2)"

record tool_schema =
  ts_name :: string
  ts_description :: string
  ts_parameters :: json

definition estimate_tokens :: "codec \<Rightarrow> string \<Rightarrow> ChatMessage list \<Rightarrow> tool_schema list \<Rightarrow> nat" where
  "estimate_tokens cd system_prompt history tools =
     length system_prompt div CHARS_PER_TOKEN + 2 + sum_list (map (estimate_message_tokens cd) history) +
     (if tools = [] then 0
      else sum_list (map (\<lambda>t. length (dumps_ascii cd (JObj [(''name'', JStr (ts_name t)),
             (''description'', JStr (ts_description t)), (''parameters'', ts_parameters t)]))) tools) div CHARS_PER_TOKEN)"

definition DEFAULT_CONTEXT_WINDOW :: int where "DEFAULT_CONTEXT_WINDOW = 128000"

definition resolve_context_window :: "int option \<Rightarrow> int" where
  "resolve_context_window w = (case w of Some n \<Rightarrow> if 0 < n then n else DEFAULT_CONTEXT_WINDOW | None \<Rightarrow> DEFAULT_CONTEXT_WINDOW)"

definition pressure :: "int \<Rightarrow> int option \<Rightarrow> rat option" where
  "pressure used w =
     (case w of Some n \<Rightarrow> if n \<le> 0 then None else Some (min 1 (of_int used / of_int n)) | None \<Rightarrow> None)"

record usage_anchor =
  an_model :: string
  an_actual :: int
  an_estimated :: int

text \<open>\<open>measure\<close>: an anchor whose numbers are not integers counts as none.\<close>

definition measure_request :: "nat \<Rightarrow> usage_anchor option \<Rightarrow> string \<Rightarrow> int \<times> string" where
  "measure_request estimated anchor model_ref =
     (case anchor of
        Some a \<Rightarrow> if an_model a = model_ref
                  then (max (int estimated) (an_actual a + int estimated - an_estimated a), ''provider_anchored_estimate'')
                  else (int estimated, ''estimated'')
      | None \<Rightarrow> (int estimated, ''estimated''))"

definition compact_points :: "int \<Rightarrow> rat \<Rightarrow> int \<times> int" where
  "compact_points usable percent =
     (let threshold = percent / 100; trunc = (\<lambda>x :: rat. if 0 \<le> x then \<lfloor>x\<rfloor> else \<lceil>x\<rceil>)
      in (trunc (of_int usable * threshold), trunc (of_int usable * min (60 / 100) (threshold * (75 / 100)))))"

section \<open>The tail a compaction keeps\<close>

datatype context_error = DoesNotFit

definition last_place :: "('a \<Rightarrow> bool) \<Rightarrow> 'a list \<Rightarrow> nat" where
  "last_place p xs = (let places = filter (\<lambda>i. p (xs ! i)) [0..<length xs] in if places = [] then 0 else last places)"

definition cost_from :: "codec \<Rightarrow> ChatMessage list \<Rightarrow> nat \<Rightarrow> nat" where
  "cost_from cd history place = sum_list (map (estimate_message_tokens cd) (drop place history))"

definition tail_cost :: "codec \<Rightarrow> ChatMessage list \<Rightarrow> nat \<Rightarrow> nat" where
  "tail_cost cd history place =
     (let last_user = last_place (\<lambda>m. cm_role m = ROLE_USER) history in
      cost_from cd history place + (if last_user < place then estimate_message_tokens cd (history ! last_user) else 0))"

definition select_tail :: "codec \<Rightarrow> ChatMessage list \<Rightarrow> int \<Rightarrow> context_error + nat \<times> ChatMessage list" where
  "select_tail cd history budget =
     (if history = [] then Inr (0, [])
      else
        (let last_user = last_place (\<lambda>m. cm_role m = ROLE_USER) history in
         case find_first (\<lambda>place. cm_role (history ! place) \<noteq> ROLE_TOOL \<and> int (tail_cost cd history place) \<le> budget)
                [0..<length history] of
           None \<Rightarrow> Inl DoesNotFit
         | Some place \<Rightarrow> Inr (place, (if last_user < place then [history ! last_user] else []) @ drop place history)))"

definition owner_message :: "ChatMessage \<Rightarrow> bool" where
  "owner_message m =
     (cm_role m = ROLE_USER \<and>
      (case cm_origin m of
         None \<Rightarrow> True
       | Some d \<Rightarrow> if d = [] then True else (case dict_get d ''kind'' of None \<Rightarrow> True | Some k \<Rightarrow> k = JStr ''user'')))"

definition latest_exchange :: "ChatMessage list \<Rightarrow> nat \<times> ChatMessage list" where
  "latest_exchange history = (let place = last_place owner_message history in (place, drop place history))"

text \<open>\<open>project\<close>: the messages a stored summary does not cover.\<close>

definition project_history :: "string list option \<Rightarrow> ChatMessage list \<Rightarrow> ChatMessage list" where
  "project_history covered history =
     (case covered of None \<Rightarrow> history | Some ids \<Rightarrow> filter (\<lambda>m. cm_id m \<notin> set ids) history)"

fun skip_results :: "ChatMessage list \<Rightarrow> nat \<Rightarrow> nat" where
  "skip_results [] i = i"
| "skip_results (m # ms) i = (if cm_role m = ROLE_TOOL then skip_results ms (Suc i) else i)"

definition safe_cut :: "ChatMessage list \<Rightarrow> nat \<Rightarrow> nat" where
  "safe_cut history i = (if i = 0 then 0 else min (skip_results (drop i history) i) (length history))"

definition select_history :: "codec \<Rightarrow> nat \<Rightarrow> int \<Rightarrow> ChatMessage list \<Rightarrow> ChatMessage list" where
  "select_history cd min_keep budget history =
     (let n = length history in
      if n = 0 then []
      else if int (cost_from cd history 0) \<le> budget then history
      else
        (case find_first (\<lambda>i. int (cost_from cd history i) \<le> budget) [0..<Suc (n - min_keep)] of
           None \<Rightarrow> drop (n - 1) history
         | Some i \<Rightarrow> (let place = safe_cut history i in drop (if n \<le> place then n - 1 else place) history)))"

section \<open>Cuts between blocks\<close>

text \<open>A block of results after its message is never cut: what starts place another message stands alone.\<close>

lemma all_answered_suffix:
  assumes "all_answered (xs @ ys)" and "ys = [] \<or> cm_role (hd ys) \<noteq> ROLE_TOOL"
  shows "all_answered ys"
  using assms by (cases ys) (auto simp: all_answered_def open_calls_append bind_eq_Some_conv split: if_splits)

lemma no_orphans_suffix:
  assumes "no_orphans (xs @ ys)" and "ys = [] \<or> cm_role (hd ys) \<noteq> ROLE_TOOL"
  shows "no_orphans ys"
  using assms by (cases ys) (auto simp: no_orphans_def)

lemma all_answered_Cons: "cm_role m \<noteq> ROLE_TOOL \<Longrightarrow> cm_calls m = [] \<Longrightarrow> all_answered (m # ms) \<longleftrightarrow> all_answered ms"
  by (simp add: all_answered_def)

lemma no_orphans_Cons: "cm_role m \<noteq> ROLE_TOOL \<Longrightarrow> no_orphans ms \<Longrightarrow> ms \<noteq> [] \<Longrightarrow> cm_role (hd ms) \<noteq> ROLE_TOOL \<Longrightarrow> no_orphans (m # ms)"
  by (cases ms) (simp_all add: no_orphans_def)

lemma find_first_upt:
  assumes "find_first p [0..<n] = Some i"
  shows "i < n \<and> p i \<and> (\<forall>j < i. \<not> p j)"
  using assms
proof (induction n)
  case (Suc n)
  then show ?case
    by (auto simp: find_first_append find_first_None split: option.splits if_splits)
qed simp

lemma last_place_holds:
  assumes "list_ex p xs"
  shows "p (xs ! last_place p xs) \<and> last_place p xs < length xs"
proof -
  let ?places = "filter (\<lambda>i. p (xs ! i)) [0..<length xs]"
  have some: "?places \<noteq> []" using assms by (auto simp: list_ex_length filter_empty_conv)
  then have "last ?places \<in> set ?places" by (rule last_in_set)
  with some show ?thesis by (simp add: last_place_def Let_def)
qed

definition well_formed_history :: "ChatMessage list \<Rightarrow> bool" where
  "well_formed_history ms \<longleftrightarrow>
     all_answered ms \<and> no_orphans ms \<and> list_all (\<lambda>m. if cm_role m = ROLE_USER then cm_calls m = [] else True) ms"

lemma well_formed_suffix:
  assumes "well_formed_history (xs @ ys)" and "ys = [] \<or> cm_role (hd ys) \<noteq> ROLE_TOOL"
  shows "well_formed_history ys"
  using assms all_answered_suffix no_orphans_suffix by (auto simp: well_formed_history_def)

lemma well_formed_user:
  assumes "well_formed_history ys" and "cm_role m = ROLE_USER" and "cm_calls m = []" and "ys = [] \<or> cm_role (hd ys) \<noteq> ROLE_TOOL"
  shows "well_formed_history (m # ys)"
  using assms by (cases ys) (auto simp: well_formed_history_def all_answered_Cons no_orphans_def)


definition sample_codec :: codec where
  "sample_codec = \<lparr>dumps_ascii = (\<lambda>j. []), dumps_plain = (\<lambda>j. [])\<rparr>"

definition sample_tool_call :: ToolCall where
  "sample_tool_call = \<lparr>call_id = ''c'', call_name = ''t'', call_arguments = []\<rparr>"

text \<open>A question, a call with its result, and an answer; the results are long or short.\<close>

definition sample_exchange :: "nat \<Rightarrow> ChatMessage list" where
  "sample_exchange n =
     [plain_message ''1'' ROLE_USER ''do it'', asking ''2'' '''' [sample_tool_call],
      tool_result ''3'' ''c'' ''t'' (replicate n CHR ''x''), plain_message ''4'' ROLE_ASSISTANT ''done'']"


text \<open>
  The older cut of \<open>engine.py\<close> says that it never orphans a block of results; where even the last
  messages are over the budget it keeps the last one, which may be a result without its call.
\<close>

theorem last_result_alone_is_orphaned:
  "well_formed_history (take 3 (sample_exchange 80)) \<and>
   select_history sample_codec 1 5 (take 3 (sample_exchange 80)) = drop 2 (take 3 (sample_exchange 80)) \<and>
   \<not> no_orphans (select_history sample_codec 1 5 (take 3 (sample_exchange 80)))"
  by code_simp

section \<open>Old results settled into notes\<close>

definition KEEP_ROUNDS :: nat where "KEEP_ROUNDS = 8"
definition BLOCK_ROUNDS :: nat where "BLOCK_ROUNDS = 8"
definition MIN_CHARS :: nat where "MIN_CHARS = 1200"
definition SETTLE_AT :: rat where "SETTLE_AT = 60 / 100"
definition SETTLE_TO :: rat where "SETTLE_TO = 35 / 100"

definition rx_reference :: rx where
  "rx_reference = Seq (lit ''artifact://'') (plus_rx (Cls (Outside (Either SpaceC (Chars [CHR 0x22, CHR 0x27, CHR 0x60, CHR '')'', CHR '']'', CHR ''}''])))))"

definition settled_note :: "ChatMessage \<Rightarrow> string" where
  "settled_note m =
     (let body = (case cm_content m of Some s \<Rightarrow> s | None \<Rightarrow> []);
          nm = (case cm_name m of Some s \<Rightarrow> if s = [] then ''a tool'' else s | None \<Rightarrow> ''a tool'');
          references = take 3 (rev (remdups (rev (map fst (rx_finditer rx_reference body)))));
          note = ''[Earlier result of '' @ nm @ '' ('' @ nat_to_string (length body) @ '' characters) left out '' @
            ''of this request to save context; you already acted on it. Run the tool again '' @
            ''if you need its exact content.''
      in (if references = [] then note
          else note @ '' Full output: '' @ join '', '' references @ '' (artifact.read).'') @ '']'')"

definition long_result :: "nat \<Rightarrow> ChatMessage \<Rightarrow> bool" where
  "long_result min_chars m \<longleftrightarrow> cm_role m = ROLE_TOOL \<and> min_chars \<le> text_length (cm_content m)"

definition settle_message :: "nat \<Rightarrow> ChatMessage \<Rightarrow> ChatMessage" where
  "settle_message min_chars m = (if long_result min_chars m then m\<lparr>cm_content := Some (settled_note m)\<rparr> else m)"

definition rounds_of :: "ChatMessage list \<Rightarrow> nat list" where
  "rounds_of history = filter (\<lambda>i. cm_role (history ! i) = ROLE_ASSISTANT \<and> cm_calls (history ! i) \<noteq> []) [0..<length history]"

definition settled_boundary :: "nat \<Rightarrow> nat \<Rightarrow> ChatMessage list \<Rightarrow> nat" where
  "settled_boundary keep_rounds block_rounds history =
     (let rounds = rounds_of history; settled = (length rounds - keep_rounds) div block_rounds * block_rounds
      in if settled = 0 then 0 else rounds ! settled)"

text \<open>\<open>settle_old_observations\<close> with the boundary given; without one the fixed blocks of rounds apply.\<close>

definition settle_old_observations :: "nat \<Rightarrow> nat option \<Rightarrow> ChatMessage list \<Rightarrow> ChatMessage list" where
  "settle_old_observations min_chars upto_round history =
     (let b = (case upto_round of Some b \<Rightarrow> b | None \<Rightarrow> settled_boundary KEEP_ROUNDS BLOCK_ROUNDS history)
      in map (settle_message min_chars) (take b history) @ drop b history)"

definition kept_intact :: "ChatMessage \<Rightarrow> nat \<Rightarrow> nat \<Rightarrow> nat \<Rightarrow> bool" where
  "kept_intact m i upto_round min_chars =
     (upto_round \<le> i \<or> cm_role m \<noteq> ROLE_TOOL \<or> text_length (cm_content m) < min_chars)"

record SettleState =
  boundary_at :: nat
  anchor_id :: "string option"
  by_pressure :: bool

definition new_settle :: SettleState where
  "new_settle = \<lparr>boundary_at = 0, anchor_id = None, by_pressure = False\<rparr>"

definition settle_current :: "ChatMessage list \<Rightarrow> SettleState \<Rightarrow> nat \<times> SettleState" where
  "settle_current history st =
     (let b = boundary_at st in
      if b = 0 then (0, st)
      else if length history < b \<or> Some (cm_id (history ! (b - 1))) \<noteq> anchor_id st
      then (0, st\<lparr>boundary_at := 0, anchor_id := None\<rparr>)
      else (b, st))"

definition settle_move :: "nat \<Rightarrow> ChatMessage list \<Rightarrow> SettleState \<Rightarrow> SettleState" where
  "settle_move b history st =
     st\<lparr>boundary_at := b, anchor_id := (if b = 0 then None else Some (cm_id (history ! (b - 1))))\<rparr>"

definition settle_to_json :: "SettleState \<Rightarrow> json" where
  "settle_to_json st =
     JObj [(''boundary'', JInt (int (boundary_at st))),
           (''anchor'', case anchor_id st of Some s \<Rightarrow> JStr s | None \<Rightarrow> JNull)]"

text \<open>\<open>True\<close> is an \<open>int\<close> too, and stands for one.\<close>

definition settle_from_json :: "json \<Rightarrow> SettleState" where
  "settle_from_json data =
     (case data of
        JObj d \<Rightarrow>
          (case (obj_get d ''boundary'', obj_get d ''anchor'') of
             (JInt b, JStr s) \<Rightarrow> if 0 < b then new_settle\<lparr>boundary_at := nat b, anchor_id := Some s\<rparr> else new_settle
           | (JBool True, JStr s) \<Rightarrow> new_settle\<lparr>boundary_at := 1, anchor_id := Some s\<rparr>
           | _ \<Rightarrow> new_settle)
      | _ \<Rightarrow> new_settle)"

text \<open>The size of a request whose messages before a place are settled.\<close>

definition request_tokens :: "codec \<Rightarrow> nat \<Rightarrow> nat \<Rightarrow> ChatMessage list \<Rightarrow> nat \<Rightarrow> int" where
  "request_tokens cd min_chars fixed history b =
     int fixed + int (sum_list (map (estimate_message_tokens cd \<circ> settle_message min_chars) (take b history))) +
     int (sum_list (map (estimate_message_tokens cd) (drop b history)))"

definition between_sizes :: "codec \<Rightarrow> nat \<Rightarrow> ChatMessage list \<Rightarrow> nat \<Rightarrow> nat \<Rightarrow> int" where
  "between_sizes cd min_chars history i j =
     int (sum_list (map (estimate_message_tokens cd) (take (j - i) (drop i history)))) -
     int (sum_list (map (estimate_message_tokens cd \<circ> settle_message min_chars) (take (j - i) (drop i history))))"

fun settle_loop :: "(nat \<Rightarrow> nat \<Rightarrow> int) \<Rightarrow> rat \<Rightarrow> nat list \<Rightarrow> nat \<Rightarrow> int \<Rightarrow> nat" where
  "settle_loop saved goal [] moved used = moved"
| "settle_loop saved goal (c # cs) moved used =
     (if c \<le> moved then settle_loop saved goal cs moved used
      else
        (let used' = used - saved moved c in
         if of_int used' \<le> goal then c else settle_loop saved goal cs c used'))"

definition plan_boundary ::
  "codec \<Rightarrow> int option \<Rightarrow> nat \<Rightarrow> nat \<Rightarrow> nat \<Rightarrow> rat \<Rightarrow> rat \<Rightarrow> ChatMessage list \<Rightarrow> SettleState \<Rightarrow> nat \<times> SettleState" where
  "plan_boundary cd window fixed keep_rounds min_chars settle_at settle_to history st =
     (case window of
        None \<Rightarrow> (settled_boundary keep_rounds BLOCK_ROUNDS history, st\<lparr>by_pressure := False\<rparr>)
      | Some w \<Rightarrow>
          if w \<le> 0 then (settled_boundary keep_rounds BLOCK_ROUNDS history, st\<lparr>by_pressure := False\<rparr>)
          else
            (let (b, st1) = settle_current history (st\<lparr>by_pressure := True\<rparr>);
                 used = request_tokens cd min_chars fixed history b
             in
             if of_int used < settle_at * of_int w then (b, st1)
             else
               (let rounds = rounds_of history; movable = take (length rounds - keep_rounds) rounds;
                    moved = settle_loop (between_sizes cd min_chars history) (settle_to * of_int w) movable b used
                in (moved, if moved \<noteq> b then settle_move moved history st1 else st1))))"

lemma rounds_of_sorted: "sorted (rounds_of history)" "distinct (rounds_of history)"
  unfolding rounds_of_def by (simp_all add: sorted_wrt_filter)

lemma rounds_of_less: "i \<in> set (rounds_of history) \<Longrightarrow> i < length history"
  by (simp add: rounds_of_def)

lemma request_tokens_move:
  assumes "i \<le> j" and "j \<le> length history"
  shows "request_tokens cd min_chars fixed history j = request_tokens cd min_chars fixed history i - between_sizes cd min_chars history i j"
proof -
  let ?mid = "take (j - i) (drop i history)"
  have "take j history = take i history @ ?mid" using assms by (metis le_add_diff_inverse take_add)
  moreover have "drop i history = ?mid @ drop j history"
    using assms by (metis append_take_drop_id drop_drop le_add_diff_inverse2)
  then have "sum_list (map f (drop i history)) = sum_list (map f ?mid) + sum_list (map f (drop j history))" for f :: "ChatMessage \<Rightarrow> nat"
    by (metis map_append sum_list_append)
  ultimately show ?thesis by (simp add: request_tokens_def between_sizes_def)
qed

text \<open>The boundary moves to the first round that brings the request down to the goal, or to the last one.\<close>

lemma settle_loop_first:
  assumes "moved' = settle_loop (between_sizes cd min_chars history) goal cs moved (request_tokens cd min_chars fixed history moved)"
    and "sorted cs" and "\<forall>c \<in> set cs. c \<le> length history"
  shows "(moved' = moved \<and> (\<forall>c \<in> set cs. c \<le> moved)) \<or>
    (moved' \<in> set cs \<and> moved < moved' \<and>
     (\<forall>c \<in> set cs. moved < c \<and> c < moved' \<longrightarrow> goal < of_int (request_tokens cd min_chars fixed history c)) \<and>
     (of_int (request_tokens cd min_chars fixed history moved') \<le> goal \<or> (\<forall>c \<in> set cs. c \<le> moved')))"
  using assms
proof (induction cs arbitrary: moved)
  case (Cons c cs)
  show ?case
  proof (cases "c \<le> moved")
    case True
    with Cons.prems(1) have "moved' = settle_loop (between_sizes cd min_chars history) goal cs moved (request_tokens cd min_chars fixed history moved)"
      by simp
    from Cons.IH [OF this] Cons.prems(2,3) True show ?thesis by auto
  next
    case False
    then have used: "request_tokens cd min_chars fixed history c =
        request_tokens cd min_chars fixed history moved - between_sizes cd min_chars history moved c"
      using request_tokens_move Cons.prems(3) by simp
    show ?thesis
    proof (cases "of_int (request_tokens cd min_chars fixed history c) \<le> goal")
      case True
      with False Cons.prems used show ?thesis by (auto simp: Let_def)
    next
      case over: False
      with False Cons.prems used
      have "moved' = settle_loop (between_sizes cd min_chars history) goal cs c (request_tokens cd min_chars fixed history c)"
        by (simp add: Let_def)
      moreover have later: "x = c \<or> c < x" if "x \<in> set cs" for x using Cons.prems(2) that by fastforce
      ultimately show ?thesis
        using Cons.IH [of c] Cons.prems(2,3) over False by (auto simp: not_le)
    qed
  qed
qed simp

text \<open>Settling changes the text of results and nothing else.\<close>

lemma settle_message_fields [simp]:
  "cm_role (settle_message n m) = cm_role m" "cm_calls (settle_message n m) = cm_calls m"
  "cm_call_id (settle_message n m) = cm_call_id m" "cm_id (settle_message n m) = cm_id m"
  by (simp_all add: settle_message_def)

lemma settled_nth:
  assumes "i < length history"
  shows "settle_old_observations min_chars (Some b) history ! i = (if i < b then settle_message min_chars (history ! i) else history ! i)"
  using assms by (auto simp: settle_old_observations_def nth_append min_def)

lemma settled_length [simp]: "length (settle_old_observations min_chars b history) = length history"
  by (simp add: settle_old_observations_def Let_def)

lemma open_calls_settle [simp]: "open_calls ids (map (settle_message n) xs) = open_calls ids xs"
  by (induction ids xs rule: open_calls.induct) simp_all

lemma block_calls_settle [simp]: "block_calls ids (map (settle_message n) xs) = block_calls ids xs"
  by (induction ids xs rule: block_calls.induct) simp_all

lemma orphan_free_settle [simp]: "orphan_free ids (map (settle_message n) xs) = orphan_free ids xs"
  by (induction ids xs rule: orphan_free.induct) simp_all

lemma settled_well_formed: "well_formed_history (settle_old_observations n b history) = well_formed_history history"
proof -
  obtain p where p: "settle_old_observations n b history = map (settle_message n) (take p history) @ drop p history"
    by (simp add: settle_old_observations_def Let_def)
  have split: "history = take p history @ drop p history" by simp
  show ?thesis
    unfolding p by (subst (3) split)
      (simp add: well_formed_history_def all_answered_def no_orphans_def open_calls_append list.pred_map o_def del: append_take_drop_id)
qed

text \<open>
  C14. Settling old results keeps the conversation: the request has the same messages in the same places,
  those \<open>kept_intact\<close> answers for are unchanged (what the read cache relies on), every other one keeps its
  role, identifier and calls, and it is well formed exactly when the history is.
\<close>

theorem settling_keeps_the_conversation:
  fixes history :: "ChatMessage list"
  defines "settled \<equiv> \<lambda>n b. settle_old_observations n (Some b) history"
  shows "length (settled n b) = length history \<and> map cm_id (settled n b) = map cm_id history \<and>
    well_formed_history (settled n b) = well_formed_history history \<and>
    list_all (\<lambda>i. if kept_intact (history ! i) i b n then settled n b ! i = history ! i
                  else settled n b ! i = (history ! i)\<lparr>cm_content := Some (settled_note (history ! i))\<rparr>) [0..<length history]"
proof -
  have "map cm_id (settled n b) = map cm_id history"
    by (simp add: settled_def list_eq_iff_nth_eq settled_nth)
  moreover have "list_all (\<lambda>i. if kept_intact (history ! i) i b n then settled n b ! i = history ! i
      else settled n b ! i = (history ! i)\<lparr>cm_content := Some (settled_note (history ! i))\<rparr>) [0..<length history]"
    by (auto simp: settled_def list_all_iff settled_nth kept_intact_def settle_message_def long_result_def)
  ultimately show ?thesis by (simp add: settled_def settled_well_formed)
qed

lemma settle_current_bounds:
  "settle_current history st = (b, st') \<Longrightarrow> b \<le> length history \<and> (b = 0 \<or> st' = st \<and> boundary_at st = b \<and> anchor_id st = Some (cm_id (history ! (b - 1))))"
  by (auto simp: settle_current_def Let_def split: if_splits)

lemma take_rounds_after:
  assumes "b \<in> set (take (length (rounds_of history) - k) (rounds_of history))"
  shows "k < length (filter (\<lambda>i. b \<le> i) (rounds_of history))"
proof -
  let ?r = "rounds_of history"
  obtain n where n: "n < length ?r - k" "?r ! n = b" using assms by (auto simp: in_set_conv_nth)
  have "list_all (\<lambda>i. b \<le> i) (drop n ?r)"
    using n rounds_of_sorted(1) [of history] by (auto simp: list_all_length sorted_nth_mono)
  then have "filter (\<lambda>i. b \<le> i) (drop n ?r) = drop n ?r" by (simp add: list_all_iff filter_id_conv)
  moreover have "length (filter (\<lambda>i. b \<le> i) ?r) = length (filter (\<lambda>i. b \<le> i) (take n ?r)) + length (filter (\<lambda>i. b \<le> i) (drop n ?r))"
    by (metis append_take_drop_id filter_append length_append)
  ultimately show ?thesis using n(1) by simp
qed

abbreviation movable_rounds :: "nat \<Rightarrow> ChatMessage list \<Rightarrow> nat list" where
  "movable_rounds keep_rounds history \<equiv> take (length (rounds_of history) - keep_rounds) (rounds_of history)"

lemma movable_rounds_props:
  "sorted (movable_rounds k history)" "set (movable_rounds k history) \<subseteq> set (rounds_of history)"
  "\<forall>c \<in> set (movable_rounds k history). c \<le> length history"
proof -
  show "sorted (movable_rounds k history)" using rounds_of_sorted(1) by (rule sorted_wrt_take)
  show "set (movable_rounds k history) \<subseteq> set (rounds_of history)" by (rule set_take_subset)
  then show "\<forall>c \<in> set (movable_rounds k history). c \<le> length history" using rounds_of_less by (fastforce intro: less_imp_le)
qed

lemma movable_rounds_early:
  assumes "c \<in> set (rounds_of history)" and "c < b" and "b \<in> set (movable_rounds k history)"
  shows "c \<in> set (movable_rounds k history)"
proof -
  obtain i j where i: "i < length (rounds_of history)" "rounds_of history ! i = c"
    and j: "j < length (rounds_of history) - k" "rounds_of history ! j = b"
    using assms by (auto simp: in_set_conv_nth)
  have "i < j"
  proof (rule ccontr)
    assume "\<not> i < j"
    then have "b \<le> c" using i j sorted_nth_mono [OF rounds_of_sorted(1) [of history], of j i] by simp
    with assms(2) show False by simp
  qed
  with i j have "i < length (movable_rounds k history)" "movable_rounds k history ! i = c" by simp_all
  then show ?thesis by (metis nth_mem)
qed

text \<open>One plan: the boundary stays, or it moves to a round the pressure asks for.\<close>

definition settle_target :: "codec \<Rightarrow> nat \<Rightarrow> nat \<Rightarrow> nat \<Rightarrow> rat \<Rightarrow> ChatMessage list \<Rightarrow> nat \<Rightarrow> nat \<Rightarrow> bool" where
  "settle_target cd fixed keep_rounds min_chars target history b0 b \<longleftrightarrow>
     b0 < b \<and> b \<in> set (movable_rounds keep_rounds history) \<and>
     list_all (\<lambda>c. c \<le> b0 \<or> b \<le> c \<or> target < of_int (request_tokens cd min_chars fixed history c)) (rounds_of history) \<and>
     (of_int (request_tokens cd min_chars fixed history b) \<le> target \<or> list_all (\<lambda>c. c \<le> b) (movable_rounds keep_rounds history))"

lemma plan_cases:
  assumes "plan_boundary cd (Some w) fixed keep_rounds min_chars lo goal history st = (b, st')" and "0 < w"
    and "settle_current history (st\<lparr>by_pressure := True\<rparr>) = (b0, st1)"
  shows "b = b0 \<and> st' = st1 \<and>
      (of_int (request_tokens cd min_chars fixed history b0) < lo * of_int w \<or> list_all (\<lambda>c. c \<le> b0) (movable_rounds keep_rounds history)) \<or>
    lo * of_int w \<le> of_int (request_tokens cd min_chars fixed history b0) \<and> st' = settle_move b history st1 \<and>
      settle_target cd fixed keep_rounds min_chars (goal * of_int w) history b0 b"
proof (cases "of_int (request_tokens cd min_chars fixed history b0) < lo * of_int w")
  case True
  with assms show ?thesis by (simp add: plan_boundary_def Let_def)
next
  case False
  with assms have plan: "b = settle_loop (between_sizes cd min_chars history) (goal * of_int w) (movable_rounds keep_rounds history) b0
      (request_tokens cd min_chars fixed history b0)" "st' = (if b \<noteq> b0 then settle_move b history st1 else st1)"
    by (auto simp: plan_boundary_def Let_def)
  from settle_loop_first [OF plan(1) movable_rounds_props(1,3)] consider
      "b = b0" "list_all (\<lambda>c. c \<le> b0) (movable_rounds keep_rounds history)"
    | "b \<in> set (movable_rounds keep_rounds history)" "b0 < b"
      "\<And>c. c \<in> set (movable_rounds keep_rounds history) \<Longrightarrow> b0 < c \<Longrightarrow> c < b \<Longrightarrow>
         goal * of_int w < of_int (request_tokens cd min_chars fixed history c)"
      "of_int (request_tokens cd min_chars fixed history b) \<le> goal * of_int w \<or> list_all (\<lambda>c. c \<le> b) (movable_rounds keep_rounds history)"
    by (auto simp: list_all_iff)
  then show ?thesis
  proof cases
    case 1
    with plan(2) show ?thesis by simp
  next
    case 2
    have "list_all (\<lambda>c. c \<le> b0 \<or> b \<le> c \<or> goal * of_int w < of_int (request_tokens cd min_chars fixed history c)) (rounds_of history)"
      unfolding list_all_iff using 2(3) movable_rounds_early [OF _ _ 2(1)] by (meson not_le)
    with 2 plan(2) False show ?thesis by (simp add: settle_target_def)
  qed
qed

lemma plan_not_back:
  assumes "plan_boundary cd (Some w) fixed keep_rounds min_chars lo goal history st = (b, st')" and "0 < w"
    and "settle_current history (st\<lparr>by_pressure := True\<rparr>) = (b0, st1)"
  shows "b0 \<le> b \<and> b \<le> length history \<and> (b = 0 \<or> boundary_at st' = b \<and> anchor_id st' = Some (cm_id (history ! (b - 1))))"
  using plan_cases [OF assms] settle_current_bounds [OF assms(3)] movable_rounds_props(3) [where k = keep_rounds and history = history]
  by (auto simp: settle_move_def settle_target_def)

lemma current_of_extended:
  assumes "b \<le> length history" and "b = 0 \<or> boundary_at st' = b \<and> anchor_id st' = Some (cm_id (history ! (b - 1)))"
    and "settle_current (history @ newer) (st'\<lparr>by_pressure := True\<rparr>) = (b1, st2)"
  shows "b \<le> b1"
  using assms by (cases "b = 0") (auto simp: settle_current_def Let_def nth_append split: if_splits)

text \<open>
  C18. The boundary of the settled part moves rarely and forward: with a known window it stays while the
  request is below the share \<open>lo\<close> of it; past that it jumps to the first round, older than the last
  \<open>keep_rounds\<close>, that brings the request to the share \<open>goal\<close>, or as far as those rounds go. While the
  history only grows, the next plan never takes it back.
\<close>

theorem boundary_moves_under_pressure:
  assumes "plan_boundary cd (Some w) fixed keep_rounds min_chars lo goal history st = (b, st')" and "0 < w"
  shows "let b0 = fst (settle_current history st); used = of_int (request_tokens cd min_chars fixed history b0) in
    (b = b0 \<or> lo * of_int w \<le> used \<and> settle_target cd fixed keep_rounds min_chars (goal * of_int w) history b0 b \<and>
                keep_rounds < length (filter (\<lambda>i. b \<le> i) (rounds_of history))) \<and>
    (used < lo * of_int w \<or> b0 < b \<or> list_all (\<lambda>c. c \<le> b0) (movable_rounds keep_rounds history)) \<and>
    b \<le> fst (plan_boundary cd (Some w) fixed' keep_rounds min_chars lo goal (history @ newer) st')"
proof -
  obtain b0 st1 where cur: "settle_current history (st\<lparr>by_pressure := True\<rparr>) = (b0, st1)" by fastforce
  then have b0: "fst (settle_current history st) = b0" by (auto simp: settle_current_def Let_def split: if_splits)
  obtain b1 st2 where cur': "settle_current (history @ newer) (st'\<lparr>by_pressure := True\<rparr>) = (b1, st2)" by fastforce
  obtain b2 st3 where plan': "plan_boundary cd (Some w) fixed' keep_rounds min_chars lo goal (history @ newer) st' = (b2, st3)" by fastforce
  have "b \<le> b1" using plan_not_back [OF assms cur] current_of_extended cur' by blast
  also have "b1 \<le> b2" using plan_not_back [OF plan' assms(2) cur'] by blast
  finally have "b \<le> b2" .
  with plan_cases [OF assms cur] plan' b0 take_rounds_after [where b = b and history = history and k = keep_rounds]
  show ?thesis by (auto simp: Let_def settle_target_def)
qed

lemma long_exchange_plan:
  "plan_boundary sample_codec (Some 20) 0 0 10 SETTLE_AT SETTLE_TO (sample_exchange 4 @ sample_exchange 4) new_settle =
     (5, \<lparr>boundary_at = 5, anchor_id = Some ''1'', by_pressure = True\<rparr>)"
  by code_simp

theorem boundary_moves_witness:
  "5 \<le> fst (plan_boundary sample_codec (Some 20) 0 0 10 SETTLE_AT SETTLE_TO
     ((sample_exchange 4 @ sample_exchange 4) @ sample_exchange 4) \<lparr>boundary_at = 5, anchor_id = Some ''1'', by_pressure = True\<rparr>)"
  using boundary_moves_under_pressure [OF long_exchange_plan, of 0 "sample_exchange 4"] by (simp add: Let_def)

section \<open>The state a compaction carries on\<close>

definition GOAL_MAX_CHARS :: nat where "GOAL_MAX_CHARS = 300"
definition CONSTRAINT_MAX_CHARS :: nat where "CONSTRAINT_MAX_CHARS = 200"
definition MAX_CONSTRAINTS :: nat where "MAX_CONSTRAINTS = 10"
definition MAX_MERGED_CONSTRAINTS :: nat where "MAX_MERGED_CONSTRAINTS = 20"
definition MAX_LIST_ITEMS :: nat where "MAX_LIST_ITEMS = 50"

definition GOAL_MARKERS :: "string list" where
  "GOAL_MARKERS = [''new goal:'', ''change of goal:'', ''goal:'', ''nuevo objetivo:'', ''cambio de objetivo:'', ''objetivo:'']"

definition CONSTRAINT_MARKERS :: "string list" where
  "CONSTRAINT_MARKERS =
     [''siempre'', ''nunca'', ''prefiero'', ''prefiero que'', ''debes'', ''debe '', ''usar '', ''usar solo'', ''always'', ''never'',
      ''i prefer'', ''prefer '', ''you must'', ''you should always'', ''don't'', ''do not'', ''avoid '']"

definition CHANGE_TOOLS :: "(string \<times> string) list" where
  "CHANGE_TOOLS = [(''fs.write'', ''path''), (''fs.patch'', ''path''), (''fs.mkdir'', ''path''), (''fs.rename'', ''path''), (''fs.delete'', ''path'')]"

record CompactState =
  goal :: string
  constraints :: "string list"
  decisions :: "string list"
  tasks_completed :: "string list"
  tasks_active :: "string list"
  tasks_blocked :: "string list"
  changed_files :: "string list"
  validations :: "string list"
  cs_approvals :: "string list"
  cs_blockers :: "string list"
  artifacts :: "string list"
  cs_project_root :: string
  provider_model :: string
  compacted_at :: string

definition empty_state :: CompactState where
  "empty_state = \<lparr>goal = [], constraints = [], decisions = [], tasks_completed = [], tasks_active = [], tasks_blocked = [],
     changed_files = [], validations = [], cs_approvals = [], cs_blockers = [], artifacts = [], cs_project_root = [],
     provider_model = [], compacted_at = []\<rparr>"

definition compact_is_empty :: "CompactState \<Rightarrow> bool" where
  "compact_is_empty s =
     (goal s = [] \<and> constraints s = [] \<and> decisions s = [] \<and> tasks_completed s = [] \<and> tasks_active s = [] \<and>
      tasks_blocked s = [] \<and> changed_files s = [] \<and> validations s = [] \<and> cs_approvals s = [] \<and> cs_blockers s = [] \<and> artifacts s = [])"

definition from_harness :: "ChatMessage \<Rightarrow> bool" where
  "from_harness m = (case cm_origin m of Some d \<Rightarrow> dict_get d ''kind'' = Some (JStr ''harness'') | None \<Rightarrow> False)"

definition message_text :: "ChatMessage \<Rightarrow> string" where
  "message_text m = strip (case cm_content m of Some s \<Rightarrow> s | None \<Rightarrow> [])"

definition note_change :: "ToolCall \<Rightarrow> string list \<times> string list \<Rightarrow> string list \<times> string list" where
  "note_change c acc =
     (case acc of (changed, seen) \<Rightarrow>
       case dict_get CHANGE_TOOLS (call_name c) of
         None \<Rightarrow> acc
       | Some arg \<Rightarrow>
           (case dict_get (call_arguments c) arg of
              Some (JStr path) \<Rightarrow>
                if path = [] \<or> path \<in> set seen then acc
                else (if length changed < MAX_LIST_ITEMS then changed @ [path] else changed, path # seen)
            | _ \<Rightarrow> acc))"

definition extract_goal :: "ChatMessage list \<Rightarrow> string" where
  "extract_goal history =
     (case find_first (\<lambda>m. \<not> from_harness m \<and> cm_role m = ROLE_USER \<and> message_text m \<noteq> []) history of
        Some m \<Rightarrow> take GOAL_MAX_CHARS (message_text m) | None \<Rightarrow> [])"

definition is_constraint :: "ChatMessage \<Rightarrow> bool" where
  "is_constraint m =
     (\<not> from_harness m \<and> cm_role m = ROLE_USER \<and> message_text m \<noteq> [] \<and>
      list_ex (contains_sub (lower (message_text m))) CONSTRAINT_MARKERS)"

definition extract_from_history :: "ChatMessage list \<Rightarrow> CompactState" where
  "extract_from_history history =
     empty_state\<lparr>goal := extract_goal history,
       constraints := take MAX_CONSTRAINTS (map (take CONSTRAINT_MAX_CHARS \<circ> message_text) (filter is_constraint history)),
       changed_files := fst (fold note_change
         (concat (map cm_calls (filter (\<lambda>m. \<not> from_harness m \<and> cm_role m = ROLE_ASSISTANT) history))) ([], []))\<rparr>"

definition goal_of_message :: "ChatMessage \<Rightarrow> string \<Rightarrow> string" where
  "goal_of_message m old =
     (if cm_role m \<noteq> ROLE_USER \<or> from_harness m then old
      else
        (case find_first (startswith (lower (message_text m))) GOAL_MARKERS of
           None \<Rightarrow> old
         | Some marker \<Rightarrow>
             (let g = take GOAL_MAX_CHARS (strip (drop (length marker) (message_text m))) in if g = [] then old else g)))"

definition explicit_goal :: "ChatMessage list \<Rightarrow> string" where
  "explicit_goal history = fold goal_of_message history []"

definition or_else_text :: "string \<Rightarrow> string \<Rightarrow> string" where
  "or_else_text x y = (if x = [] then y else x)"

definition first_places :: "'a list \<Rightarrow> 'a list" where
  "first_places xs = rev (remdups (rev xs))"

definition carry_forward :: "CompactState \<Rightarrow> CompactState \<Rightarrow> ChatMessage list \<Rightarrow> CompactState" where
  "carry_forward previous current history =
     current\<lparr>goal := or_else_text (explicit_goal history) (or_else_text (goal previous) (goal current)),
       constraints := last_n MAX_MERGED_CONSTRAINTS (first_places (constraints previous @ constraints current)),
       changed_files := take MAX_LIST_ITEMS (first_places (changed_files previous @ changed_files current))\<rparr>"

text \<open>Evidence from the stores: lists by name and the three texts.\<close>

record store_evidence =
  ev_lists :: "(string \<times> string list) list"
  ev_texts :: "(string \<times> string) list"

definition ev_list :: "store_evidence \<Rightarrow> string \<Rightarrow> string list" where
  "ev_list ev k = take MAX_LIST_ITEMS (case dict_get (ev_lists ev) k of Some xs \<Rightarrow> xs | None \<Rightarrow> [])"

definition ev_text :: "store_evidence \<Rightarrow> string \<Rightarrow> string" where
  "ev_text ev k = (case dict_get (ev_texts ev) k of Some s \<Rightarrow> s | None \<Rightarrow> [])"

definition merge_evidence :: "CompactState \<Rightarrow> store_evidence \<Rightarrow> CompactState" where
  "merge_evidence s ev =
     \<lparr>goal = goal s, constraints = constraints s, decisions = ev_list ev ''decisions'',
      tasks_completed = ev_list ev ''tasks_completed'', tasks_active = ev_list ev ''tasks_active'',
      tasks_blocked = ev_list ev ''tasks_blocked'',
      changed_files = (case dict_get (ev_lists ev) ''changed_files'' of Some xs \<Rightarrow> xs | None \<Rightarrow> changed_files s),
      validations = ev_list ev ''validations'', cs_approvals = ev_list ev ''approvals'', cs_blockers = ev_list ev ''blockers'',
      artifacts = ev_list ev ''artifacts'', cs_project_root = ev_text ev ''project_root'',
      provider_model = ev_text ev ''provider_model'', compacted_at = ev_text ev ''compacted_at''\<rparr>"

lemma first_places_props [simp]: "distinct (first_places xs)" "set (first_places xs) = set xs"
  by (simp_all add: first_places_def)

lemma first_places_append: "first_places (xs @ ys) = first_places xs @ first_places (filter (\<lambda>y. y \<notin> set xs) ys)"
proof -
  have "remdups (us @ vs) = filter (\<lambda>u. u \<notin> set vs) (remdups us) @ remdups vs" for us vs :: "'a list"
    by (induction us) auto
  then show ?thesis by (simp add: first_places_def remdups_filter rev_filter)
qed

lemma last_n_append: "n \<le> length ys \<Longrightarrow> last_n n (xs @ ys) = last_n n ys"
  by (simp add: last_n_def)

lemma distinct_last_n: "distinct xs \<Longrightarrow> distinct (last_n n xs)"
  by (simp add: last_n_def)

lemma new_entries_stay:
  assumes "length (first_places ys) \<le> n" and "y \<in> set ys" and "y \<notin> set xs"
  shows "y \<in> set (last_n n (first_places (xs @ ys)))"
proof -
  let ?new = "first_places (filter (\<lambda>y. y \<notin> set xs) ys)"
  have "length ?new = card (set ys - set xs)"
    by (metis distinct_card first_places_props set_filter set_diff_eq)
  also have "\<dots> \<le> card (set ys)" by (simp add: card_mono)
  also have "\<dots> = length (first_places ys)" by (metis distinct_card first_places_props)
  finally have "length ?new \<le> n" using assms(1) by simp
  then have "set ?new \<subseteq> set (last_n n (first_places xs @ ?new))"
    unfolding last_n_def by (auto simp: drop_append)
  moreover have "y \<in> set ?new" using assms(2,3) by simp
  ultimately show ?thesis by (auto simp: first_places_append)
qed

text \<open>
  C15. What a compaction carries on: the goal changes only when the owner said so explicitly, the
  constraints stay distinct and at most twenty, each new one is among them, and the changed files are
  distinct, at most fifty and start with those already known.
\<close>

theorem compaction_carries_the_goal:
  assumes "s = carry_forward previous (extract_from_history history) history"
  shows "(explicit_goal history = [] \<and> goal previous \<noteq> [] \<longrightarrow> goal s = goal previous) \<and>
    (explicit_goal history \<noteq> [] \<longrightarrow> goal s = explicit_goal history) \<and>
    distinct (constraints s) \<and> length (constraints s) \<le> 20 \<and>
    set (constraints (extract_from_history history)) - set (constraints previous) \<subseteq> set (constraints s) \<and>
    distinct (changed_files s) \<and> length (changed_files s) \<le> 50 \<and>
    prefix (take 50 (first_places (changed_files previous))) (changed_files s)"
proof -
  let ?cur = "extract_from_history history"
  have "length (first_places (constraints ?cur)) \<le> length (constraints ?cur)"
    by (simp add: first_places_def length_remdups_leq [THEN order_trans])
  also have "\<dots> \<le> 10" by (simp add: extract_from_history_def MAX_CONSTRAINTS_def)
  finally have "y \<in> set (constraints s)" if "y \<in> set (constraints ?cur)" "y \<notin> set (constraints previous)" for y
    using new_entries_stay [OF _ that, of 20] assms by (simp add: carry_forward_def MAX_MERGED_CONSTRAINTS_def)
  moreover have "prefix (take 50 (first_places (changed_files previous))) (changed_files s)"
    using assms by (simp add: carry_forward_def MAX_LIST_ITEMS_def first_places_append prefix_def)
  ultimately show ?thesis
    using assms by (auto simp: carry_forward_def or_else_text_def distinct_last_n MAX_MERGED_CONSTRAINTS_def MAX_LIST_ITEMS_def)
qed

theorem compaction_carries_the_goal_witness:
  "goal (carry_forward (empty_state\<lparr>goal := ''ship it''\<rparr>) (extract_from_history (sample_exchange 4)) (sample_exchange 4)) = ''ship it''"
proof -
  have "explicit_goal (sample_exchange 4) = []" by code_simp
  with compaction_carries_the_goal [OF refl, where previous = "empty_state\<lparr>goal := ''ship it''\<rparr>" and history = "sample_exchange 4"]
  show ?thesis by (simp add: empty_state_def)
qed

text \<open>
  Beyond twenty "the oldest go first": an instruction keeps the place of its first time, so one the owner
  has just repeated goes before others that were never repeated.
\<close>

theorem repeated_constraint_is_dropped:
  "let old = map nat_to_string [0..<20]; previous = empty_state\<lparr>constraints := old\<rparr>;
       current = empty_state\<lparr>constraints := [''0'', ''new'']\<rparr>
   in ''0'' \<notin> set (constraints (carry_forward previous current [])) \<and> ''1'' \<in> set (constraints (carry_forward previous current []))"
  by code_simp

end
