(* ===== verification/Tool_Arguments.thy ===== *)
theory Tool_Arguments
  imports Pattern
begin

text \<open>
  The arguments of a tool call, as a model sent them (\<^verbatim>\<open>src/src/rinari/tools/schema.py\<close>,
  \<^verbatim>\<open>src/src/rinari/tools/normalize.py\<close>): empty optional keys are dropped, known spellings of a native
  tool are rewritten, values sent as text are converted, and what results is validated against the
  schema of the tool before the policy sees it.

  A schema is the JSON object the tool declares. A keyword of another type than JSON Schema gives it
  reads as missing (the code would raise on such a schema). The sentences for the model are values of
  the types \<open>violation\<close> and \<open>note\<close>. Parameters: \<open>loads\<close> (\<open>json.loads\<close>, \<open>None\<close> for its \<open>ValueError\<close>),
  \<open>matches\<close> (\<open>re.search\<close> of a pattern of the schema, \<open>None\<close> for \<open>re.error\<close>), \<open>same_path\<close>. Numbers are
  exact, so the infinities and NaN of \<open>float\<close> do not occur.
\<close>

section \<open>Reading a schema\<close>

definition obj_of :: "json \<Rightarrow> (string \<times> json) list" where
  "obj_of j = (case j of JObj d \<Rightarrow> d | _ \<Rightarrow> [])"

definition list_of :: "json \<Rightarrow> json list" where
  "list_of j = (case j of JList xs \<Rightarrow> xs | _ \<Rightarrow> [])"

definition is_obj :: "json \<Rightarrow> bool" where
  "is_obj j = (case j of JObj d \<Rightarrow> True | _ \<Rightarrow> False)"

definition texts_of :: "json \<Rightarrow> string list" where
  "texts_of j = List.map_filter (\<lambda>x. case x of JStr s \<Rightarrow> Some s | _ \<Rightarrow> None) (list_of j)"

definition number_of :: "json \<Rightarrow> rat option" where
  "number_of j = (case j of JInt i \<Rightarrow> Some (of_int i) | JFloat r \<Rightarrow> Some r | JBool b \<Rightarrow> Some (of_bool b) | _ \<Rightarrow> None)"

text \<open>Python's equality: numbers by value, objects by their entries in any order.\<close>

fun py_eq :: "json \<Rightarrow> json \<Rightarrow> bool" where
  "py_eq (JList []) y = (case y of JList [] \<Rightarrow> True | _ \<Rightarrow> False)"
| "py_eq (JList (x # xs)) y = (case y of JList (z # zs) \<Rightarrow> py_eq x z \<and> py_eq (JList xs) (JList zs) | _ \<Rightarrow> False)"
| "py_eq (JObj []) y = (case y of JObj [] \<Rightarrow> True | _ \<Rightarrow> False)"
| "py_eq (JObj ((k, v) # d)) y =
     (case y of
        JObj e \<Rightarrow> (case dict_get e k of Some w \<Rightarrow> py_eq v w \<and> py_eq (JObj d) (JObj (dict_pop k e)) | None \<Rightarrow> False)
      | _ \<Rightarrow> False)"
| "py_eq x y =
     (case (number_of x, number_of y) of
        (Some r, Some s) \<Rightarrow> r = s
      | _ \<Rightarrow> x = y)"

text \<open>A part of an object is smaller than the object; the recursion over schemas ends.\<close>

lemma size_entry: "(k, v) \<in> set d \<Longrightarrow> size v < size (JObj d)"
  for d :: "(string \<times> json) list"
  by (induction d) auto

lemma size_item: "x \<in> set xs \<Longrightarrow> size x < size (JList xs)"
  by (induction xs) auto

lemma size_obj_get: "size (obj_get d k) < size (JObj d)"
  using size_entry [OF dict_get_Some_in, of d k] by (auto simp: obj_get_def split: option.split)

lemma size_part:
  "(k', v) \<in> set (obj_of (obj_get d k)) \<Longrightarrow> size v < size (JObj d)"
  "x \<in> set (list_of (obj_get d k)) \<Longrightarrow> size x < size (JObj d)"
  using size_obj_get [of d k] size_entry size_item
  by (fastforce simp: obj_of_def list_of_def split: json.splits)+

section \<open>Types\<close>

fun matches_type :: "json \<Rightarrow> json \<Rightarrow> bool" where
  "matches_type (JList ts) v = list_ex (\<lambda>t. matches_type t v) ts"
| "matches_type (JStr t) v =
     (if t = ''object'' then (case v of JObj _ \<Rightarrow> True | _ \<Rightarrow> False)
      else if t = ''array'' then (case v of JList _ \<Rightarrow> True | _ \<Rightarrow> False)
      else if t = ''string'' then (case v of JStr _ \<Rightarrow> True | _ \<Rightarrow> False)
      else if t = ''boolean'' then (case v of JBool _ \<Rightarrow> True | _ \<Rightarrow> False)
      else if t = ''integer'' then (case v of JInt _ \<Rightarrow> True | _ \<Rightarrow> False)
      else if t = ''number'' then (case v of JInt _ \<Rightarrow> True | JFloat _ \<Rightarrow> True | _ \<Rightarrow> False)
      else if t = ''null'' then v = JNull
      else True)"
| "matches_type t v = True"

section \<open>Validation\<close>

datatype violation =
  NoAlternative string string | NotInEnum string | WrongType string json | MissingProperty string string
  | UnexpectedProperty string string | TooShort string | TooLong string | PatternMismatch string | InvalidPattern string
  | TooFewItems string | TooManyItems string | RepeatedItems string | BelowMinimum string | AboveMaximum string

definition string_violations :: "(string \<Rightarrow> string \<Rightarrow> bool option) \<Rightarrow> (string \<times> json) list \<Rightarrow> string \<Rightarrow> string \<Rightarrow> violation list" where
  "string_violations matches d s path =
     (case number_of (obj_get d ''minLength'') of Some n \<Rightarrow> if of_nat (length s) < n then [TooShort path] else [] | None \<Rightarrow> []) @
     (case number_of (obj_get d ''maxLength'') of Some n \<Rightarrow> if n < of_nat (length s) then [TooLong path] else [] | None \<Rightarrow> []) @
     (case obj_get d ''pattern'' of
        JStr p \<Rightarrow> (case matches p s of Some True \<Rightarrow> [] | Some False \<Rightarrow> [PatternMismatch path] | None \<Rightarrow> [InvalidPattern path])
      | _ \<Rightarrow> [])"

definition list_violations :: "(string \<times> json) list \<Rightarrow> json list \<Rightarrow> string \<Rightarrow> violation list" where
  "list_violations d xs path =
     (case number_of (obj_get d ''minItems'') of Some n \<Rightarrow> if of_nat (length xs) < n then [TooFewItems path] else [] | None \<Rightarrow> []) @
     (case number_of (obj_get d ''maxItems'') of Some n \<Rightarrow> if n < of_nat (length xs) then [TooManyItems path] else [] | None \<Rightarrow> []) @
     (if truthy (obj_get d ''uniqueItems'') \<and> list_ex (\<lambda>i. list_ex (\<lambda>y. py_eq (xs ! i) y) (take i xs)) [0..<length xs]
      then [RepeatedItems path] else [])"

definition number_violations :: "(string \<times> json) list \<Rightarrow> json \<Rightarrow> string \<Rightarrow> violation list" where
  "number_violations d v path =
     (case v of
        JBool _ \<Rightarrow> []
      | _ \<Rightarrow>
          (case number_of v of
             None \<Rightarrow> []
           | Some r \<Rightarrow>
               (case number_of (obj_get d ''minimum'') of Some n \<Rightarrow> if r < n then [BelowMinimum path] else [] | None \<Rightarrow> []) @
               (case number_of (obj_get d ''maximum'') of Some n \<Rightarrow> if n < r then [AboveMaximum path] else [] | None \<Rightarrow> [])))"

definition item_path :: "string \<Rightarrow> nat \<Rightarrow> string" where
  "item_path path i = path @ ''['' @ nat_to_string i @ '']''"

definition key_path :: "string \<Rightarrow> string \<Rightarrow> string" where
  "key_path path k = path @ ''.'' @ k"

definition counts_match :: "string \<Rightarrow> nat \<Rightarrow> bool" where
  "counts_match keyword n = (n \<noteq> 0 \<and> \<not> (keyword = ''oneOf'' \<and> n \<noteq> 1))"

text \<open>\<open>_validate\<close>: the violations in the order the code finds them, with its early returns.\<close>

function validate :: "(string \<Rightarrow> string \<Rightarrow> bool option) \<Rightarrow> json \<Rightarrow> json \<Rightarrow> string \<Rightarrow> violation list" where
  "validate matches schema v path =
     (case schema of
        JObj d \<Rightarrow>
          (let count = (\<lambda>keyword. length (filter (\<lambda>b. validate matches b v ''$'' = []) (list_of (obj_get d keyword))));
               fails = (\<lambda>keyword. dict_get d keyword \<noteq> None \<and> \<not> counts_match keyword (count keyword))
           in
           if fails ''anyOf'' then [NoAlternative path ''anyOf'']
           else if fails ''oneOf'' then [NoAlternative path ''oneOf'']
           else
             concat (map (\<lambda>b. validate matches b v path) (list_of (obj_get d ''allOf''))) @
             (if dict_get d ''enum'' \<noteq> None \<and> \<not> list_ex (py_eq v) (list_of (obj_get d ''enum'')) then [NotInEnum path]
              else if \<not> matches_type (obj_get d ''type'') v then [WrongType path (obj_get d ''type'')]
              else
                (case v of
                   JObj ob \<Rightarrow>
                     concat (map (\<lambda>(k, sub). case dict_get ob k of
                                                Some x \<Rightarrow> validate matches sub x (key_path path k) | None \<Rightarrow> [])
                               (obj_of (obj_get d ''properties''))) @
                     map (MissingProperty path) (filter (\<lambda>k. dict_get ob k = None) (texts_of (obj_get d ''required''))) @
                     concat (map (\<lambda>(k, x).
                         if dict_get (obj_of (obj_get d ''properties'')) k \<noteq> None then []
                         else if obj_get d ''additionalProperties'' = JBool False then [UnexpectedProperty path k]
                         else validate matches (obj_get d ''additionalProperties'') x (key_path path k)) ob)
                 | JStr s \<Rightarrow> string_violations matches d s path
                 | JList xs \<Rightarrow>
                     list_violations d xs path @
                     concat (map (\<lambda>(i, x). validate matches (obj_get d ''items'') x (item_path path i)) (enumerate 0 xs))
                 | _ \<Rightarrow> number_violations d v path)))
      | _ \<Rightarrow> [])"
  by pat_completeness auto
termination
  using size_part size_obj_get
  by (relation "measure (\<lambda>(matches, schema, v, path). size schema)") auto

declare validate.simps [simp del]

definition validate_against :: "(string \<Rightarrow> string \<Rightarrow> bool option) \<Rightarrow> json \<Rightarrow> json \<Rightarrow> violation list" where
  "validate_against matches schema v = validate matches schema v ''$''"

section \<open>Values sent as text\<close>

text \<open>What the model is told about its arguments, one value per sentence of the code.\<close>

datatype arg_note =
    UsedAs string string
  | IgnoredEmpty "string list"
  | InProperty string arg_note
  | InRow string nat arg_note
  | UsedTimeout json string json
  | RanArgv
  | EditsAsList
  | UsedFilesForm
  | SimpleFormRepeated
  | SimpleFormLeftOut
  | UsedLine string json string
  | IgnoredItems string
  | IgnoredPath string json

definition is_whole :: "rat \<Rightarrow> bool" where
  "is_whole r = (snd (quotient_of r) = 1)"

definition parse_as :: "(string \<Rightarrow> json option) \<Rightarrow> string \<Rightarrow> string \<Rightarrow> json option" where
  "parse_as loads expected s =
     (let stripped = strip s in
      if expected = ''boolean'' then
        (if lower stripped = ''true'' then Some (JBool True)
         else if lower stripped = ''false'' then Some (JBool False) else None)
      else if expected = ''integer'' \<or> expected = ''number'' then
        (case loads stripped of
           Some (JInt i) \<Rightarrow> Some (JInt i)
         | Some (JFloat r) \<Rightarrow>
             if expected = ''integer'' then (if is_whole r then Some (JInt (fst (quotient_of r))) else None)
             else Some (JFloat r)
         | _ \<Rightarrow> None)
      else if expected = ''array'' \<or> expected = ''object'' then
        (if \<not> startswith stripped (if expected = ''array'' then ''['' else ''{'') then None
         else (case loads stripped of
                 Some v \<Rightarrow> if matches_type (JStr expected) v then Some v else None
               | None \<Rightarrow> None))
      else None)"

text \<open>The value at one place of the schema, before its parts are looked at.\<close>

definition typed_value :: "(string \<Rightarrow> json option) \<Rightarrow> (string \<times> json) list \<Rightarrow> json \<Rightarrow> json option" where
  "typed_value loads d v =
     (case (v, obj_get d ''type'') of
        (JStr s, JStr expected) \<Rightarrow> if expected = ''string'' then None else parse_as loads expected s
      | _ \<Rightarrow> None)"

definition typed_note :: "(string \<times> json) list \<Rightarrow> string \<Rightarrow> arg_note" where
  "typed_note d path =
     UsedAs (if drop 2 path = [] then ''value'' else drop 2 path) (case obj_get d ''type'' of JStr t \<Rightarrow> t | _ \<Rightarrow> [])"

definition or_same :: "'a option \<Rightarrow> 'a \<Rightarrow> 'a" where
  "or_same x y = (case x of Some z \<Rightarrow> z | None \<Rightarrow> y)"

text \<open>The loop over the declared properties: each one that is given is rewritten in its place.\<close>

fun rewrite_keys ::
  "(string \<Rightarrow> 's \<Rightarrow> 'v \<Rightarrow> 'v \<times> 'n list) \<Rightarrow> (string \<times> 's) list \<Rightarrow> (string \<times> 'v) list \<times> 'n list \<Rightarrow> (string \<times> 'v) list \<times> 'n list" where
  "rewrite_keys f [] st = st"
| "rewrite_keys f ((k, sub) # ps) (d, notes) =
     (case dict_get d k of
        None \<Rightarrow> rewrite_keys f ps (d, notes)
      | Some x \<Rightarrow> rewrite_keys f ps (dict_set k (fst (f k sub x)) d, notes @ snd (f k sub x)))"

lemma rewrite_keys_cong [fundef_cong]:
  assumes "ps = qs" and "\<And>k sub x. (k, sub) \<in> set qs \<Longrightarrow> f k sub x = g k sub x" and "st = st'"
  shows "rewrite_keys f ps st = rewrite_keys g qs st'"
proof -
  have "(\<And>k sub x. (k, sub) \<in> set qs \<Longrightarrow> f k sub x = g k sub x) \<Longrightarrow> rewrite_keys f qs st' = rewrite_keys g qs st'"
    by (induction g qs st' rule: rewrite_keys.induct) (auto split: option.splits)
  with assms show ?thesis by simp
qed

function coerce_types :: "(string \<Rightarrow> json option) \<Rightarrow> json \<Rightarrow> json \<Rightarrow> string \<Rightarrow> json \<times> arg_note list" where
  "coerce_types loads schema value path =
     (case schema of
        JObj d \<Rightarrow>
          (let v = or_same (typed_value loads d value) value;
               notes = (if typed_value loads d value = None then [] else [typed_note d path])
           in case v of
                JObj ob \<Rightarrow>
                  apfst JObj (rewrite_keys (\<lambda>k sub x. coerce_types loads sub x (key_path path k))
                    (obj_of (obj_get d ''properties'')) (ob, notes))
              | JList xs \<Rightarrow>
                  (JList (map (\<lambda>(i, x). fst (coerce_types loads (obj_get d ''items'') x (item_path path i))) (enumerate 0 xs)),
                   notes @ concat (map (\<lambda>(i, x). snd (coerce_types loads (obj_get d ''items'') x (item_path path i))) (enumerate 0 xs)))
              | _ \<Rightarrow> (v, notes))
      | _ \<Rightarrow> (value, []))"
  by pat_completeness auto
termination
  using size_part size_obj_get
  by (relation "measure (\<lambda>(loads, schema, v, path). size schema)") (auto dest!: dict_get_Some_in)

declare coerce_types.simps [simp del]

section \<open>Optional arguments sent empty\<close>

definition is_blank :: "json \<Rightarrow> bool" where
  "is_blank v = (v = JNull \<or> v = JStr [] \<or> v = JList [] \<or> v = JObj [])"

text \<open>The alternatives of a schema, each the keys it requires, and those given with real values.\<close>

definition alternatives :: "(string \<times> json) list \<Rightarrow> string list list" where
  "alternatives d =
     map (\<lambda>clause. texts_of (obj_get (obj_of clause) ''required''))
       (filter is_obj (list_of (obj_get d ''oneOf'') @ list_of (obj_get d ''anyOf'')))"

definition given_alternatives :: "(string \<times> json) list \<Rightarrow> (string \<times> json) list \<Rightarrow> string list list" where
  "given_alternatives d ob = filter (\<lambda>b. b \<noteq> [] \<and> list_all (\<lambda>k. \<not> is_blank (obj_get ob k)) b) (alternatives d)"

definition empty_optional :: "(string \<times> json) list \<Rightarrow> (string \<times> json) list \<Rightarrow> string \<times> json \<Rightarrow> bool" where
  "empty_optional d ob = (\<lambda>(k, item).
     item = JStr [] \<and> k \<notin> set (texts_of (obj_get d ''required'')) \<and>
     (k \<in> set (concat (alternatives d)) \<longrightarrow>
        given_alternatives d ob \<noteq> [] \<and> k \<notin> set (concat (given_alternatives d ob))))"

function drop_empty_optionals :: "json \<Rightarrow> json \<Rightarrow> json \<times> arg_note list" where
  "drop_empty_optionals schema value =
     (case (schema, value) of
        (JObj d, JObj ob) \<Rightarrow>
          (let dropped = map fst (filter (empty_optional d ob) ob);
               kept = filter (\<lambda>e. \<not> empty_optional d ob e) ob;
               sub = (\<lambda>k. obj_get (obj_of (obj_get d ''properties'')) k);
               notes = (if dropped = [] then [] else [IgnoredEmpty (sort dropped)]) @
                 concat (map (\<lambda>(k, item). case item of
                     JObj part \<Rightarrow> map (InProperty k) (snd (drop_empty_optionals (sub k) item))
                   | JList rows \<Rightarrow>
                       concat (map (\<lambda>(i, row). map (InRow k i) (snd (drop_empty_optionals (obj_get (obj_of (sub k)) ''items'') row)))
                         (enumerate 0 rows))
                   | _ \<Rightarrow> []) kept)
           in if notes = [] then (value, [])
              else
                (JObj (map (\<lambda>(k, item). (k, case item of
                     JObj part \<Rightarrow> fst (drop_empty_optionals (sub k) item)
                   | JList rows \<Rightarrow> JList (map (\<lambda>row. fst (drop_empty_optionals (obj_get (obj_of (sub k)) ''items'') row)) rows)
                   | _ \<Rightarrow> item)) kept), notes))
      | _ \<Rightarrow> (value, []))"
  by pat_completeness auto
termination
proof -
  have part: "size (obj_get (obj_of j) k) \<le> size j" for j k
    using size_obj_get [of _ k] by (cases j) (auto simp: obj_of_def obj_get_def intro: less_imp_le)
  have deep: "size (obj_get (obj_of (obj_get (obj_of (obj_get d ''properties'')) k)) ''items'') < size (JObj d)"
    and shallow: "size (obj_get (obj_of (obj_get d ''properties'')) k) < size (JObj d)" for d k
    by (meson part size_obj_get le_less_trans order_trans)+
  show ?thesis
    by (relation "measure (\<lambda>(schema, v). size schema)") (auto intro: deep shallow)
qed

declare drop_empty_optionals.simps [simp del]

section \<open>The argument names a schema declares\<close>

definition takes_more :: "(string \<times> json) list \<Rightarrow> bool" where
  "takes_more d = (obj_get d ''additionalProperties'' \<noteq> JNull \<and> obj_get d ''additionalProperties'' \<noteq> JBool False)"

text \<open>The schema itself and the branches of its combinators.\<close>

definition declaring_parts :: "(string \<times> json) list \<Rightarrow> (string \<times> json) list list" where
  "declaring_parts d =
     d # map obj_of (filter is_obj
       (list_of (obj_get d ''anyOf'') @ list_of (obj_get d ''oneOf'') @ list_of (obj_get d ''allOf'')))"

definition declared_properties :: "json \<Rightarrow> string list option" where
  "declared_properties schema =
     (case schema of
        JObj d \<Rightarrow>
          if list_ex takes_more (declaring_parts d) then None
          else if list_ex (\<lambda>part. is_obj (obj_get part ''properties'')) (declaring_parts d)
          then Some (concat (map (\<lambda>part. map fst (obj_of (obj_get part ''properties''))) (declaring_parts d)))
          else None
      | _ \<Rightarrow> None)"

section \<open>Spellings of the native tools\<close>

type_synonym arguments = "(string \<times> json) list"

datatype refused = ReadsWholeFiles "string list" json json json

abbreviation given :: "arguments \<Rightarrow> string \<Rightarrow> bool" where
  "given args k \<equiv> dict_get args k \<noteq> None"

definition is_number :: "json \<Rightarrow> bool" where
  "is_number v = (case v of JInt _ \<Rightarrow> True | JFloat _ \<Rightarrow> True | _ \<Rightarrow> False)"

text \<open>\<open>_seconds\<close>: a whole number of seconds is an \<open>int\<close>.\<close>

definition seconds :: "rat \<Rightarrow> json" where
  "seconds r = (if is_whole r then JInt (fst (quotient_of r)) else JFloat r)"

definition timeout_seconds :: "arguments \<Rightarrow> arguments \<times> arg_note list" where
  "timeout_seconds args =
     (let variants = filter (given args) [''timeout_ms'', ''timeout'']; key = hd variants; value = obj_get args key in
      if given args ''timeout_s'' \<or> length variants \<noteq> 1 then (args, [])
      else if \<not> is_number value then (args, [])
      else
        (let r = the (number_of value); s = seconds (if key = ''timeout_ms'' then r / 1000 else r) in
         (dict_set ''timeout_s'' s (dict_pop key args), [UsedTimeout s key value])))"

definition is_text_json :: "json \<Rightarrow> bool" where
  "is_text_json v = (case v of JStr _ \<Rightarrow> True | _ \<Rightarrow> False)"

definition runs_argv :: "arguments \<Rightarrow> bool" where
  "runs_argv args = (case obj_get args ''argv'' of JList xs \<Rightarrow> xs \<noteq> [] \<and> list_all is_text_json xs | _ \<Rightarrow> False)"

definition argv_over_command :: "arguments \<Rightarrow> arguments \<times> arg_note list" where
  "argv_over_command args =
     (if \<not> given args ''command'' \<or> \<not> runs_argv args then (args, []) else (dict_pop ''command'' args, [RanArgv]))"

definition shell_exec :: "arguments \<Rightarrow> arguments \<times> arg_note list" where
  "shell_exec args =
     (let (args1, notes1) = timeout_seconds args; (args2, notes2) = argv_over_command args1 in (args2, notes1 @ notes2))"

definition process_start :: "arguments \<Rightarrow> arguments \<times> arg_note list" where
  "process_start args = argv_over_command args"

definition process_wait :: "arguments \<Rightarrow> arguments \<times> arg_note list" where
  "process_wait args = timeout_seconds args"

definition PATCH_SINGLE_FILE :: "string list" where
  "PATCH_SINGLE_FILE = [''path'', ''edits'', ''expected_hash'']"

definition PATCH_SIMPLE_FORM :: "string list" where
  "PATCH_SIMPLE_FORM = [''path'', ''old_string'', ''new_string'', ''replace_all'']"

text \<open>\<open>os.path.normcase(os.path.normpath(p))\<close> is the parameter \<open>normal\<close>: it depends on the system.\<close>

definition same_path :: "(string \<Rightarrow> string) \<Rightarrow> string \<Rightarrow> string" where
  "same_path normal path = normal (strip path)"

definition simple_edit_in_files :: "(string \<Rightarrow> string) \<Rightarrow> arguments \<Rightarrow> json list \<Rightarrow> bool" where
  "simple_edit_in_files normal simple files =
     (case (obj_get simple ''path'', obj_get simple ''old_string'', obj_get simple ''new_string'') of
        (JStr path, JStr old, JStr new) \<Rightarrow>
          \<not> truthy (obj_get simple ''replace_all'') \<and>
          list_ex (\<lambda>row. case obj_get (obj_of row) ''path'' of
              JStr p \<Rightarrow> same_path normal p = same_path normal path \<and>
                list_ex (\<lambda>edit. obj_get (obj_of edit) ''old_string'' = JStr old \<and> obj_get (obj_of edit) ''new_string'' = JStr new)
                  (list_of (obj_get (obj_of row) ''edits''))
            | _ \<Rightarrow> False) files
      | _ \<Rightarrow> False)"

text \<open>The top-level hash goes to the one file of the batch.\<close>

definition move_hash :: "arguments \<Rightarrow> arguments" where
  "move_hash kept =
     (case (dict_get kept ''expected_hash'', list_of (obj_get kept ''files'')) of
        (Some h, [row]) \<Rightarrow>
          dict_pop ''expected_hash''
            (if is_obj row \<and> dict_get (obj_of row) ''expected_hash'' = None
             then dict_set ''files'' (JList [JObj (dict_set ''expected_hash'' h (obj_of row))]) kept
             else kept)
      | _ \<Rightarrow> kept)"

definition patch_both_forms :: "(string \<Rightarrow> string) \<Rightarrow> arguments \<Rightarrow> arg_note list \<Rightarrow> arguments \<times> arg_note list" where
  "patch_both_forms normal args notes =
     (let simple = filter (\<lambda>(k, _). k \<in> set PATCH_SIMPLE_FORM) args;
          kept = move_hash (filter (\<lambda>(k, _). k \<notin> set PATCH_SIMPLE_FORM) args)
      in (kept, notes @ [if simple_edit_in_files normal simple (list_of (obj_get kept ''files''))
                         then SimpleFormRepeated else SimpleFormLeftOut]))"

definition edits_as_list :: "(string \<Rightarrow> json option) \<Rightarrow> arguments \<Rightarrow> arguments \<times> arg_note list" where
  "edits_as_list loads args =
     (case obj_get args ''edits'' of
        JStr s \<Rightarrow> (case loads s of Some (JList xs) \<Rightarrow> (dict_set ''edits'' (JList xs) args, [EditsAsList]) | _ \<Rightarrow> (args, []))
      | _ \<Rightarrow> (args, []))"

definition is_list :: "json \<Rightarrow> bool" where
  "is_list v = (case v of JList _ \<Rightarrow> True | _ \<Rightarrow> False)"

definition both_forms :: "arguments \<Rightarrow> bool" where
  "both_forms args = (is_list (obj_get args ''files'') \<and> list_ex (given args) PATCH_SIMPLE_FORM)"

definition one_file_form :: "arguments \<Rightarrow> bool" where
  "one_file_form args =
     (given args ''path'' \<and> given args ''edits'' \<and> list_all (\<lambda>(k, _). k \<in> set PATCH_SINGLE_FILE) args \<and>
      is_list (obj_get args ''edits''))"

definition fs_patch :: "(string \<Rightarrow> json option) \<Rightarrow> (string \<Rightarrow> string) \<Rightarrow> arguments \<Rightarrow> arguments \<times> arg_note list" where
  "fs_patch loads normal args0 =
     (let (args, notes) = edits_as_list loads args0 in
      if both_forms args then patch_both_forms normal args notes
      else if \<not> one_file_form args then (args, notes)
      else
        ([(''files'', JList [JObj ([(''path'', obj_get args ''path''), (''edits'', obj_get args ''edits'')] @
            (case dict_get args ''expected_hash'' of Some h \<Rightarrow> [(''expected_hash'', h)] | None \<Rightarrow> []))])],
         notes @ [UsedFilesForm]))"

definition use_line :: "string \<times> string \<Rightarrow> arguments \<times> arg_note list \<Rightarrow> arguments \<times> arg_note list" where
  "use_line = (\<lambda>(variant, canonical) (args, notes).
     if given args variant \<and> \<not> given args canonical
     then (dict_set canonical (obj_get args variant) (dict_pop variant args),
           notes @ [UsedLine canonical (obj_get args variant) variant])
     else (args, notes))"

definition fs_read_lines :: "arguments \<Rightarrow> arguments \<times> arg_note list" where
  "fs_read_lines args = fold use_line [(''start_line'', ''start''), (''end_line'', ''end'')] (args, [])"

definition LINE_RANGE_KEYS :: "string list" where
  "LINE_RANGE_KEYS = [''start'', ''end'', ''start_line'', ''end_line'', ''offset'', ''limit'']"

definition first_number :: "arguments \<Rightarrow> string list \<Rightarrow> json option" where
  "first_number args ks = find_first is_number (map (obj_get args) ks)"

definition plus_199 :: "json \<Rightarrow> json" where
  "plus_199 v = (case v of JInt i \<Rightarrow> JInt (i + 199) | JFloat r \<Rightarrow> JFloat (r + 199) | _ \<Rightarrow> v)"

definition fs_read_normal :: "arguments \<Rightarrow> refused + arguments \<times> arg_note list" where
  "fs_read_normal args =
     (let found = filter (given args) LINE_RANGE_KEYS;
          start = or_same (first_number args [''start'', ''start_line'']) (JInt 1);
          stop = or_same (first_number args [''end'', ''end_line'']) (plus_199 start)
      in if found = [] then Inr (args, [])
         else Inl (ReadsWholeFiles found (if truthy (obj_get args ''path'') then obj_get args ''path'' else JStr ''<file>'') start stop))"

definition NO_PATH_WORDS :: "string list" where
  "NO_PATH_WORDS = [''auto'', ''none'', ''null'', ''nil'', ''undefined'', ''n/a'']"

definition rx_root :: rx where
  "rx_root = Alt (plus_rx (any_of [CHR 0x5C, CHR ''/'']))
     (seqs [rx_letter, lit '':'', Star (any_of [CHR 0x5C, CHR ''/''])])"

definition path_not_given :: "json \<Rightarrow> bool" where
  "path_not_given v =
     (case v of
        JNull \<Rightarrow> True
      | JStr s \<Rightarrow> (let t = strip s in t = [] \<or> lower t \<in> set NO_PATH_WORDS \<or> rx_fullmatch rx_root t)
      | _ \<Rightarrow> False)"

definition unset_path :: "string \<Rightarrow> arguments \<times> arg_note list \<Rightarrow> arguments \<times> arg_note list" where
  "unset_path key = (\<lambda>(args, notes).
     case dict_get args key of
       None \<Rightarrow> (args, notes)
     | Some (JList xs) \<Rightarrow>
         (let kept = filter (\<lambda>x. \<not> path_not_given x) xs;
              changed = length kept \<noteq> length xs
          in (if kept = [] then dict_pop key args else if changed then dict_set key (JList kept) args else args,
              if changed then notes @ [IgnoredItems key] else notes))
     | Some v \<Rightarrow> if path_not_given v then (dict_pop key args, notes @ [IgnoredPath key v]) else (args, notes))"

definition unset_paths :: "arguments \<Rightarrow> string list \<Rightarrow> arguments \<times> arg_note list" where
  "unset_paths args keys = fold unset_path keys (args, [])"

section \<open>Arguments that are valid already\<close>

lemma concat_empty: "concat (map f xs) = [] \<longleftrightarrow> (\<forall>x \<in> set xs. f x = [])"
  by auto

lemma enumerate_item: "(i, x) \<in> set (enumerate 0 xs) \<Longrightarrow> x \<in> set xs"
  by (metis enumerate_eq_zip in_set_zipE)

lemma parse_as_other: "expected \<notin> {''boolean'', ''integer'', ''number'', ''array'', ''object''} \<Longrightarrow> parse_as loads expected s = None"
  by (simp add: parse_as_def)

lemma typed_value_valid:
  assumes "matches_type (obj_get d ''type'') v"
  shows "typed_value loads d v = None"
proof (cases v)
  case (JStr s)
  show ?thesis
  proof (cases "obj_get d ''type''")
    case (JStr expected)
    with assms \<open>v = JStr s\<close> have "expected = ''string'' \<or> expected \<notin> {''boolean'', ''integer'', ''number'', ''array'', ''object''}"
      by auto
    then show ?thesis using \<open>v = JStr s\<close> JStr by (auto simp: typed_value_def parse_as_other)
  qed (simp_all add: typed_value_def JStr)
qed (simp_all add: typed_value_def)

lemma validate_type: "validate matches (JObj d) v path = [] \<Longrightarrow> matches_type (obj_get d ''type'') v"
  by (subst (asm) validate.simps) (simp add: Let_def del: matches_type.simps split: if_splits)

lemma validate_property:
  "validate matches (JObj d) (JObj ob) path = [] \<Longrightarrow> dict_get ob k = Some x \<Longrightarrow>
    (k, sub) \<in> set (obj_of (obj_get d ''properties'')) \<Longrightarrow> validate matches sub x (key_path path k) = []"
  by (subst (asm) validate.simps) (force simp: Let_def simp del: matches_type.simps split: if_splits)

lemma validate_row:
  "validate matches (JObj d) (JList xs) path = [] \<Longrightarrow> (i, x) \<in> set (enumerate 0 xs) \<Longrightarrow>
    validate matches (obj_get d ''items'') x (item_path path i) = []"
  by (subst (asm) validate.simps) (force simp: Let_def simp del: matches_type.simps split: if_splits)

lemma rewrite_keys_notes: "rewrite_keys f ps (d, ns) = (fst (rewrite_keys f ps (d, [])), ns @ snd (rewrite_keys f ps (d, [])))"
proof (induction ps arbitrary: d ns)
  case (Cons p ps)
  obtain k sub where p: "p = (k, sub)" by (cases p)
  show ?case
  proof (cases "dict_get d k")
    case (Some x)
    then show ?thesis
      using Cons [of "dict_set k (fst (f k sub x)) d" "ns @ snd (f k sub x)"]
        Cons [of "dict_set k (fst (f k sub x)) d" "snd (f k sub x)"]
      by (simp add: p)
  next
    case None
    then show ?thesis using Cons [of d ns] by (simp add: p)
  qed
qed simp

lemma dict_set_same: "dict_get d k = Some x \<Longrightarrow> dict_set k x d = d"
  by (induction d) (auto split: if_splits)

lemma rewrite_keys_same:
  assumes "\<And>k sub x. (k, sub) \<in> set ps \<Longrightarrow> dict_get d k = Some x \<Longrightarrow> f k sub x = (x, [])"
  shows "rewrite_keys f ps (d, []) = (d, [])"
  using assms
proof (induction ps)
  case (Cons p ps)
  then show ?case by (cases p) (auto simp: dict_set_same split: option.splits)
qed simp

lemma rewrite_keys_get:
  assumes "distinct (map fst ps)"
  shows "dict_get (fst (rewrite_keys f ps (d, ns))) k =
    (case (dict_get ps k, dict_get d k) of (Some sub, Some x) \<Rightarrow> Some (fst (f k sub x)) | _ \<Rightarrow> dict_get d k)"
  using assms
proof (induction ps arbitrary: d ns)
  case (Cons p ps)
  obtain k' sub where p: "p = (k', sub)" by (cases p)
  with Cons.prems have "dict_get ps k' = None" by (auto simp: dict_get_None)
  with Cons p show ?case by (auto split: option.splits)
qed simp

lemma coerce_types_object:
  assumes "typed_value loads d (JObj ob) = None"
  shows "coerce_types loads (JObj d) (JObj ob) path =
    apfst JObj (rewrite_keys (\<lambda>k sub x. coerce_types loads sub x (key_path path k)) (obj_of (obj_get d ''properties'')) (ob, []))"
  using assms by (subst coerce_types.simps) (simp add: or_same_def)

lemma coerce_types_list:
  assumes "typed_value loads d (JList xs) = None"
  shows "coerce_types loads (JObj d) (JList xs) path =
      (JList (map (\<lambda>(i, x). fst (coerce_types loads (obj_get d ''items'') x (item_path path i))) (enumerate 0 xs)),
       concat (map (\<lambda>(i, x). snd (coerce_types loads (obj_get d ''items'') x (item_path path i))) (enumerate 0 xs)))"
  using assms by (subst coerce_types.simps) (simp add: or_same_def)

lemma coerce_types_leaf:
  assumes "typed_value loads d v = None" and "\<not> is_obj v" and "\<not> is_list v"
  shows "coerce_types loads (JObj d) v path = (v, [])"
  using assms by (subst coerce_types.simps) (simp add: or_same_def is_obj_def is_list_def split: json.splits)

lemma coerce_types_parsed:
  assumes "typed_value loads d v = Some w"
  shows "coerce_types loads (JObj d) v path =
    (fst (coerce_types loads (JObj d) w path), typed_note d path # snd (coerce_types loads (JObj d) w path))"
proof -
  obtain s where "v = JStr s" using assms by (auto simp: typed_value_def split: json.splits)
  then have "typed_value loads d w = None \<and> \<not> is_text_json w"
    using assms by (auto simp: typed_value_def parse_as_def is_text_json_def Let_def split: json.splits if_splits option.splits)
  then show ?thesis
    using assms
    by (subst (1 2 3) coerce_types.simps) (simp add: or_same_def rewrite_keys_notes [where ns = "[typed_note d path]"] apfst_def split: json.splits)
qed

lemma coerce_types_other: "\<not> is_obj schema \<Longrightarrow> coerce_types loads schema v path = (v, [])"
  by (subst coerce_types.simps) (simp add: is_obj_def split: json.splits)

lemma value_forms:
  obtains (obj) ob where "v = JObj ob" | (items) xs where "v = JList xs" | (leaf) "\<not> is_obj v" "\<not> is_list v"
  by (cases v) (auto simp: is_obj_def is_list_def)

lemma map_enumerate_same: "(\<And>i x. (i, x) \<in> set (enumerate 0 xs) \<Longrightarrow> f (i, x) = x) \<Longrightarrow> map f (enumerate 0 xs) = xs"
  by (simp add: list_eq_iff_nth_eq nth_enumerate_eq in_set_enumerate_eq)

lemma valid_same: "validate matches schema v path = [] \<Longrightarrow> coerce_types loads schema v p = (v, [])"
proof (induction "size schema" arbitrary: schema v path p rule: less_induct)
  case less
  show ?case
  proof (cases "is_obj schema")
    case True
    then obtain d where d: "schema = JObj d" by (auto simp: is_obj_def split: json.splits)
    have none: "typed_value loads d v = None"
      using less.prems unfolding d by (rule typed_value_valid [OF validate_type])
    show ?thesis
    proof (cases v rule: value_forms)
      case (obj ob)
      have "coerce_types loads sub x q = (x, [])"
        if "(k, sub) \<in> set (obj_of (obj_get d ''properties''))" and "dict_get ob k = Some x" for k x sub q
        using less.hyps [OF _ validate_property] less.prems that size_part(1) unfolding d obj by blast
      then show ?thesis
        using none by (simp add: d obj coerce_types_object rewrite_keys_same)
    next
      case (items xs)
      have "coerce_types loads (obj_get d ''items'') x q = (x, [])" if "(i, x) \<in> set (enumerate 0 xs)" for i x q
        using less.hyps [OF _ validate_row] less.prems that size_obj_get unfolding d items by blast
      then show ?thesis
        using none by (auto simp: d items coerce_types_list intro!: map_enumerate_same)
    next
      case leaf
      then show ?thesis unfolding d by (rule coerce_types_leaf [OF none])
    qed
  qed (simp add: coerce_types_other)
qed

text \<open>A Python dictionary has each key once; this is what JSON text read into one gives.\<close>

fun unique_keys :: "json \<Rightarrow> bool" where
  "unique_keys (JObj d) = (distinct (map fst d) \<and> list_all (\<lambda>(k, x). unique_keys x) d)"
| "unique_keys (JList xs) = list_all unique_keys xs"
| "unique_keys v = True"

lemma unique_keys_get: "unique_keys (JObj d) \<Longrightarrow> unique_keys (obj_get d k)"
  by (auto simp: obj_get_def list_all_iff split: option.splits dest!: dict_get_Some_in)

lemma unique_keys_obj: "unique_keys v \<Longrightarrow> distinct (map fst (obj_of v))"
  by (cases v) (simp_all add: obj_of_def)

lemma unique_keys_sub: "unique_keys v \<Longrightarrow> (k, x) \<in> set (obj_of v) \<Longrightarrow> unique_keys x"
  by (cases v) (auto simp: obj_of_def list_all_iff)

lemma coerce_twice_plain:
  assumes IH: "\<And>sub x p q. size sub < size (JObj d) \<Longrightarrow> unique_keys sub \<Longrightarrow>
      coerce_types loads sub (fst (coerce_types loads sub x p)) q = (fst (coerce_types loads sub x p), [])"
    and unique: "unique_keys (JObj d)" and none: "typed_value loads d v = None"
  shows "coerce_types loads (JObj d) (fst (coerce_types loads (JObj d) v p)) q = (fst (coerce_types loads (JObj d) v p), [])"
proof (cases v rule: value_forms)
  case (obj ob)
  let ?ps = "obj_of (obj_get d ''properties'')"
  let ?f = "\<lambda>p k sub x. coerce_types loads sub x (key_path p k)"
  let ?r = "fst (rewrite_keys (?f p) ?ps (ob, []))"
  have ps: "distinct (map fst ?ps)" by (rule unique_keys_obj [OF unique_keys_get [OF unique]])
  have sub: "size sub < size (JObj d)" "unique_keys sub" if "(k, sub) \<in> set ?ps" for k sub
    using that size_part(1) unique_keys_sub [OF unique_keys_get [OF unique]] by auto
  have "rewrite_keys (?f q) ?ps (?r, []) = (?r, [])"
  proof (rule rewrite_keys_same)
    fix k sub x assume "(k, sub) \<in> set ?ps" and "dict_get ?r k = Some x"
    moreover from this obtain y where "x = fst (?f p k sub y)"
      using dict_get_in [OF ps] by (auto simp: rewrite_keys_get [OF ps] split: option.splits)
    ultimately show "?f q k sub x = (x, [])" using IH sub by simp
  qed
  moreover have "typed_value loads d (JObj ?r) = None" by (simp add: typed_value_def)
  ultimately show ?thesis using none by (simp add: obj coerce_types_object)
next
  case (items xs)
  let ?sub = "obj_get d ''items''"
  have IH': "coerce_types loads ?sub (fst (coerce_types loads ?sub x p)) q = (fst (coerce_types loads ?sub x p), [])" for x p q
    using IH size_obj_get unique_keys_get [OF unique] by blast
  have "typed_value loads d (JList ys) = None" for ys by (simp add: typed_value_def)
  then show ?thesis
    using none by (auto simp: items coerce_types_list IH' in_set_enumerate_eq nth_enumerate_eq intro!: map_enumerate_same)
next
  case leaf
  then show ?thesis using none by (simp add: coerce_types_leaf)
qed

lemma coerce_twice:
  "unique_keys schema \<Longrightarrow>
    coerce_types loads schema (fst (coerce_types loads schema v p)) q = (fst (coerce_types loads schema v p), [])"
proof (induction "size schema" arbitrary: schema v p q rule: less_induct)
  case less
  show ?case
  proof (cases "is_obj schema")
    case True
    then obtain d where d: "schema = JObj d" by (auto simp: is_obj_def split: json.splits)
    have plain: "coerce_types loads (JObj d) (fst (coerce_types loads (JObj d) w p)) q = (fst (coerce_types loads (JObj d) w p), [])"
      if "typed_value loads d w = None" for w
      using less that unfolding d by (intro coerce_twice_plain) auto
    show ?thesis
    proof (cases "typed_value loads d v")
      case (Some w)
      then have "typed_value loads d w = None"
        by (auto simp: typed_value_def parse_as_def Let_def split: json.splits if_splits option.splits)
      then show ?thesis using plain by (simp add: d coerce_types_parsed [OF Some])
    qed (simp add: d plain)
  qed (simp add: coerce_types_other)
qed

text \<open>
  C17. Arguments a tool's schema accepts are never converted: whatever text the values hold, the call the
  model sent is the call that is judged and run.
\<close>

theorem valid_arguments_are_untouched:
  assumes "validate_against matches schema v = []"
  shows "coerce_types loads schema v path = (v, [])"
  using assms unfolding validate_against_def by (rule valid_same)

definition sample_schema :: json where
  "sample_schema = JObj [(''type'', JStr ''object''),
     (''properties'', JObj [(''count'', JObj [(''type'', JStr ''integer'')]), (''label'', JObj [(''type'', JStr ''string'')])]),
     (''required'', JList [JStr ''count''])]"

theorem valid_arguments_witness:
  "coerce_types (\<lambda>s. Some JNull) sample_schema (JObj [(''count'', JInt 3), (''label'', JStr ''4'')]) ''$'' =
    (JObj [(''count'', JInt 3), (''label'', JStr ''4'')], [])"
proof (rule valid_arguments_are_untouched)
  show "validate_against (\<lambda>p s. Some True) sample_schema (JObj [(''count'', JInt 3), (''label'', JStr ''4'')]) = []"
    by code_simp
qed

text \<open>
  C0. Converting is settled after one pass: on a schema whose objects have each key once, coercing the
  result again changes nothing and has nothing more to say.
\<close>

theorem coercing_again_changes_nothing:
  assumes "unique_keys schema"
  shows "coerce_types loads schema (fst (coerce_types loads schema v p)) q = (fst (coerce_types loads schema v p), [])"
  using assms by (rule coerce_twice)

theorem coercing_again_witness:
  "let loads = (\<lambda>s. if s = ''3'' then Some (JInt 3) else None); v = JObj [(''count'', JStr '' 3 '')]
   in fst (coerce_types loads sample_schema v ''$'') = JObj [(''count'', JInt 3)] \<and>
      coerce_types loads sample_schema (JObj [(''count'', JInt 3)]) ''$'' = (JObj [(''count'', JInt 3)], [])"
proof -
  have "unique_keys sample_schema" by code_simp
  moreover have "fst (coerce_types (\<lambda>s. if s = ''3'' then Some (JInt 3) else None) sample_schema (JObj [(''count'', JStr '' 3 '')]) ''$'') =
      JObj [(''count'', JInt 3)]"
    by code_simp
  ultimately show ?thesis
    using coercing_again_changes_nothing
      [where loads = "\<lambda>s. if s = ''3'' then Some (JInt 3) else None" and v = "JObj [(''count'', JStr '' 3 '')]" and p = "''$''"]
    by (simp only: Let_def) metis
qed

section \<open>Keys that are dropped\<close>

lemma drop_empty_keys:
  assumes "drop_empty_optionals (JObj d) (JObj ob) = (JObj out, ns)"
  shows "map fst out = map fst (filter (\<lambda>e. \<not> empty_optional d ob e) ob)"
proof (cases "ns = []")
  case True
  have "filter (empty_optional d ob) ob = []" and "out = ob"
    using assms True by (auto simp: drop_empty_optionals.simps [of "JObj d"] Let_def split: if_splits)
  then have "filter (\<lambda>e. \<not> empty_optional d ob e) out = out"
    by (simp add: filter_empty_conv)
  with \<open>out = ob\<close> show ?thesis by simp
next
  case False
  then show ?thesis
    using assms by (auto simp: drop_empty_optionals.simps [of "JObj d"] Let_def case_prod_unfold comp_def split: if_splits)
qed

text \<open>
  C0. Only what a model left empty goes: a key that disappears held the empty text and is not required, and
  every alternative the call gave with real values is still given in full.
\<close>

theorem only_empty_optionals_go:
  assumes "drop_empty_optionals (JObj d) (JObj ob) = (JObj out, ns)"
  shows "(\<forall>k. given ob k \<and> \<not> given out k \<longrightarrow>
        dict_get ob k = Some (JStr []) \<and> k \<notin> set (texts_of (obj_get d ''required''))) \<and>
    (\<forall>k \<in> set (concat (given_alternatives d ob)). given out k)"
proof -
  have keys: "given out k \<longleftrightarrow> (\<exists>x. (k, x) \<in> set ob \<and> \<not> empty_optional d ob (k, x))" for k
  proof -
    have "given out k \<longleftrightarrow> k \<in> set (map fst out)" by (simp add: dict_get_None)
    then show ?thesis unfolding drop_empty_keys [OF assms] by force
  qed
  have gone: "dict_get ob k = Some (JStr []) \<and> k \<notin> set (texts_of (obj_get d ''required''))"
    if "given ob k" and "\<not> given out k" for k
  proof -
    from that(1) obtain x where x: "dict_get ob k = Some x" by auto
    with that(2) keys have "empty_optional d ob (k, x)" by (blast dest: dict_get_Some_in)
    with x show ?thesis by (simp add: empty_optional_def)
  qed
  have "given out k" if b: "k \<in> set (concat (given_alternatives d ob))" for k
  proof (rule ccontr)
    assume no: "\<not> given out k"
    have "\<not> is_blank (obj_get ob k)"
      using b by (auto simp: given_alternatives_def list_all_iff)
    then have "given ob k" "dict_get ob k \<noteq> Some (JStr [])"
      by (auto simp: is_blank_def obj_get_def split: option.splits)
    with gone no show False by blast
  qed
  with gone show ?thesis by blast
qed

definition patch_schema :: json where
  "patch_schema = JObj [(''properties'', JObj [(''path'', JObj []), (''files'', JObj []), (''note'', JObj [])]),
     (''oneOf'', JList [JObj [(''required'', JList [JStr ''path''])], JObj [(''required'', JList [JStr ''files''])]])]"

theorem only_empty_optionals_witness:
  "given [(''files'', JList [JInt 1])] ''files'' \<and>
   drop_empty_optionals patch_schema (JObj [(''path'', JStr []), (''files'', JList [JInt 1]), (''note'', JStr [])]) =
     (JObj [(''files'', JList [JInt 1])], [IgnoredEmpty [''note'', ''path'']])"
proof -
  let ?ob = "[(''path'', JStr []), (''files'', JList [JInt 1]), (''note'', JStr [])]"
  have run: "drop_empty_optionals (JObj (obj_of patch_schema)) (JObj ?ob) =
      (JObj [(''files'', JList [JInt 1])], [IgnoredEmpty [''note'', ''path'']])"
    by code_simp
  have "''files'' \<in> set (concat (given_alternatives (obj_of patch_schema) ?ob))" by code_simp
  with only_empty_optionals_go [OF run] run show ?thesis by (simp add: patch_schema_def obj_of_def)
qed

section \<open>Spellings that are rewritten\<close>

text \<open>The seconds a call asks for: the canonical key, or the only other spelling of it.\<close>

definition asked_seconds :: "arguments \<Rightarrow> rat option" where
  "asked_seconds args =
     (if given args ''timeout_s'' then number_of (obj_get args ''timeout_s'')
      else if given args ''timeout_ms'' \<and> given args ''timeout'' then None
      else if is_number (obj_get args ''timeout_ms'') then map_option (\<lambda>r. r / 1000) (number_of (obj_get args ''timeout_ms''))
      else if is_number (obj_get args ''timeout'') then number_of (obj_get args ''timeout'')
      else None)"

text \<open>The keys a rewriting of a shell call touches.\<close>

definition SHELL_KEYS :: "string list" where
  "SHELL_KEYS = [''timeout_s'', ''timeout_ms'', ''timeout'', ''command'']"

lemma SHELL_KEYS_mem [simp]: "''timeout_s'' \<in> set SHELL_KEYS" "''timeout_ms'' \<in> set SHELL_KEYS"
  "''timeout'' \<in> set SHELL_KEYS" "''command'' \<in> set SHELL_KEYS"
  by (simp_all add: SHELL_KEYS_def)

abbreviation apart_from :: "string list \<Rightarrow> arguments \<Rightarrow> arguments" where
  "apart_from ks \<equiv> filter (\<lambda>e. fst e \<notin> set ks)"

lemma number_seconds [simp]: "number_of (seconds r) = Some r"
proof (cases "is_whole r")
  case True
  obtain a b where q: "quotient_of r = (a, b)" by (cases "quotient_of r")
  with True have "b = 1" by (simp add: is_whole_def)
  with quotient_of_div [OF q] show ?thesis by (simp add: seconds_def is_whole_def q number_of_def)
qed (simp add: seconds_def number_of_def)

lemma obj_get_dict [simp]: "obj_get (dict_set k v d) k' = (if k' = k then v else obj_get d k')"
  "obj_get (dict_pop k d) k' = (if k' = k then JNull else obj_get d k')"
  by (simp_all add: obj_get_def)

lemma not_given [simp]: "dict_get d k = None \<Longrightarrow> obj_get d k = JNull"
  by (simp add: obj_get_def)

lemma is_number_simps [simp]: "\<not> is_number JNull" "is_number (seconds r)"
  by (simp_all add: is_number_def seconds_def)

lemma apart_set: "k \<in> set ks \<Longrightarrow> apart_from ks (dict_set k v d) = apart_from ks d"
  by (induction d) auto

lemma apart_pop: "k \<in> set ks \<Longrightarrow> apart_from ks (dict_pop k d) = apart_from ks d"
  by (auto simp: dict_pop_def case_prod_unfold intro: filter_cong)

lemma timeout_cases:
  obtains (same) "timeout_seconds args = (args, [])"
    | (rewritten) key r where "key \<in> {''timeout_ms'', ''timeout''}" and "\<not> given args ''timeout_s''" and
        "asked_seconds args = Some r" and
        "timeout_seconds args = (dict_set ''timeout_s'' (seconds r) (dict_pop key args), [UsedTimeout (seconds r) key (obj_get args key)])"
proof -
  have num: "\<exists>r. number_of v = Some r" if "is_number v" for v
    using that by (auto simp: is_number_def number_of_def split: json.splits)
  show ?thesis
  proof (cases "timeout_seconds args = (args, [])")
    case False
    have no: "\<not> given args ''timeout_s''" using False by (cases "given args ''timeout_s''") (simp_all add: timeout_seconds_def Let_def)
    show ?thesis
    proof (cases "given args ''timeout_ms''")
      case True
      with False have "\<not> given args ''timeout''" and "is_number (obj_get args ''timeout_ms'')"
        by (auto simp: timeout_seconds_def Let_def split: if_splits)
      with no True num show ?thesis
        by (intro rewritten [of "''timeout_ms''"]) (auto simp: timeout_seconds_def asked_seconds_def Let_def)
    next
      case no_ms: False
      with False have "given args ''timeout''" and "is_number (obj_get args ''timeout'')"
        by (auto simp: timeout_seconds_def Let_def split: if_splits)
      with no no_ms num show ?thesis
        by (intro rewritten [of "''timeout''"]) (auto simp: timeout_seconds_def asked_seconds_def Let_def)
    qed
  qed (rule same)
qed

lemma timeout_again: "timeout_seconds (fst (timeout_seconds args)) = (fst (timeout_seconds args), [])"
  by (cases args rule: timeout_cases) (auto simp: timeout_seconds_def Let_def)

lemma timeout_unchanged:
  assumes "\<And>k. k \<in> {''timeout_s'', ''timeout_ms'', ''timeout''} \<Longrightarrow> dict_get b k = dict_get a k"
    and "timeout_seconds a = (a, [])"
  shows "timeout_seconds b = (b, [])"
proof -
  have "given b k = given a k \<and> obj_get b k = obj_get a k" if "k \<in> {''timeout_s'', ''timeout_ms'', ''timeout''}" for k
    using assms(1) [OF that] by (simp add: obj_get_def)
  with assms(2) show ?thesis by (simp add: timeout_seconds_def Let_def split: if_splits)
qed

lemma runs_argv_pop [simp]: "k \<noteq> ''argv'' \<Longrightarrow> runs_argv (dict_pop k args) = runs_argv args"
  "k \<noteq> ''argv'' \<Longrightarrow> runs_argv (dict_set k v args) = runs_argv args"
  by (simp_all add: runs_argv_def)

lemma timeout_keeps:
  "dict_get (fst (timeout_seconds args)) k = dict_get args k \<or> k \<in> {''timeout_s'', ''timeout_ms'', ''timeout''}"
  "runs_argv (fst (timeout_seconds args)) = runs_argv args"
  "apart_from SHELL_KEYS (fst (timeout_seconds args)) =
    apart_from SHELL_KEYS args"
  "asked_seconds (fst (timeout_seconds args)) = asked_seconds args"
proof -
  show "runs_argv (fst (timeout_seconds args)) = runs_argv args"
    by (cases args rule: timeout_cases) auto
  show "apart_from SHELL_KEYS (fst (timeout_seconds args)) =
      apart_from SHELL_KEYS args"
    by (cases args rule: timeout_cases) (auto simp: apart_set apart_pop)
  show "asked_seconds (fst (timeout_seconds args)) = asked_seconds args"
    by (cases args rule: timeout_cases) (auto simp: asked_seconds_def [of "dict_set _ _ _"])
qed (cases args rule: timeout_cases; auto)

lemma argv_cases:
  obtains (same) "argv_over_command args = (args, [])" and "\<not> given args ''command'' \<or> \<not> runs_argv args"
    | (literal) "argv_over_command args = (dict_pop ''command'' args, [RanArgv])" and "given args ''command''" and "runs_argv args"
  by (cases "given args ''command'' \<and> runs_argv args") (auto simp: argv_over_command_def)

lemma argv_again: "argv_over_command (fst (argv_over_command args)) = (fst (argv_over_command args), [])"
  by (cases args rule: argv_cases) (simp_all add: argv_over_command_def)

lemma argv_keeps:
  "dict_get (fst (argv_over_command args)) k = dict_get args k \<or> k = ''command''"
  "given (fst (argv_over_command args)) ''command'' = (given args ''command'' \<and> \<not> runs_argv args)"
  "apart_from SHELL_KEYS (fst (argv_over_command args)) =
    apart_from SHELL_KEYS args"
  by (cases args rule: argv_cases; auto simp: apart_pop)+

lemma shell_exec_again: "shell_exec (fst (shell_exec args)) = (fst (shell_exec args), [])"
proof -
  let ?a = "fst (timeout_seconds args)" let ?b = "fst (argv_over_command ?a)"
  have "dict_get ?b k = dict_get ?a k" if "k \<in> {''timeout_s'', ''timeout_ms'', ''timeout''}" for k
    using argv_keeps(1) [of ?a k] that by auto
  then have "timeout_seconds ?b = (?b, [])" using timeout_again by (rule timeout_unchanged)
  with argv_again [of ?a] show ?thesis by (simp add: shell_exec_def case_prod_unfold Let_def)
qed

text \<open>
  C16. Rewriting the spelling of a shell call keeps what it asks for: the same number of seconds, every other
  key with its value in its place, the literal form instead of the command line when both were sent; and a
  rewritten call needs no second rewriting.
\<close>

theorem shell_spelling_keeps_the_call:
  "asked_seconds (fst (shell_exec args)) = asked_seconds args \<and>
   apart_from SHELL_KEYS (fst (shell_exec args)) =
     apart_from SHELL_KEYS args \<and>
   given (fst (shell_exec args)) ''command'' = (given args ''command'' \<and> \<not> runs_argv args) \<and>
   shell_exec (fst (shell_exec args)) = (fst (shell_exec args), [])"
proof -
  let ?a = "fst (timeout_seconds args)"
  have eq: "fst (shell_exec args) = fst (argv_over_command ?a)" by (simp add: shell_exec_def case_prod_unfold Let_def)
  have same: "dict_get (fst (argv_over_command ?a)) k = dict_get ?a k" if "k \<noteq> ''command''" for k
    using argv_keeps(1) [of ?a k] that by auto
  then have "asked_seconds (fst (argv_over_command ?a)) = asked_seconds ?a"
    by (simp add: asked_seconds_def obj_get_def)
  moreover have "dict_get ?a ''command'' = dict_get args ''command''" using timeout_keeps(1) [of args "''command''"] by auto
  ultimately show ?thesis
    using shell_exec_again [of args] argv_keeps(2) [of ?a] by (simp add: eq timeout_keeps(2-4) argv_keeps(3))
qed

lemma edits_again: "edits_as_list loads (fst (edits_as_list loads args)) = (fst (edits_as_list loads args), [])"
proof -
  have "edits_as_list loads args = (args, []) \<or> (\<exists>xs. edits_as_list loads args = (dict_set ''edits'' (JList xs) args, [EditsAsList]))"
    by (auto simp: edits_as_list_def split: json.splits option.splits)
  then show ?thesis
  proof
    assume "\<exists>xs. edits_as_list loads args = (dict_set ''edits'' (JList xs) args, [EditsAsList])"
    then obtain xs where "edits_as_list loads args = (dict_set ''edits'' (JList xs) args, [EditsAsList])" ..
    moreover have "edits_as_list loads (dict_set ''edits'' (JList xs) args) = (dict_set ''edits'' (JList xs) args, [])"
      by (simp add: edits_as_list_def)
    ultimately show ?thesis by simp
  qed simp
qed

lemma edits_unchanged:
  "obj_get b ''edits'' = obj_get a ''edits'' \<Longrightarrow> edits_as_list loads a = (a, []) \<Longrightarrow> edits_as_list loads b = (b, [])"
  by (auto simp: edits_as_list_def split: json.splits option.splits)

lemma dict_get_filter: "(\<And>v. P (k, v)) \<Longrightarrow> dict_get (filter P d) k = dict_get d k"
  by (induction d) (auto split: if_splits)

lemma dict_get_filter_out: "(\<And>v. \<not> P (k, v)) \<Longrightarrow> dict_get (filter P d) k = None"
  by (induction d) auto

lemma move_hash_get: "k \<notin> {''files'', ''expected_hash''} \<Longrightarrow> dict_get (move_hash d) k = dict_get d k"
  by (auto simp: move_hash_def split: option.splits list.splits)

text \<open>What no further rewriting of a patch call touches.\<close>

lemma fs_patch_settled:
  assumes "edits_as_list loads args = (args, [])" and "\<not> one_file_form args" and "\<not> both_forms args"
  shows "fs_patch loads normal args = (args, [])"
  using assms by (auto simp: fs_patch_def)

lemma both_forms_settled:
  assumes "edits_as_list loads args = (args, [])"
  shows "fs_patch loads normal (fst (patch_both_forms normal args ns)) = (fst (patch_both_forms normal args ns), [])"
proof -
  let ?k = "filter (\<lambda>(k, _). k \<notin> set PATCH_SIMPLE_FORM) args"
  have "dict_get (move_hash ?k) k = None" if "k \<in> set PATCH_SIMPLE_FORM" for k
  proof -
    have "dict_get (move_hash ?k) k = dict_get ?k k" using that by (intro move_hash_get) (auto simp: PATCH_SIMPLE_FORM_def)
    then show ?thesis using that by (simp add: dict_get_filter_out)
  qed
  then have none: "\<not> both_forms (move_hash ?k)" "\<not> one_file_form (move_hash ?k)"
    by (auto simp: both_forms_def one_file_form_def list_ex_iff PATCH_SIMPLE_FORM_def)
  have "dict_get (move_hash ?k) ''edits'' = dict_get args ''edits''"
    by (simp add: move_hash_get dict_get_filter PATCH_SIMPLE_FORM_def)
  then have "edits_as_list loads (move_hash ?k) = (move_hash ?k, [])"
    using edits_unchanged [OF _ assms] by (simp add: obj_get_def)
  with none show ?thesis by (simp add: patch_both_forms_def Let_def fs_patch_settled)
qed

lemma fs_patch_again: "fs_patch loads normal (fst (fs_patch loads normal args)) = (fst (fs_patch loads normal args), [])"
proof -
  obtain a ns where e: "edits_as_list loads args = (a, ns)" by fastforce
  have a: "edits_as_list loads a = (a, [])" using edits_again [of loads args] e by simp
  consider "both_forms a" | "\<not> both_forms a" "\<not> one_file_form a" | "\<not> both_forms a" "one_file_form a" by blast
  then show ?thesis
  proof cases
    case 1
    then show ?thesis using both_forms_settled [OF a] by (simp add: fs_patch_def e)
  next
    case 2
    then show ?thesis using fs_patch_settled [OF a] by (simp add: fs_patch_def e)
  next
    case 3
    have "fs_patch loads normal [(''files'', v)] = ([(''files'', v)], [])" for v
      by (rule fs_patch_settled)
        (simp_all add: edits_as_list_def one_file_form_def both_forms_def PATCH_SIMPLE_FORM_def obj_get_def)
    with 3 show ?thesis by (simp add: fs_patch_def [of _ _ args] e)
  qed
qed

lemma use_line_same: "\<not> (given args variant \<and> \<not> given args canonical) \<Longrightarrow> use_line (variant, canonical) (args, ns) = (args, ns)"
  by (auto simp: use_line_def)

lemma use_line_get: "k \<notin> {variant, canonical} \<Longrightarrow> dict_get (fst (use_line (variant, canonical) st)) k = dict_get (fst st) k"
  by (cases st) (auto simp: use_line_def)

lemma use_line_once:
  assumes "variant \<noteq> canonical"
  shows "\<not> (given (fst (use_line (variant, canonical) st)) variant \<and> \<not> given (fst (use_line (variant, canonical) st)) canonical)"
  using assms by (cases st) (auto simp: use_line_def)

lemma fs_read_lines_again: "fs_read_lines (fst (fs_read_lines args)) = (fst (fs_read_lines args), [])"
proof -
  let ?s = "use_line (''start_line'', ''start'') (args, [])" let ?e = "use_line (''end_line'', ''end'') ?s"
  have "\<not> (given (fst ?e) ''end_line'' \<and> \<not> given (fst ?e) ''end'')" by (rule use_line_once) simp
  moreover have "\<not> (given (fst ?e) ''start_line'' \<and> \<not> given (fst ?e) ''start'')"
    using use_line_once [of "''start_line''" "''start''" "(args, [])"] by (simp add: use_line_get)
  ultimately show ?thesis by (simp add: fs_read_lines_def use_line_same)
qed

end
