(* ===== verification/Tool_Execution.thy ===== *)
theory Tool_Execution
  imports Tool_Arguments
begin

text \<open>
  A tool call from its name to its result (\<^verbatim>\<open>src/src/rinari/tools/runtime.py\<close>, \<open>execute\<close>, \<open>prepare\<close>,
  \<open>_execute_authorized\<close> and what they call): which tool a name means, the receipts of calls that carry
  a \<open>request_id\<close>, the arguments the policy will judge, and the attempts of the handler with the check
  of its output.

  The handler, the clock and the cancellation token are functions of the attempt, the fingerprint of
  the arguments (SHA-256 of their JSON) is a parameter. Redaction, spilling of large output, events,
  durations and the \<open>source_id\<close> a web result is given are left out. Permission to run is the subject of \<open>Tool_Authorization\<close>.
\<close>

section \<open>Results\<close>

datatype tool_error_code =
    INVALID_ARGUMENT | NOT_FOUND | ALREADY_EXISTS | PERMISSION_DENIED | AUTH_REQUIRED | AUTH_EXPIRED | RATE_LIMITED
  | TIMEOUT | NETWORK_ERROR | DEPENDENCY_ERROR | CONFLICT | RESOURCE_EXHAUSTED | SANDBOX_VIOLATION | POLICY_DENIED
  | APPROVAL_REQUIRED | APPROVAL_DENIED | CANCELLED_CODE | PARTIAL_FAILURE | VALIDATION_FAILED | TOOL_NOT_FOUND
  | CONTENT_BINARY | UNSUPPORTED | UNKNOWN_CODE

record tool_error =
  te_code :: tool_error_code
  te_retryable :: bool

record tool_output =
  to_ok :: bool
  to_data :: json
  to_error :: "tool_error option"

definition failed :: "tool_error_code \<Rightarrow> tool_output" where
  "failed code = \<lparr>to_ok = False, to_data = JNull, to_error = Some \<lparr>te_code = code, te_retryable = False\<rparr>\<rparr>"

definition has_code :: "tool_error_code \<Rightarrow> tool_output \<Rightarrow> bool" where
  "has_code code r = (case to_error r of Some e \<Rightarrow> te_code e = code | None \<Rightarrow> False)"

section \<open>Tools\<close>

text \<open>What the runtime reads of a \<open>ToolDefinition\<close>.\<close>

record tool_definition =
  td_name :: string
  td_input_schema :: json
  td_output_schema :: "json option"
  td_side_effects :: string
  td_idempotent :: bool
  td_timeout_ms :: nat
  td_has_handler :: bool
  td_normalize :: "(arguments \<Rightarrow> refused + arguments \<times> arg_note list) option"
  td_source :: string
  td_supports_request_id :: bool

definition DYNAMIC_SOURCES :: "string list" where
  "DYNAMIC_SOURCES = [''plugin'', ''mcp'', ''openapi'']"

definition is_dynamic :: "tool_definition \<Rightarrow> bool" where
  "is_dynamic t = (td_source t \<in> set DYNAMIC_SOURCES)"

text \<open>\<open>str.casefold\<close> up to U+00FF: \<open>lower\<close>, and the sharp s as two letters.\<close>

definition casefold :: "string \<Rightarrow> string" where
  "casefold s = concat (map (\<lambda>c. if cp c = 223 then ''ss'' else [lower_char c]) s)"

definition tool_key :: "string \<Rightarrow> string" where
  "tool_key name = casefold (map (\<lambda>c. if c = CHR ''.'' \<or> c = CHR ''-'' then CHR ''_'' else c) name)"

definition resolve_tool_name :: "string \<Rightarrow> string list \<Rightarrow> string option" where
  "resolve_tool_name name names =
     (case filter (\<lambda>candidate. tool_key candidate = tool_key name) names of [x] \<Rightarrow> Some x | _ \<Rightarrow> None)"

text \<open>\<open>ToolRegistry\<close>: a name stays with the source that registered it; native tools with side effects
  accept a \<open>request_id\<close>. \<open>contract\<close> is the table of output schemas (\<open>output_contracts.py\<close>).\<close>

record tool_registry =
  reg_tools :: "(string \<times> tool_definition) list"
  reg_hidden :: "string list"

datatype registry_error = NameCollision string

definition REQUEST_NAMESPACES :: "string list" where
  "REQUEST_NAMESPACES =
     [''fs'', ''shell'', ''process'', ''pty'', ''browser'', ''memory'', ''context'', ''agent'', ''skills'', ''verify'']"

definition request_id_schema :: json where
  "request_id_schema = JObj [(''type'', JStr ''string''), (''minLength'', JInt 1), (''maxLength'', JInt 128),
     (''description'', JStr (''Optional deduplication key; reuse only for the same operation '' @
        ''in this live runtime (last 256 requests).''))]"

definition with_contract :: "(string \<Rightarrow> json option) \<Rightarrow> tool_definition \<Rightarrow> tool_definition" where
  "with_contract contract t =
     (if td_output_schema t = None \<and> \<not> is_dynamic t then t\<lparr>td_output_schema := contract (td_name t)\<rparr> else t)"

definition with_request_id :: "tool_definition \<Rightarrow> tool_definition" where
  "with_request_id t =
     (if td_side_effects t \<noteq> ''none'' \<and> hd (split_on CHR ''.'' (td_name t)) \<in> set REQUEST_NAMESPACES \<and> \<not> is_dynamic t
      then
        (let d = obj_of (td_input_schema t) in
         t\<lparr>td_input_schema := JObj (dict_set ''properties''
              (JObj (dict_set ''request_id'' request_id_schema (obj_of (obj_get d ''properties'')))) d),
           td_supports_request_id := True\<rparr>)
      else t)"

definition register_tool ::
  "(string \<Rightarrow> json option) \<Rightarrow> tool_definition \<Rightarrow> tool_registry \<Rightarrow> registry_error + tool_registry" where
  "register_tool contract t reg =
     (case dict_get (reg_tools reg) (td_name t) of
        Some p \<Rightarrow> if td_source p \<noteq> td_source t then Inl (NameCollision (td_name t))
                 else Inr (reg\<lparr>reg_tools := dict_set (td_name t) (with_request_id (with_contract contract t)) (reg_tools reg)\<rparr>)
      | None \<Rightarrow> Inr (reg\<lparr>reg_tools := dict_set (td_name t) (with_request_id (with_contract contract t)) (reg_tools reg)\<rparr>))"

text \<open>In \<open>register_all\<close> the tools before a collision stay; \<open>replace_where\<close> skips a colliding tool.\<close>

definition or_unchanged :: "tool_registry \<Rightarrow> registry_error + tool_registry \<Rightarrow> tool_registry" where
  "or_unchanged reg x = (case x of Inl e \<Rightarrow> reg | Inr r \<Rightarrow> r)"

fun register_all ::
  "(string \<Rightarrow> json option) \<Rightarrow> tool_definition list \<Rightarrow> tool_registry \<Rightarrow> tool_registry \<times> registry_error option" where
  "register_all contract [] reg = (reg, None)"
| "register_all contract (t # ts) reg =
     (case register_tool contract t reg of
        Inl e \<Rightarrow> (reg, Some e) | Inr reg' \<Rightarrow> register_all contract ts reg')"

definition replace_where ::
  "(string \<Rightarrow> json option) \<Rightarrow> (tool_definition \<Rightarrow> bool) \<Rightarrow> tool_definition list \<Rightarrow> tool_registry \<Rightarrow> tool_registry" where
  "replace_where contract match ts reg =
     fold (\<lambda>t reg. or_unchanged reg (register_tool contract t reg)) ts
       (reg\<lparr>reg_tools := filter (\<lambda>(n, t). \<not> match t) (reg_tools reg)\<rparr>)"

definition reg_get :: "tool_registry \<Rightarrow> string \<Rightarrow> tool_definition option" where
  "reg_get reg name = (if name \<in> set (reg_hidden reg) then None else dict_get (reg_tools reg) name)"

definition reg_names :: "tool_registry \<Rightarrow> string list" where
  "reg_names reg = sort (filter (\<lambda>n. n \<notin> set (reg_hidden reg)) (map fst (reg_tools reg)))"

text \<open>The tool a call means: the registered one, or the only one its name spells.\<close>

definition find_tool :: "tool_registry \<Rightarrow> string \<Rightarrow> tool_definition option" where
  "find_tool reg name =
     (case reg_get reg name of
        Some t \<Rightarrow> Some t
      | None \<Rightarrow> (case resolve_tool_name name (reg_names reg) of Some n \<Rightarrow> reg_get reg n | None \<Rightarrow> None))"

section \<open>The arguments the policy judges\<close>

datatype argument_error = Refused refused | UnknownArguments "string list" "string list" | Invalid "violation list"

definition unknown_arguments :: "json \<Rightarrow> arguments \<Rightarrow> string list" where
  "unknown_arguments schema args =
     (case declared_properties schema of None \<Rightarrow> [] | Some names \<Rightarrow> filter (\<lambda>k. k \<notin> set names) (map fst args))"

text \<open>Before validation: empty optional keys, spellings, values sent as text. A dynamic tool keeps its own contract.\<close>

definition canonical_arguments ::
  "(string \<Rightarrow> json option) \<Rightarrow> tool_definition \<Rightarrow> arguments \<Rightarrow> refused + json \<times> arg_note list" where
  "canonical_arguments loads t args =
     (let (v1, notes1) = (if is_dynamic t then (JObj args, []) else drop_empty_optionals (td_input_schema t) (JObj args)) in
      bindE (case td_normalize t of
               Some f \<Rightarrow> if is_dynamic t then Inr (obj_of v1, []) else f (obj_of v1)
             | None \<Rightarrow> Inr (obj_of v1, []))
        (\<lambda>(args2, notes2).
           let (v3, notes3) = coerce_types loads (td_input_schema t) (JObj args2) ''$''
           in Inr (v3, notes1 @ notes2 @ notes3)))"

definition checked_arguments :: "(string \<Rightarrow> string \<Rightarrow> bool option) \<Rightarrow> tool_definition \<Rightarrow> json \<Rightarrow> argument_error + arguments" where
  "checked_arguments matches t v =
     (let unknown = (if is_dynamic t then [] else unknown_arguments (td_input_schema t) (obj_of v));
          errors = validate_against matches (td_input_schema t) v
      in if unknown \<noteq> [] then
           Inl (UnknownArguments unknown
             (case declared_properties (td_input_schema t) of Some names \<Rightarrow> sort (remdups names) | None \<Rightarrow> []))
         else if errors \<noteq> [] then Inl (Invalid (take 5 errors))
         else Inr (obj_of v))"

definition prepare_arguments ::
  "(string \<Rightarrow> json option) \<Rightarrow> (string \<Rightarrow> string \<Rightarrow> bool option) \<Rightarrow> tool_definition \<Rightarrow> arguments \<Rightarrow>
     argument_error + arguments \<times> arg_note list" where
  "prepare_arguments loads matches t args =
     (case canonical_arguments loads t args of
        Inl r \<Rightarrow> Inl (Refused r)
      | Inr (v, notes) \<Rightarrow> (case checked_arguments matches t v of Inl e \<Rightarrow> Inl e | Inr a \<Rightarrow> Inr (a, notes)))"

section \<open>The attempts of a handler\<close>

definition RETRYABLE_CODES :: "tool_error_code list" where
  "RETRYABLE_CODES = [NETWORK_ERROR, RATE_LIMITED]"

definition retryable_result :: "tool_definition \<Rightarrow> tool_output \<Rightarrow> bool" where
  "retryable_result t r =
     (if \<not> td_idempotent t then False
      else if td_name t = ''http.request'' then False
      else if td_side_effects t \<noteq> ''none'' then False
      else (case to_error r of Some e \<Rightarrow> te_retryable e \<and> te_code e \<in> set RETRYABLE_CODES | None \<Rightarrow> False))"

definition call_deadline :: "tool_definition \<Rightarrow> rat option \<Rightarrow> rat \<Rightarrow> rat option" where
  "call_deadline t turn now =
     (if td_timeout_ms t = 0 then turn
      else (let own = now + of_nat (td_timeout_ms t) / 1000 in
            Some (case turn of Some d \<Rightarrow> min own d | None \<Rightarrow> own)))"

text \<open>The contract of the output: of an MCP tool it describes \<open>structuredContent\<close>, and readable text still
  reaches the model, with a warning.\<close>

definition readable_texts :: "(string \<times> json) list \<Rightarrow> string list" where
  "readable_texts data =
     filter (\<lambda>s. strip s \<noteq> []) (List.map_filter (\<lambda>item. case obj_get (obj_of item) ''text'' of JStr s \<Rightarrow> Some s | _ \<Rightarrow> None)
       (list_of (obj_get data ''content'')))"

definition output_errors :: "(string \<Rightarrow> string \<Rightarrow> bool option) \<Rightarrow> tool_definition \<Rightarrow> json \<Rightarrow> tool_output \<Rightarrow> bool" where
  "output_errors matches t schema r =
     (if td_source t = ''mcp'' then
        obj_get (obj_of (to_data r)) ''structuredContent'' = JNull \<or>
        validate_against matches schema (obj_get (obj_of (to_data r)) ''structuredContent'') \<noteq> []
      else validate_against matches schema (to_data r) \<noteq> [])"

definition check_output_schema ::
  "(string \<Rightarrow> string \<Rightarrow> bool option) \<Rightarrow> string \<Rightarrow> tool_definition \<Rightarrow> tool_output \<Rightarrow> tool_output" where
  "check_output_schema matches warning t r =
     (case td_output_schema t of
        None \<Rightarrow> r
      | Some schema \<Rightarrow>
          if \<not> truthy schema \<or> \<not> output_errors matches t schema r then r
          else if td_source t = ''mcp'' \<and> readable_texts (obj_of (to_data r)) \<noteq> []
          then r\<lparr>to_data := JObj (dict_set ''schema_warning'' (JStr warning) (obj_of (to_data r)))\<rparr>
          else failed VALIDATION_FAILED)"

datatype interrupted = Cancelled

text \<open>What happens around attempt \<open>n\<close>: whether the turn was cancelled before it, the time, what the handler returns.\<close>

record attempt_env =
  ae_cancelled :: "nat \<Rightarrow> bool"
  ae_time :: "nat \<Rightarrow> rat"
  ae_handler :: "nat \<Rightarrow> tool_output"

text \<open>The results of the handler calls made, and the outcome.\<close>

fun attempt_loop ::
  "(string \<Rightarrow> string \<Rightarrow> bool option) \<Rightarrow> string \<Rightarrow> tool_definition \<Rightarrow> rat option \<Rightarrow> attempt_env \<Rightarrow> nat \<Rightarrow> nat \<Rightarrow>
     nat list \<times> (interrupted + tool_output)" where
  "attempt_loop matches warning t deadline env n left =
     (if (case deadline of Some d \<Rightarrow> d \<le> ae_time env n | None \<Rightarrow> False) then ([], Inr (failed TIMEOUT))
      else
        (let r0 = ae_handler env n;
             r = (if to_ok r0 then check_output_schema matches warning t r0 else r0)
         in if to_ok r \<or> \<not> retryable_result t r then ([n], Inr r)
            else
              (case left of
                 0 \<Rightarrow> ([n], Inr r)
               | Suc l \<Rightarrow>
                   if ae_cancelled env (Suc n) then ([n], Inl Cancelled)
                   else apfst (Cons n) (attempt_loop matches warning t deadline env (Suc n) l))))"

declare attempt_loop.simps [simp del]

definition execute_authorized ::
  "(string \<Rightarrow> string \<Rightarrow> bool option) \<Rightarrow> string \<Rightarrow> tool_definition \<Rightarrow> rat option \<Rightarrow> rat \<Rightarrow> attempt_env \<Rightarrow>
     nat list \<times> (interrupted + tool_output)" where
  "execute_authorized matches warning t turn now env =
     (if ae_cancelled env 1 then ([], Inl Cancelled)
      else attempt_loop matches warning t (call_deadline t turn now) env 1 (if td_idempotent t then 1 else 0))"

section \<open>Receipts\<close>

text \<open>The results of calls with a \<open>request_id\<close>, oldest first, under session, folder, name and identifier.\<close>

type_synonym receipt_key = "string \<times> string \<times> string \<times> string"
type_synonym receipts = "(receipt_key \<times> string \<times> tool_output) list"

definition MAX_RECEIPTS :: nat where "MAX_RECEIPTS = 256"

definition keep_receipt :: "receipt_key \<Rightarrow> string \<Rightarrow> tool_output \<Rightarrow> receipts \<Rightarrow> receipts" where
  "keep_receipt key fingerprint r rs =
     (let rs1 = (if has_code INVALID_ARGUMENT r then rs else dict_set key (fingerprint, r) rs)
      in if MAX_RECEIPTS < length rs1 then drop 1 rs1 else rs1)"

text \<open>\<open>run\<close> is \<open>_execute_inner\<close> on the arguments without the identifier. The flag says whether it was called.\<close>

definition receipt_call ::
  "receipt_key \<Rightarrow> string \<Rightarrow> interrupted + tool_output \<Rightarrow> receipts \<Rightarrow> bool \<times> (interrupted + tool_output) \<times> receipts" where
  "receipt_call key fingerprint run rs =
     (case dict_get rs key of
        Some (old, r) \<Rightarrow> (False, Inr (if old = fingerprint then r else failed CONFLICT), rs)
      | None \<Rightarrow> (True, run, case run of Inr r \<Rightarrow> keep_receipt key fingerprint r rs | Inl e \<Rightarrow> rs))"

record call_place =
  cpl_session :: string
  cpl_cwd :: string

text \<open>
  \<open>execute\<close>: the calls it makes to \<open>inner\<close> (\<open>_execute_inner\<close>), the result, the receipts. A call the
  coordinator has prepared already, to run beside others, looks at no receipt.
\<close>

definition execute_call ::
  "(arguments \<Rightarrow> string) \<Rightarrow> tool_registry \<Rightarrow> call_place \<Rightarrow> (string \<Rightarrow> arguments \<Rightarrow> interrupted + tool_output) \<Rightarrow>
     (interrupted + tool_output) option \<Rightarrow> string \<Rightarrow> arguments \<Rightarrow> receipts \<Rightarrow>
     (string \<times> arguments) list \<times> (interrupted + tool_output) \<times> receipts" where
  "execute_call sha reg place inner prepared name args rs =
     (let request_id = obj_get args ''request_id'' in
      case prepared of
        Some r \<Rightarrow> ([], r, rs)
      | None \<Rightarrow>
          if truthy request_id \<and> (case request_id of JStr s \<Rightarrow> 128 < length s | _ \<Rightarrow> True)
          then ([], Inr (failed INVALID_ARGUMENT), rs)
          else
            (case (request_id, find_tool reg name) of
               (JStr rid, Some t) \<Rightarrow>
                 if rid \<noteq> [] \<and> td_supports_request_id t then
                   (let clean = dict_pop ''request_id'' args;
                        (ran, r, rs') = receipt_call (cpl_session place, cpl_cwd place, name, rid) (sha clean) (inner name clean) rs
                    in (if ran then [(name, clean)] else [], r, rs'))
                 else ([(name, args)], inner name args, rs)
             | _ \<Rightarrow> ([(name, args)], inner name args, rs)))"

section \<open>How often a handler runs\<close>

text \<open>Attempt \<open>n\<close> started in time, and the call goes on to the next one only after a transient failure.\<close>

definition started_in_time :: "rat option \<Rightarrow> attempt_env \<Rightarrow> nat \<Rightarrow> bool" where
  "started_in_time deadline env n = (case deadline of Some d \<Rightarrow> ae_time env n < d | None \<Rightarrow> True)"

definition transient_failure :: "tool_definition \<Rightarrow> tool_output \<Rightarrow> bool" where
  "transient_failure t r =
     (td_idempotent t \<and> td_side_effects t = ''none'' \<and> td_name t \<noteq> ''http.request'' \<and> \<not> to_ok r \<and>
      (case to_error r of Some e \<Rightarrow> te_retryable e \<and> te_code e \<in> {NETWORK_ERROR, RATE_LIMITED} | None \<Rightarrow> False))"

lemma check_output_fails: "\<not> to_ok (check_output_schema matches warning t r) \<Longrightarrow> to_ok r \<Longrightarrow>
    check_output_schema matches warning t r = failed VALIDATION_FAILED"
  by (auto simp: check_output_schema_def split: option.splits if_splits)

lemma retryable_transient: "retryable_result t r \<Longrightarrow> \<not> to_ok r \<Longrightarrow> transient_failure t r"
  by (auto simp: retryable_result_def transient_failure_def RETRYABLE_CODES_def split: if_splits option.splits)

lemma failed_not_retryable: "\<not> retryable_result t (failed code)"
  by (simp add: retryable_result_def failed_def)

lemma attempt_again:
  assumes "fst (attempt_loop matches warning t deadline env n left) = i # j # ns"
  shows "i = n \<and> (\<exists>l. left = Suc l \<and> fst (attempt_loop matches warning t deadline env (Suc n) l) = j # ns) \<and>
    transient_failure t (ae_handler env n) \<and> \<not> ae_cancelled env (Suc n)"
proof -
  let ?raw = "ae_handler env n"
  let ?r = "if to_ok ?raw then check_output_schema matches warning t ?raw else ?raw"
  have go: "\<not> to_ok ?r" "retryable_result t ?r"
    using assms by (subst (asm) attempt_loop.simps, auto simp: Let_def split: if_splits option.splits nat.splits)+
  then have "\<not> to_ok ?raw" using check_output_fails failed_not_retryable by (metis (full_types))
  with go have "transient_failure t ?raw" using retryable_transient [of t ?r] by simp
  moreover have "i = n \<and> (\<exists>l. left = Suc l \<and> fst (attempt_loop matches warning t deadline env (Suc n) l) = j # ns) \<and> \<not> ae_cancelled env (Suc n)"
    using assms by (subst (asm) attempt_loop.simps) (auto simp: Let_def split: if_splits option.splits nat.splits)
  ultimately show ?thesis by simp
qed

lemma attempts_in_time:
  "m \<in> set (fst (attempt_loop matches warning t deadline env n left)) \<Longrightarrow> started_in_time deadline env m"
proof (induction left arbitrary: n)
  case 0
  then show ?case
    by (subst (asm) attempt_loop.simps) (auto simp: Let_def started_in_time_def split: if_splits option.splits)
next
  case (Suc left)
  from Suc.prems have "m = n \<and> started_in_time deadline env n \<or> m \<in> set (fst (attempt_loop matches warning t deadline env (Suc n) left))"
    by (subst (asm) attempt_loop.simps) (auto simp: Let_def started_in_time_def split: if_splits option.splits)
  with Suc.IH show ?case by blast
qed

lemma attempt_last: "\<exists>i. fst (attempt_loop matches warning t deadline env n 0) \<in> {[], [n]}"
  by (subst attempt_loop.simps) (auto simp: Let_def)

text \<open>
  C15. A handler runs again only when that is harmless: a second attempt is made only for an idempotent tool
  without side effects whose first attempt failed for a transient reason, before the deadline and not after a
  cancellation, and there is never a third.
\<close>

theorem second_attempt_is_harmless:
  assumes "fst (execute_authorized matches warning t turn now env) = i # j # ns"
  shows "i = 1 \<and> j = 2 \<and> ns = [] \<and> transient_failure t (ae_handler env 1) \<and>
    \<not> ae_cancelled env 1 \<and> \<not> ae_cancelled env 2 \<and>
    started_in_time (call_deadline t turn now) env 1 \<and> started_in_time (call_deadline t turn now) env 2"
proof -
  let ?loop = "\<lambda>n l. fst (attempt_loop matches warning t (call_deadline t turn now) env n l)"
  have c: "\<not> ae_cancelled env 1" and run: "?loop 1 (if td_idempotent t then 1 else 0) = i # j # ns"
    using assms by (auto simp: execute_authorized_def split: if_splits)
  obtain l where l: "i = 1" "(if td_idempotent t then 1 else 0) = Suc l" "?loop 2 l = j # ns"
    "transient_failure t (ae_handler env 1)" "\<not> ae_cancelled env 2"
    using attempt_again [OF run] by (auto simp: numeral_2_eq_2)
  then have "l = 0" by (auto split: if_splits)
  then have "j = 2" "ns = []"
    using l(3) attempt_last [of matches warning t "call_deadline t turn now" env 2] by auto
  moreover have "started_in_time (call_deadline t turn now) env m" if "m \<in> {i, j}" for m
    using run that by (intro attempts_in_time [of _ matches warning t _ _ 1 "if td_idempotent t then 1 else 0"]) auto
  ultimately show ?thesis using c l by simp
qed

definition sample_definition :: tool_definition where
  "sample_definition = \<lparr>td_name = ''web.fetch'', td_input_schema = JObj [], td_output_schema = None, td_side_effects = ''none'',
     td_idempotent = True, td_timeout_ms = 1000, td_has_handler = True, td_normalize = None, td_source = ''native'',
     td_supports_request_id = False\<rparr>"

definition flaky :: attempt_env where
  "flaky = \<lparr>ae_cancelled = \<lambda>_. False, ae_time = of_nat,
     ae_handler = \<lambda>n. if n = 1 then \<lparr>to_ok = False, to_data = JNull, to_error = Some \<lparr>te_code = NETWORK_ERROR, te_retryable = True\<rparr>\<rparr>
                      else \<lparr>to_ok = True, to_data = JNull, to_error = None\<rparr>\<rparr>"

theorem second_attempt_witness:
  "fst (execute_authorized (\<lambda>p s. None) [] sample_definition None 10 flaky) = [1, 2] \<and> transient_failure sample_definition (ae_handler flaky 1)"
proof -
  have run: "fst (execute_authorized (\<lambda>p s. None) [] sample_definition None 10 flaky) = [1, 2]"
    by (simp add: execute_authorized_def attempt_loop.simps flaky_def sample_definition_def call_deadline_def
        check_output_schema_def retryable_result_def RETRYABLE_CODES_def numeral_2_eq_2)
  from second_attempt_is_harmless [OF this] run show ?thesis by simp
qed

section \<open>A request runs once\<close>

text \<open>A receipt with at most \<open>j\<close> newer ones.\<close>

definition held :: "nat \<Rightarrow> receipt_key \<Rightarrow> string \<times> tool_output \<Rightarrow> receipts \<Rightarrow> bool" where
  "held j key v rs = (\<exists>pre post. rs = pre @ (key, v) # post \<and> length post \<le> j \<and> key \<notin> fst ` set pre)"

lemma dict_get_append: "dict_get (xs @ ys) k = (case dict_get xs k of Some v \<Rightarrow> Some v | None \<Rightarrow> dict_get ys k)"
  by (induction xs) auto

lemma dict_set_new: "dict_get d k = None \<Longrightarrow> dict_set k v d = d @ [(k, v)]"
  by (induction d) (auto split: if_splits)

lemma held_get: "held j key v rs \<Longrightarrow> dict_get rs key = Some v"
  by (auto simp: held_def dict_get_append dict_get_None [THEN iffD2])

lemma held_mono: "held i key v rs \<Longrightarrow> i \<le> j \<Longrightarrow> held j key v rs"
  by (fastforce simp: held_def)

lemma keep_receipt_held:
  assumes "held j key v rs" and "j + 2 \<le> MAX_RECEIPTS" and "dict_get rs k = None"
  shows "held (Suc j) key v (keep_receipt k fp r rs)"
proof (cases "has_code INVALID_ARGUMENT r \<and> length rs \<le> MAX_RECEIPTS")
  case True
  then have "keep_receipt k fp r rs = rs" by (simp add: keep_receipt_def)
  with held_mono [OF assms(1), of "Suc j"] show ?thesis by simp
next
  case False
  obtain pre post where rs: "rs = pre @ (key, v) # post" "length post \<le> j" "key \<notin> fst ` set pre"
    using assms(1) by (auto simp: held_def)
  let ?post = "if has_code INVALID_ARGUMENT r then post else post @ [(k, fp, r)]"
  let ?rs = "pre @ (key, v) # ?post"
  have keep: "keep_receipt k fp r rs = (if MAX_RECEIPTS < length ?rs then drop 1 ?rs else ?rs)"
    using dict_set_new [OF assms(3)] by (simp add: keep_receipt_def rs(1) Let_def)
  have len: "length ?post \<le> Suc j" using rs(2) by simp
  show ?thesis
  proof (cases pre)
    case Nil
    then have "length ?rs \<le> MAX_RECEIPTS" using len assms(2) by simp
    with keep have "keep_receipt k fp r rs = ?rs" by simp
    with len Nil show ?thesis unfolding held_def by (intro exI [of _ "[]"] exI [of _ ?post]) simp
  next
    case (Cons p ps)
    then have "key \<notin> fst ` set ps" using rs(3) by simp
    moreover have "keep_receipt k fp r rs = ?rs \<or> keep_receipt k fp r rs = ps @ (key, v) # ?post"
      using keep Cons by simp
    ultimately show ?thesis
      using len rs(3) unfolding held_def by blast
  qed
qed

text \<open>A call: the registry and the place it is made in, how the runtime would run it, its name and arguments.\<close>

type_synonym sent_call =
  "tool_registry \<times> call_place \<times> (string \<Rightarrow> arguments \<Rightarrow> interrupted + tool_output) \<times> (interrupted + tool_output) option \<times> string \<times> arguments"

definition after_call :: "(arguments \<Rightarrow> string) \<Rightarrow> sent_call \<Rightarrow> receipts \<Rightarrow> receipts" where
  "after_call sha c rs = (case c of (reg, place, inner, prepared, name, args) \<Rightarrow>
     snd (snd (execute_call sha reg place inner prepared name args rs)))"

lemma after_call_forms:
  "after_call sha c rs = rs \<or> (\<exists>k fp r. dict_get rs k = None \<and> after_call sha c rs = keep_receipt k fp r rs)"
proof (cases c)
  case (fields reg place inner prepared name args)
  have "snd (snd (receipt_call k fp run rs)) = rs \<or>
      dict_get rs k = None \<and> (\<exists>r. snd (snd (receipt_call k fp run rs)) = keep_receipt k fp r rs)" for k fp run
    by (auto simp: receipt_call_def split: option.splits sum.splits)
  moreover have "after_call sha c rs = rs \<or> (\<exists>k fp run. after_call sha c rs = snd (snd (receipt_call k fp run rs)))"
    unfolding fields
    by (auto simp: after_call_def execute_call_def Let_def case_prod_unfold split: option.splits json.splits) blast
  ultimately show ?thesis by metis
qed

lemma held_run: "held j key v rs \<Longrightarrow> j + length cs < MAX_RECEIPTS \<Longrightarrow> held (j + length cs) key v (fold (after_call sha) cs rs)"
proof (induction cs arbitrary: j rs)
  case (Cons c cs)
  have "held (Suc j) key v (after_call sha c rs)"
    using after_call_forms [of sha c rs] held_mono [OF Cons.prems(1), of "Suc j"] keep_receipt_held [OF Cons.prems(1)] Cons.prems(2)
    by fastforce
  with Cons show ?case by fastforce
qed simp

lemma kept_is_held: "dict_get rs k = None \<Longrightarrow> \<not> has_code INVALID_ARGUMENT r \<Longrightarrow> held 0 k (fp, r) (keep_receipt k fp r rs)"
proof -
  assume new: "dict_get rs k = None" and ok: "\<not> has_code INVALID_ARGUMENT r"
  have "fst ` set (drop i rs) \<subseteq> fst ` set rs" for i by (intro image_mono set_drop_subset)
  with new have none: "k \<notin> fst ` set (drop i rs)" for i unfolding dict_get_None by blast
  show ?thesis
  proof (cases "MAX_RECEIPTS < Suc (length rs)")
    case True
    then have "rs \<noteq> []" by (auto simp: MAX_RECEIPTS_def)
    with True show ?thesis
      using ok none [of 1] unfolding held_def
      by (intro exI [of _ "drop 1 rs"] exI [of _ "[]"]) (simp add: keep_receipt_def dict_set_new [OF new] drop_append Suc_le_eq)
  next
    case False
    then show ?thesis
      using ok none [of 0] unfolding held_def
      by (intro exI [of _ rs] exI [of _ "[]"]) (simp add: keep_receipt_def dict_set_new [OF new])
  qed
qed

text \<open>What a call answers: the calls it makes to the tool, and the result.\<close>

definition answer :: "(arguments \<Rightarrow> string) \<Rightarrow> sent_call \<Rightarrow> receipts \<Rightarrow> (string \<times> arguments) list \<times> (interrupted + tool_output)" where
  "answer sha c rs = (case c of (reg, place, inner, prepared, name, args) \<Rightarrow>
     (let (ran, r, rs') = execute_call sha reg place inner prepared name args rs in (ran, r)))"

lemma keyed_call:
  assumes "find_tool reg name = Some t" and "td_supports_request_id t" and "obj_get args ''request_id'' = JStr rid"
    and "rid \<noteq> []" and "length rid \<le> 128"
  shows "execute_call sha reg place inner None name args rs =
    (let (ran, r, rs') = receipt_call (cpl_session place, cpl_cwd place, name, rid) (sha (dict_pop ''request_id'' args))
           (inner name (dict_pop ''request_id'' args)) rs
     in (if ran then [(name, dict_pop ''request_id'' args)] else [], r, rs'))"
  using assms by (simp add: execute_call_def Let_def)


definition write_tool :: tool_definition where
  "write_tool = \<lparr>td_name = ''fs.write'', td_input_schema = JObj [], td_output_schema = None, td_side_effects = ''local'',
     td_idempotent = False, td_timeout_ms = 1000, td_has_handler = True, td_normalize = None, td_source = ''native'',
     td_supports_request_id = True\<rparr>"

definition write_registry :: tool_registry where
  "write_registry = \<lparr>reg_tools = [(''fs.write'', write_tool)], reg_hidden = []\<rparr>"

definition written :: tool_output where
  "written = \<lparr>to_ok = True, to_data = JNull, to_error = None\<rparr>"

definition write_call :: "string \<Rightarrow> sent_call" where
  "write_call name = (write_registry, \<lparr>cpl_session = ''s'', cpl_cwd = ''w''\<rparr>, (\<lambda>n a. Inr written), None, name, [(''request_id'', JStr ''r1'')])"

lemma write_tool_found:
  "find_tool write_registry ''fs.write'' = Some write_tool" "find_tool write_registry ''fs_write'' = Some write_tool"
  by (simp_all add: find_tool_def reg_get_def reg_names_def write_registry_def resolve_tool_name_def tool_key_def casefold_def lower_char_def)


text \<open>
  The receipt is kept under the name as it was sent, although \<open>fs_write\<close> means the tool \<open>fs.write\<close>: the same
  request sent again under the other spelling runs a second time.
\<close>

theorem other_spelling_runs_again:
  "answer (\<lambda>a. []) (write_call ''fs_write'') (after_call (\<lambda>a. []) (write_call ''fs.write'') []) = ([(''fs_write'', [])], Inr written)"
  by (simp add: answer_def after_call_def write_call_def execute_call_def Let_def write_tool_found receipt_call_def obj_get_def
      write_tool_def dict_pop_def keep_receipt_def has_code_def written_def MAX_RECEIPTS_def)

section \<open>Names and their sources\<close>

lemma with_fields [simp]: "td_name (with_contract c t) = td_name t" "td_source (with_contract c t) = td_source t"
  "td_name (with_request_id t) = td_name t" "td_source (with_request_id t) = td_source t"
  by (simp_all add: with_contract_def with_request_id_def Let_def)

datatype tools_op = RegisterAll "tool_definition list" | ReplaceSource string "tool_definition list"

text \<open>A live source replaces the tools it had: the selection is its own source.\<close>

fun tools_step :: "(string \<Rightarrow> json option) \<Rightarrow> tools_op \<Rightarrow> tool_registry \<Rightarrow> tool_registry" where
  "tools_step contract (RegisterAll ts) reg = fst (register_all contract ts reg)"
| "tools_step contract (ReplaceSource src ts) reg = replace_where contract (\<lambda>t. td_source t = src) ts reg"

definition keeps_tool :: "string \<Rightarrow> string \<Rightarrow> tool_registry \<Rightarrow> bool" where
  "keeps_tool n src reg = (\<exists>t. dict_get (reg_tools reg) n = Some t \<and> td_source t = src \<and> td_name t = n)"

lemma register_keeps_tool: "keeps_tool n src reg \<Longrightarrow> register_tool contract t reg = Inr reg' \<Longrightarrow> keeps_tool n src reg'"
  by (auto simp: keeps_tool_def register_tool_def split: option.splits if_splits)

lemma register_all_keeps: "keeps_tool n src reg \<Longrightarrow> keeps_tool n src (fst (register_all contract ts reg))"
  by (induction ts arbitrary: reg) (auto split: sum.splits dest: register_keeps_tool)

lemma replace_keeps: "keeps_tool n src reg \<Longrightarrow> other \<noteq> src \<Longrightarrow> keeps_tool n src (replace_where contract (\<lambda>t. td_source t = other) ts reg)"
proof -
  assume start: "keeps_tool n src reg" "other \<noteq> src"
  have "dict_get (filter (\<lambda>(n, t). td_source t \<noteq> other) d) n = Some t"
    if "dict_get d n = Some t" "td_source t \<noteq> other" for d t
    using that by (induction d) (auto split: if_splits)
  with start have "keeps_tool n src (reg\<lparr>reg_tools := filter (\<lambda>(n, t). td_source t \<noteq> other) (reg_tools reg)\<rparr>)"
    by (auto simp: keeps_tool_def)
  moreover have "keeps_tool n src (fold (\<lambda>t reg. or_unchanged reg (register_tool contract t reg)) ts r)"
    if "keeps_tool n src r" for r
    using that
  proof (induction ts arbitrary: r)
    case (Cons t ts)
    then show ?case
      by (cases "register_tool contract t r") (auto simp: or_unchanged_def dest: register_keeps_tool)
  qed simp
  ultimately show ?thesis by (simp add: replace_where_def case_prod_unfold)
qed

definition not_by :: "string \<Rightarrow> tools_op \<Rightarrow> bool" where
  "not_by src x = (case x of ReplaceSource s ts \<Rightarrow> s \<noteq> src | RegisterAll ts \<Rightarrow> True)"

interpretation kept_name: invariant_steps "tools_step contract" "not_by src" "keeps_tool n src" for contract src n
proof unfold_locales
  fix s x assume "keeps_tool n src s" "not_by src x"
  then show "keeps_tool n src (tools_step contract x s)"
    by (cases x) (auto simp: not_by_def register_all_keeps replace_keeps)
qed

text \<open>
  C0. No source takes over a tool of another: once a source has registered a name, whatever is registered or
  replaced by others afterwards, the name still means a tool of that source.
\<close>

theorem names_stay_with_their_source:
  assumes "register_tool contract t reg = Inr reg'" and "list_all (not_by (td_source t)) ops"
  shows "keeps_tool (td_name t) (td_source t) (fold (tools_step contract) ops reg')"
proof (rule kept_name.run_inv [OF _ assms(2)])
  show "keeps_tool (td_name t) (td_source t) reg'"
    using assms(1) by (auto simp: keeps_tool_def register_tool_def split: option.splits if_splits)
qed

theorem names_stay_witness:
  "let reg = \<lparr>reg_tools = [], reg_hidden = []\<rparr>; forged = write_tool\<lparr>td_source := ''mcp''\<rparr>
   in keeps_tool ''fs.write'' ''native''
        (fold (tools_step (\<lambda>n. None)) [RegisterAll [forged], ReplaceSource ''mcp'' [forged]]
          (or_unchanged reg (register_tool (\<lambda>n. None) write_tool reg)))"
proof -
  let ?reg = "\<lparr>reg_tools = [], reg_hidden = []\<rparr>"
  have run: "register_tool (\<lambda>n. None) write_tool ?reg = Inr (or_unchanged ?reg (register_tool (\<lambda>n. None) write_tool ?reg))"
    by (simp add: register_tool_def or_unchanged_def)
  have ok: "list_all (not_by ''native'') [RegisterAll [write_tool\<lparr>td_source := ''mcp''\<rparr>], ReplaceSource ''mcp'' [write_tool\<lparr>td_source := ''mcp''\<rparr>]]"
    by (simp add: not_by_def)
  have "td_source write_tool = ''native''" "td_name write_tool = ''fs.write''" by (simp_all add: write_tool_def)
  then show ?thesis
    using names_stay_with_their_source [OF run, unfolded \<open>td_source write_tool = ''native''\<close>, OF ok] by (simp only: Let_def)
qed

end
