(* ===== verification/Tool_Call.thy ===== *)
theory Tool_Call
  imports Tool_Authorization Tool_Execution
begin

text \<open>
  A tool call as a whole (\<^verbatim>\<open>src/src/rinari/tools/runtime.py\<close>, \<open>prepare\<close> and the closure it returns): the tool
  its name means, the arguments made canonical and checked, the actions they stand for judged and
  approved, and only then the handler, on those arguments and under the sandbox that was granted. It puts
  together \<open>Tool_Arguments\<close>, \<open>Tool_Execution\<close> and \<open>Tool_Authorization\<close>.

  Parameters of a tool: \<open>classify\<close> (\<open>classify_actions\<close>, its exceptions left), its \<open>precheck\<close>, and its risk and
  server as the policy sees them (\<open>called\<close>); \<open>snapshot\<close> is the URL behind a \<open>source_id\<close>.
  The note that a name was spelled differently is left out.
\<close>

section \<open>Preparing a call\<close>

record tool_hooks =
  th_classify :: "arguments \<Rightarrow> string + ClassifiedAction list"
  th_precheck :: "arguments \<Rightarrow> string option"
  th_risk :: string
  th_server :: "string option"

definition called :: "tool_definition \<Rightarrow> tool_hooks \<Rightarrow> called_tool" where
  "called t h = \<lparr>ct_name = td_name t, ct_risk = th_risk h, ct_side_effects = td_side_effects t, ct_server = th_server h\<rparr>"

datatype call_error =
  UnknownTool | NoHandler | SnapshotExpired | BadArguments argument_error | Unclassified string | NotAuthorised auth_error

text \<open>The code of the result the model gets.\<close>

fun code_of :: "call_error \<Rightarrow> tool_error_code option" where
  "code_of UnknownTool = Some TOOL_NOT_FOUND"
| "code_of NoHandler = Some UNKNOWN_CODE"
| "code_of SnapshotExpired = Some NOT_FOUND"
| "code_of (BadArguments e) = Some INVALID_ARGUMENT"
| "code_of (Unclassified e) = Some INVALID_ARGUMENT"
| "code_of (NotAuthorised (PolicyDenied e)) = Some POLICY_DENIED"
| "code_of (NotAuthorised (ApprovalDenied e)) = Some APPROVAL_DENIED"
| "code_of (NotAuthorised e) = None"

text \<open>The page behind a \<open>source_id\<close> of a web tool.\<close>

definition with_snapshot :: "(json \<Rightarrow> string option) \<Rightarrow> string \<Rightarrow> arguments \<Rightarrow> call_error + arguments" where
  "with_snapshot snapshot name args =
     (if startswith name ''web.'' \<and> truthy (obj_get args ''source_id'') then
        (case snapshot (obj_get args ''source_id'') of
           None \<Rightarrow> Inl SnapshotExpired | Some url \<Rightarrow> Inr (dict_set ''url'' (JStr url) args))
      else Inr args)"

text \<open>The services a call goes through.\<close>

record call_services =
  cs_policy :: policy_env
  cs_network :: NetworkPolicy
  cs_paths :: paths
  cs_owner :: owner
  cs_loads :: "string \<Rightarrow> json option"
  cs_matches :: "string \<Rightarrow> string \<Rightarrow> bool option"
  cs_snapshot :: "json \<Rightarrow> string option"
  cs_hooks :: "tool_definition \<Rightarrow> tool_hooks"

definition judge_call ::
  "call_services \<Rightarrow> tool_context \<Rightarrow> TurnState \<Rightarrow> tool_definition \<Rightarrow> arguments \<Rightarrow> approvals \<Rightarrow>
     (call_error + ClassifiedAction list \<times> string list \<times> FilesystemSandbox) \<times> approvals" where
  "judge_call sv c ts t args s =
     (case th_classify (cs_hooks sv t) args of
        Inl e \<Rightarrow> (Inl (Unclassified e), s)
      | Inr acts \<Rightarrow>
          (case authorize (cs_policy sv) (cs_network sv) (cs_paths sv) (cs_owner sv)
                  (\<lambda>_. th_precheck (cs_hooks sv t) args) (called t (cs_hooks sv t)) c ts acts s of
             (Inl e, s') \<Rightarrow> (Inl (NotAuthorised e), s')
           | (Inr (approved, sb), s') \<Rightarrow> (Inr (acts, approved, sb), s')))"

record prepared_call =
  pc_tool :: tool_definition
  pc_arguments :: arguments
  pc_notes :: "arg_note list"
  pc_actions :: "ClassifiedAction list"
  pc_approved :: "string list"
  pc_sandbox :: FilesystemSandbox

definition prepare_call ::
  "call_services \<Rightarrow> tool_registry \<Rightarrow> tool_context \<Rightarrow> TurnState \<Rightarrow> string \<Rightarrow> arguments \<Rightarrow> approvals \<Rightarrow>
     (call_error + prepared_call) \<times> approvals" where
  "prepare_call sv reg c ts name args s =
     (case find_tool reg name of
        None \<Rightarrow> (Inl UnknownTool, s)
      | Some t \<Rightarrow>
          if \<not> td_has_handler t then (Inl NoHandler, s)
          else
            (case with_snapshot (cs_snapshot sv) (td_name t) args of
               Inl e \<Rightarrow> (Inl e, s)
             | Inr args1 \<Rightarrow>
                 (case prepare_arguments (cs_loads sv) (cs_matches sv) t args1 of
                    Inl e \<Rightarrow> (Inl (BadArguments e), s)
                  | Inr (args2, ns) \<Rightarrow>
                      (case judge_call sv c ts t args2 s of
                         (Inl e, s') \<Rightarrow> (Inl e, s')
                       | (Inr (acts, approved, sb), s') \<Rightarrow>
                           (Inr \<lparr>pc_tool = t, pc_arguments = args2, pc_notes = ns, pc_actions = acts,
                                 pc_approved = approved, pc_sandbox = sb\<rparr>, s')))))"

section \<open>Running it\<close>

text \<open>
  The handler is a function of its arguments, the sandbox of the call and the attempt. Whatever came back,
  a call that read outside content marks the turn.
\<close>

type_synonym handler = "tool_definition \<Rightarrow> arguments \<Rightarrow> FilesystemSandbox \<Rightarrow> nat \<Rightarrow> tool_output"

record turn_clock =
  tk_cancelled :: "nat \<Rightarrow> bool"
  tk_time :: "nat \<Rightarrow> rat"
  tk_now :: rat
  tk_deadline :: "rat option"

definition run_prepared ::
  "call_services \<Rightarrow> handler \<Rightarrow> turn_clock \<Rightarrow> string \<Rightarrow> prepared_call \<Rightarrow> TurnState \<Rightarrow>
     nat list \<times> (interrupted + tool_output) \<times> TurnState" where
  "run_prepared sv h tk warning p ts =
     (let t = pc_tool p;
          (made, r) = execute_authorized (cs_matches sv) warning t (tk_deadline tk) (tk_now tk)
            \<lparr>ae_cancelled = tk_cancelled tk, ae_time = tk_time tk, ae_handler = h t (pc_arguments p) (pc_sandbox p)\<rparr>
      in (made, r, mark_sources (cs_policy sv) (cs_network sv) (called t (cs_hooks sv t)) (pc_actions p) ts))"

definition tool_call_result ::
  "call_services \<Rightarrow> tool_registry \<Rightarrow> handler \<Rightarrow> turn_clock \<Rightarrow> string \<Rightarrow> tool_context \<Rightarrow> string \<Rightarrow> arguments \<Rightarrow>
     TurnState \<times> approvals \<Rightarrow> (call_error + nat list \<times> (interrupted + tool_output)) \<times> TurnState \<times> approvals" where
  "tool_call_result sv reg h tk warning c name args st =
     (case prepare_call sv reg c (fst st) name args (snd st) of
        (Inl e, s') \<Rightarrow> (Inl e, fst st, s')
      | (Inr p, s') \<Rightarrow>
          (case run_prepared sv h tk warning p (fst st) of (made, r, ts') \<Rightarrow> (Inr (made, r), ts', s')))"

section \<open>What runs is what was judged\<close>

lemma coerced_object: "is_obj (fst (coerce_types loads schema (JObj ob) path))"
  by (subst coerce_types.simps) (auto simp: or_same_def typed_value_def is_obj_def apfst_def split: json.split)

lemma is_obj_of: "is_obj v \<Longrightarrow> JObj (obj_of v) = v"
  by (cases v) (simp_all add: is_obj_def obj_of_def)

lemma prepare_arguments_checked:
  assumes "prepare_arguments loads matches t args = Inr (args', ns)"
  shows "validate_against matches (td_input_schema t) (JObj args') = [] \<and>
    (is_dynamic t \<or> unknown_arguments (td_input_schema t) args' = [])"
proof -
  obtain v where v: "canonical_arguments loads t args = Inr (v, ns)" "checked_arguments matches t v = Inr args'"
    using assms by (auto simp: prepare_arguments_def split: sum.splits)
  have "is_obj v"
    using v(1) coerced_object by (auto simp: canonical_arguments_def Let_def case_prod_unfold)
  then show ?thesis
    using v(2) by (auto simp: checked_arguments_def Let_def is_obj_of split: if_splits)
qed

text \<open>The policy let one action through, by itself or after the owner's word.\<close>

definition judged :: "call_services \<Rightarrow> tool_context \<Rightarrow> TurnState \<Rightarrow> called_tool \<Rightarrow> string list \<Rightarrow> ClassifiedAction \<Rightarrow> bool" where
  "judged sv c ts t approved a =
     (\<exists>d. decide (cs_policy sv) (cs_network sv) (ca_capability a) (action_scope (cs_policy sv) c ts a) (action_request_of t a) = Inr d \<and>
       (pd_action d = ALLOW \<or> pd_action d = ASK \<and> pd_reason d \<in> set approved))"

lemma authorize_judged:
  "authorize (cs_policy sv) (cs_network sv) (cs_paths sv) (cs_owner sv) pre t c ts as s = (Inr (approved, sb), s') \<Longrightarrow>
    list_all (judged sv c ts t approved) as"
  by (force simp: authorize_def judged_def list_all_iff split: if_splits option.splits dest!: authorize_actions_granted)

lemma prepare_call_facts:
  assumes "prepare_call sv reg c ts name args s = (Inr p, s')"
  shows "find_tool reg name = Some (pc_tool p) \<and>
    th_classify (cs_hooks sv (pc_tool p)) (pc_arguments p) = Inr (pc_actions p) \<and>
    authorize (cs_policy sv) (cs_network sv) (cs_paths sv) (cs_owner sv) (\<lambda>_. th_precheck (cs_hooks sv (pc_tool p)) (pc_arguments p))
      (called (pc_tool p) (cs_hooks sv (pc_tool p))) c ts (pc_actions p) s = (Inr (pc_approved p, pc_sandbox p), s') \<and>
    list_all (judged sv c ts (called (pc_tool p) (cs_hooks sv (pc_tool p))) (pc_approved p)) (pc_actions p) \<and>
    validate_against (cs_matches sv) (td_input_schema (pc_tool p)) (JObj (pc_arguments p)) = [] \<and>
    (is_dynamic (pc_tool p) \<or> unknown_arguments (td_input_schema (pc_tool p)) (pc_arguments p) = [])"
proof -
  obtain t args1 args2 ns acts approved sb where t: "find_tool reg name = Some t"
    and a: "prepare_arguments (cs_loads sv) (cs_matches sv) t args1 = Inr (args2, ns)"
    and j: "judge_call sv c ts t args2 s = (Inr (acts, approved, sb), s')"
    and p: "p = \<lparr>pc_tool = t, pc_arguments = args2, pc_notes = ns, pc_actions = acts, pc_approved = approved, pc_sandbox = sb\<rparr>"
    using assms by (auto simp: prepare_call_def split: option.splits if_splits sum.splits prod.splits)
  from j have "th_classify (cs_hooks sv t) args2 = Inr acts"
    and "authorize (cs_policy sv) (cs_network sv) (cs_paths sv) (cs_owner sv) (\<lambda>_. th_precheck (cs_hooks sv t) args2)
      (called t (cs_hooks sv t)) c ts acts s = (Inr (approved, sb), s')"
    and "list_all (judged sv c ts (called t (cs_hooks sv t)) approved) acts"
    by (auto simp: judge_call_def split: sum.splits prod.splits dest: authorize_judged)
  with t p prepare_arguments_checked [OF a] show ?thesis by simp
qed


definition sample_write_tool :: tool_definition where
  "sample_write_tool = \<lparr>td_name = ''t'',
     td_input_schema = JObj [(''properties'', JObj [(''path'', JObj [(''type'', JStr ''string'')]), (''note'', JObj [])])],
     td_output_schema = None, td_side_effects = ''local'', td_idempotent = False, td_timeout_ms = 0, td_has_handler = True,
     td_normalize = None, td_source = ''native'', td_supports_request_id = False\<rparr>"

definition sample_hooks :: tool_hooks where
  "sample_hooks = \<lparr>th_classify = \<lambda>args. (case obj_get args ''path'' of JStr p \<Rightarrow> Inr [bare_action ''fs.write'' p None] | _ \<Rightarrow> Inl []),
     th_precheck = \<lambda>args. None, th_risk = ''low'', th_server = None\<rparr>"

definition sample_services :: call_services where
  "sample_services = \<lparr>cs_policy = sample_policy_env, cs_network = sample_network, cs_paths = sample_paths, cs_owner = sample_owner,
     cs_loads = \<lambda>s. None, cs_matches = \<lambda>p s. None, cs_snapshot = \<lambda>j. None, cs_hooks = \<lambda>t. sample_hooks\<rparr>"

definition sample_clock :: turn_clock where
  "sample_clock = \<lparr>tk_cancelled = \<lambda>n. False, tk_time = \<lambda>n. 0, tk_now = 0, tk_deadline = None\<rparr>"

definition sample_arguments :: arguments where
  "sample_arguments = [(''path'', JStr ''/x/a''), (''note'', JStr [])]"

abbreviation sample_result :: "(call_error + nat list \<times> (interrupted + tool_output)) \<times> TurnState \<times> approvals" where
  "sample_result \<equiv> tool_call_result sample_services \<lparr>reg_tools = [(''t'', sample_write_tool)], reg_hidden = []\<rparr>
     (\<lambda>t args sb n. written) sample_clock [] sample_context ''t'' sample_arguments (fresh_turn, fresh_engine)"

lemma sample_prepared:
  "prepare_arguments (\<lambda>s. None) (\<lambda>p s. None) sample_write_tool sample_arguments = Inr ([(''path'', JStr ''/x/a'')], [IgnoredEmpty [''note'']])"
  by code_simp

lemma sample_runs: "fst sample_result = Inr ([1], Inr written)"
proof -
  have called: "called sample_write_tool sample_hooks = sample_tool"
    by (simp add: called_def sample_write_tool_def sample_hooks_def sample_tool_def)
  have tool: "td_has_handler sample_write_tool" "td_name sample_write_tool = ''t''"
    by (simp_all add: sample_write_tool_def)
  have found: "find_tool \<lparr>reg_tools = [(''t'', sample_write_tool)], reg_hidden = []\<rparr> ''t'' = Some sample_write_tool"
    by (simp add: find_tool_def reg_get_def)
  have run: "execute_authorized (\<lambda>p s. None) [] sample_write_tool None 0
      \<lparr>ae_cancelled = \<lambda>n. False, ae_time = \<lambda>n. 0, ae_handler = \<lambda>n. written\<rparr> = ([1], Inr written)"
    by (simp add: execute_authorized_def attempt_loop.simps call_deadline_def sample_write_tool_def check_output_schema_def written_def)
  obtain r s' where r: "sample_call (bare_action ''fs.write'' ''/x/a'' None) = (Inr r, s')"
    using sample_write_runs by (cases "sample_call (bare_action ''fs.write'' ''/x/a'' None)") auto
  have judge: "judge_call sample_services sample_context fresh_turn sample_write_tool [(''path'', JStr ''/x/a'')] fresh_engine =
      (Inr ([bare_action ''fs.write'' ''/x/a'' None], fst r, snd r), s')"
    using r called by (simp add: judge_call_def sample_services_def sample_hooks_def obj_get_def sample_call_def case_prod_unfold)
  have snap: "with_snapshot f ''t'' sample_arguments = Inr sample_arguments" for f
    by (simp add: with_snapshot_def startswith_def)
  have args: "prepare_arguments (cs_loads sample_services) (cs_matches sample_services) sample_write_tool sample_arguments =
      Inr ([(''path'', JStr ''/x/a'')], [IgnoredEmpty [''note'']])"
    using sample_prepared by (simp add: sample_services_def)
  have prepared: "prepare_call sample_services \<lparr>reg_tools = [(''t'', sample_write_tool)], reg_hidden = []\<rparr> sample_context
      fresh_turn ''t'' sample_arguments fresh_engine =
      (Inr \<lparr>pc_tool = sample_write_tool, pc_arguments = [(''path'', JStr ''/x/a'')], pc_notes = [IgnoredEmpty [''note'']],
            pc_actions = [bare_action ''fs.write'' ''/x/a'' None], pc_approved = fst r, pc_sandbox = snd r\<rparr>, s')"
    by (simp add: prepare_call_def found tool snap args judge case_prod_unfold)
  have "cs_matches sample_services = (\<lambda>p s. None)" by (simp add: sample_services_def)
  then show ?thesis
    by (simp add: tool_call_result_def prepared run_prepared_def sample_clock_def run)
qed


end
