(* ===== verification/Spec2Isabelle.thy ===== *)
theory Spec2Isabelle
  imports Budget Loop_Detector Task_Graph Completion_Gate Tool_Authorization Checklist Goals Websocket Turn_Control Patches Schedule_Rules Schedule_Service Context_Window Tool_Call
begin

text \<open>
  Verification of the Rinari Engine (\<^verbatim>\<open>src/src/rinari\<close>), the Python program behind the Rinari
  command line and desktop application: it runs conversations between an owner and a language
  model that calls tools on the owner's machine.

  \<^bold>\<open>The program.\<close> A turn (\<^verbatim>\<open>runtime/agent.py\<close>, driven by \<^verbatim>\<open>cli/agent_runtime.py\<close> or
  \<^verbatim>\<open>engine_protocol/turns.py\<close>) alternates model calls with the tool calls the model asks for. What
  keeps it safe and finite is a set of small stateful components around that loop, and those are
  what this development models:

  \<^item> before a model call and before a tool runs, the budgets and the circuit breaker are asked
    (\<^verbatim>\<open>runtime/budget.py\<close>); a subagent's meter forwards to its parent's;
  \<^item> every tool call and its result go through the loop detector (\<^verbatim>\<open>runtime/loopdetection.py\<close>), the
    progress monitor and the governor (\<^verbatim>\<open>runtime/progress.py\<close>, \<^verbatim>\<open>runtime/governor.py\<close>), which nudge,
    compact or stop; the scheduler (\<^verbatim>\<open>tools/scheduler.py\<close>) says which calls run side by side, the
    token (\<^verbatim>\<open>runtime/cancellation.py\<close>) stops them;
  \<^item> the arguments of a call are made canonical and checked against the schema of its tool
    (\<^verbatim>\<open>tools/schema.py\<close>, \<^verbatim>\<open>tools/normalize.py\<close>); a request that names itself runs once
    (\<^verbatim>\<open>tools/runtime.py\<close>, \<^verbatim>\<open>tools/registry.py\<close>);
  \<^item> before a tool acts, its actions are authorised one by one (\<^verbatim>\<open>tools/runtime.py\<close>): the policy
    engine (\<^verbatim>\<open>policy/engine.py\<close>) says allow, ask or deny, with the facts of an MCP tool
    (\<^verbatim>\<open>policy/mcp_tools.py\<close>) and the network policy for hosts (\<^verbatim>\<open>policy/network.py\<close>); an ask is answered
    by a standing grant or by the owner (\<^verbatim>\<open>policy/approvals.py\<close>); what was granted widens the
    filesystem sandbox of that call (\<^verbatim>\<open>policy/sandbox.py\<close>), and a call that read external content
    marks the turn, which the policy sees from then on;
  \<^item> what the model reads is the durable conversation (\<^verbatim>\<open>runtime/durable_history.py\<close>), repaired after
    an interruption, its old observations settled and its head compacted when the window fills
    (\<^verbatim>\<open>context/\<close>);
  \<^item> edits of several files go through the batch patch (\<^verbatim>\<open>tools/patches.py\<close>); the browser is driven
    over a WebSocket (\<^verbatim>\<open>browser/ws.py\<close>);
  \<^item> what the work is about lives in the task graph (\<^verbatim>\<open>tasks/\<close>), the session's checklist
    (\<^verbatim>\<open>checklist/\<close>) and its goal (\<^verbatim>\<open>goals/\<close>), and whether it is done is decided by the completion gate
    over the validation records (\<^verbatim>\<open>verify/\<close>);
  \<^item> tasks the owner scheduled start turns on their own (\<^verbatim>\<open>schedule/\<close>).

  \<^bold>\<open>The theories.\<close> One per component, each with a header that names its sources and parameters:

  \<^item> \<open>Rinari_Prelude\<close>: Python's strings, JSON values, dictionaries as association lists, regular
    expressions as matching functions, list lemmas, and the two general interfaces:
    \<open>invariant_steps\<close> (a step function that keeps an invariant keeps it along every run) and
    \<open>monotone_steps\<close> (a measure that never decreases along a run). Each stateful component
    interprets one of them on its own step function; its invariant properties are the facts of
    that interpretation.
  \<^item> \<open>Budget\<close>: \<open>BudgetMeter\<close> and the parent links as an explicit store of meters, the recording
    operations, the gates and the \<open>EmergencyCircuitBreaker\<close>. Lemma groups: what one operation
    changes along the chain of parents, the sums over a subtree, the ceilings.
  \<^item> \<open>Loop_Detector\<close>: recorders, windows, the six detectors and the check. Lemma groups: what each
    detector reports and when, the pairing of nudges and stops.
  \<^item> \<open>Task_Graph\<close>: criteria, the done-when contract, cycle detection, the task table, the service.
    Lemma groups: the search of \<open>would_create_cycle\<close> is reachability; acyclicity per project; the
    status machine.
  \<^item> \<open>Completion_Gate\<close>: validation rows, failure markers, the gate, the service that feeds it.
  \<^item> \<open>Network_Policy\<close>: host normalisation and matching, the decision, the guard of the client.
  \<^item> \<open>Approvals\<close>: grants, their four stores, the files they are kept in. The interface
    \<open>grant_store\<close> states what the files promise and is interpreted on them.
  \<^item> \<open>Pattern\<close>: the part of Python's \<^verbatim>\<open>re\<close> the policy uses, as a backtracking matcher
    (\<open>rx_run\<close>) that is shown to find exactly the matches of a relational specification (\<open>rx_spec\<close>).
  \<^item> \<open>Paths\<close>: pure paths as \<^verbatim>\<open>pathlib\<close> has them, the sandbox and the working roots; what the file
    system answers (\<open>resolve\<close>, \<open>expand_user\<close>) is a parameter.
  \<^item> \<open>Shell_Text\<close>: what the policy reads off a command line: its words (\<^verbatim>\<open>shlex\<close>), segments,
    remote actions, git and network risks, secrets and the engine's home. The patterns of the code
    are terms of \<open>Pattern\<close>.
  \<^item> \<open>Policy_Engine\<close>: the facts of an MCP tool and \<open>decide\<close> with every branch of the code. The
    interface \<open>mode_layer\<close> states what each group of capabilities promises of the three permission
    profiles (full access never asks for less than a workspace, a workspace never denies what
    read-only allows) and is interpreted on the five groups.
  \<^item> \<open>Tool_Authorization\<close>: one call of a tool from its actions to the approvals and the sandbox it
    runs under, and the external sources a turn has read.
  \<^item> \<open>Tool_Arguments\<close>: JSON schemas and the validation of a call against them, the conversions and
    spellings that come before it. Lemma groups: what validation accepts is never converted,
    converting and rewriting are idempotent and keep what was asked for.
  \<^item> \<open>Tool_Execution\<close>: the registry of tools, the receipts of requests, the attempts of a handler.
  \<^item> \<open>Tool_Call\<close>: the call as a whole, from its name over the arguments and the authorisation to the
    handler; its theorem spans the three theories.
  \<^item> \<open>Conversation\<close>: messages and tool calls, the list that saves what is appended to it, and what is
    rebuilt after a crash: the results of interrupted calls, turns of old versions. Its specification
    of what a provider accepts (\<open>all_answered\<close>, \<open>no_orphans\<close>) is stated apart from the code.
  \<^item> \<open>Context_Window\<close>: token estimates, the tail a compaction keeps, the settled boundary and its
    notes, the compact state carried from one compaction to the next.
  \<^item> \<open>Checklist\<close>, \<open>Goals\<close>: the stored row of a session and every operation on it.
  \<^item> \<open>Turn_Control\<close>: scheduler, token, progress monitor, governor.
  \<^item> \<open>Patches\<close>: preparation, commit and rollback of a batch over a file system that other
    programs change meanwhile.
  \<^item> \<open>Websocket\<close>: frames on the wire as 8-bit words, the reader over a socket that delivers bytes
    in arbitrary pieces, message reassembly. The abstract specification is a decoder of the whole
    byte stream, and the reader with its buffers refines it.
  \<^item> \<open>Calendar\<close>, \<open>Schedule_Rules\<close>, \<open>Schedule_Service\<close>: the calendar arithmetic the rules use, schedules
    and their next run, the stored tasks and every operation on them.

  \<^bold>\<open>Conventions.\<close> Definitions keep the names of the code; an underscore at the end marks a clash
  with a word of Isabelle. Exceptions are left summands, \<open>None\<close> is \<open>None\<close>, mutation is a new state
  in the result, an object shared by several others is an index into a store. Times, prices and
  scores (Python floats) are exact rationals. A string is a list of code points up to U+00FF.
  Everything the code takes from elsewhere (clock, random bytes, hashes, path resolution, the time
  zone, the owner's answer) is an argument, and the theorems hold for all of them unless a
  hypothesis says what the code relies on; such a theorem has a witness.

  \<^bold>\<open>Loops and bounds.\<close> Loops over data are structural recursion. \<open>reach_loop\<close> ends because the
  set of visited tasks grows inside a finite set; the walks over parents end because a parent is
  older than its child. The cron search carries the code's own horizon of four years of days. The
  reader of the WebSocket runs on the events the socket will deliver, so it ends with them; its
  result says so when bytes are missing. No definition has artificial fuel.

  \<^bold>\<open>Not modelled.\<close> The agent loop and the two front ends (prompt assembly, provider calls, streaming,
  user interface, process handling), the JSON-RPC server, storage below the level of a table,
  providers, browser, document, speech and image drivers, MCP transport and OAuth, memory search,
  skills and plugins: mostly input and output around services outside the program. The manifest
  lists each with its reason.
\<close>

end
